(* ===== verification/Raster_Prelude.thy ===== *)
theory Raster_Prelude
  imports Main "HOL-Library.Word" "HOL-Library.Monad_Syntax"
begin

text \<open>
  Shared vocabulary of the development: Rust results with panics, checked indexing and checked
  \<open>usize\<close> subtraction, and the generic list and option lemmas the components use.
\<close>

section \<open>Outcomes of Rust code\<close>

text \<open>
  A Rust function that returns \<open>Result<T, E>\<close> ends in one of three ways: \<open>Ok\<close>, \<open>Err\<close>, or a
  panic (an index out of range, an arithmetic underflow, \<open>expect\<close> on \<open>None\<close>). Functions that
  return a plain value and can only panic use \<open>option\<close>, with \<open>None\<close> for the panic.
\<close>

datatype ('e, 'a) res = Ok 'a | Err 'e | Panic

fun rbind :: "('e, 'a) res \<Rightarrow> ('a \<Rightarrow> ('e, 'b) res) \<Rightarrow> ('e, 'b) res" where
  "rbind (Ok x) f = f x"
| "rbind (Err e) f = Err e"
| "rbind Panic f = Panic"

fun rmap :: "('a \<Rightarrow> 'b) \<Rightarrow> ('e, 'a) res \<Rightarrow> ('e, 'b) res" where
  "rmap f (Ok x) = Ok (f x)"
| "rmap f (Err e) = Err e"
| "rmap f Panic = Panic"

definition or_panic :: "'a option \<Rightarrow> ('e, 'a) res" where
  "or_panic m = (case m of None \<Rightarrow> Panic | Some x \<Rightarrow> Ok x)"

lemma or_panic_simps [simp]: "or_panic None = Panic" "or_panic (Some x) = Ok x"
  by (simp_all add: or_panic_def)

lemma rbind_eq_Ok [simp]: "rbind m f = Ok y \<longleftrightarrow> (\<exists>x. m = Ok x \<and> f x = Ok y)"
  by (cases m) auto

lemma rmap_eq_Ok [simp]: "rmap f m = Ok y \<longleftrightarrow> (\<exists>x. m = Ok x \<and> y = f x)"
  by (cases m) auto

lemma rbind_Ok_right [simp]: "rbind m Ok = m"
  by (cases m) auto

lemma rmap_rmap: "rmap f (rmap g m) = rmap (\<lambda>x. f (g x)) m"
  by (cases m) simp_all

lemma rmap_rbind: "rmap g (rbind m f) = rbind m (\<lambda>x. rmap g (f x))"
  by (cases m) simp_all

text \<open>How an outcome can be a panic, for the proofs that some code has none.\<close>

named_theorems panic_simps

lemma rbind_eq_Panic [panic_simps]: "rbind m f = Panic \<longleftrightarrow> m = Panic \<or> (\<exists>x. m = Ok x \<and> f x = Panic)"
  by (cases m) auto

lemma rmap_eq_Panic [panic_simps]: "rmap f m = Panic \<longleftrightarrow> m = Panic"
  by (cases m) auto

lemma or_panic_eq_Panic [panic_simps]: "or_panic m = Panic \<longleftrightarrow> m = None"
  by (cases m) auto

section \<open>Checked indexing and subtraction\<close>

definition vec_get :: "'a list \<Rightarrow> nat \<Rightarrow> 'a option" where
  "vec_get xs i = (if i < length xs then Some (xs ! i) else None)"

definition vec_set :: "'a list \<Rightarrow> nat \<Rightarrow> 'a \<Rightarrow> 'a list option" where
  "vec_set xs i v = (if i < length xs then Some (xs[i := v]) else None)"

definition usub :: "nat \<Rightarrow> nat \<Rightarrow> nat option" where
  "usub a b = (if b \<le> a then Some (a - b) else None)"

text \<open>A Rust slice \<open>&xs[a..b]\<close> panics unless \<open>a \<le> b \<le> xs.len()\<close>.\<close>

definition slice :: "'a list \<Rightarrow> nat \<Rightarrow> nat \<Rightarrow> 'a list option" where
  "slice xs a b = (if a \<le> b \<and> b \<le> length xs then Some (take (b - a) (drop a xs)) else None)"

lemma vec_get_in [simp]: "i < length xs \<Longrightarrow> vec_get xs i = Some (xs ! i)"
  by (simp add: vec_get_def)

lemma vec_get_out [simp]: "length xs \<le> i \<Longrightarrow> vec_get xs i = None"
  by (simp add: vec_get_def)

lemma vec_set_in [simp]: "i < length xs \<Longrightarrow> vec_set xs i v = Some (xs[i := v])"
  by (simp add: vec_set_def)

lemma usub_in [simp]: "b \<le> a \<Longrightarrow> usub a b = Some (a - b)"
  by (simp add: usub_def)

lemma slice_in [simp]: "a \<le> b \<Longrightarrow> b \<le> length xs \<Longrightarrow> slice xs a b = Some (take (b - a) (drop a xs))"
  by (simp add: slice_def)

section \<open>Lists of options\<close>

definition somes :: "'a option list \<Rightarrow> 'a list" where
  "somes xs = List.map_filter id xs"

lemma somes_simps [simp]:
  "somes [] = []" "somes (None # xs) = somes xs" "somes (Some x # xs) = x # somes xs"
  by (simp_all add: somes_def List.map_filter_simps)

lemma somes_append [simp]: "somes (xs @ ys) = somes xs @ somes ys"
proof (induction xs)
  case (Cons a xs)
  then show ?case by (cases a) simp_all
qed simp

lemma somes_map_Some [simp]: "somes (map Some xs) = xs"
  by (induction xs) simp_all

lemma length_somes_fill:
  "i < length xs \<Longrightarrow> xs ! i = None \<Longrightarrow> length (somes (xs[i := Some x])) = Suc (length (somes xs))"
  by (simp add: upd_conv_take_nth_drop) (metis id_take_nth_drop length_append somes_append somes_simps(2))

lemma length_somes_take:
  "i < length xs \<Longrightarrow> xs ! i = Some x \<Longrightarrow> Suc (length (somes (xs[i := None]))) = length (somes xs)"
  by (simp add: upd_conv_take_nth_drop)
    (metis (no_types) add_Suc_right id_take_nth_drop length_Cons length_append somes_append somes_simps(3))

section \<open>Machines\<close>

text \<open>
  A machine executes operations on its state; \<open>None\<close> is a panic. If every allowed operation keeps the
  invariant and does not panic, no sequence of allowed operations panics.
\<close>

primrec run :: "('op \<Rightarrow> 's \<Rightarrow> 's option) \<Rightarrow> 'op list \<Rightarrow> 's \<Rightarrow> 's option" where
  "run exec [] s = Some s"
| "run exec (x # xs) s = (case exec x s of None \<Rightarrow> None | Some s' \<Rightarrow> run exec xs s')"

locale machine =
  fixes exec :: "'op \<Rightarrow> 's \<Rightarrow> 's option" and allowed :: "'op \<Rightarrow> bool" and inv :: "'s \<Rightarrow> bool"
  assumes keeps: "allowed x \<Longrightarrow> inv s \<Longrightarrow> \<exists>s'. exec x s = Some s' \<and> inv s'"
begin

lemma run_keeps: "list_all allowed xs \<Longrightarrow> inv s \<Longrightarrow> \<exists>s'. run exec xs s = Some s' \<and> inv s'"
proof (induction xs arbitrary: s)
  case (Cons x xs)
  then obtain s' where "exec x s = Some s'" "inv s'" using keeps [of x s] by auto
  with Cons show ?case by simp
qed simp

end

end
