(* ===== verification/Reuse_List.thy ===== *)
theory Reuse_List
  imports Raster_Prelude
begin

text \<open>
  Model of \<open>ReuseList\<close> (src/libs/raster_runtime_utils/src/reuse_list.rs), the slot table in which
  the TCP and TLS servers keep their live sockets.
\<close>

section \<open>State and operations\<close>

record 'a reuse_list =
  items :: "'a option list"
  slots :: "nat list"
  last_slot_idx :: nat
  rl_len :: nat
  slot_size :: nat

definition with_capacity_rl :: "nat \<Rightarrow> 'a reuse_list" where
  "with_capacity_rl capacity =
     \<lparr>items = [], slots = [], last_slot_idx = 0, rl_len = 0, slot_size = 0\<rparr>"

definition new_rl :: "'a reuse_list" where
  "new_rl = with_capacity_rl 0"

definition is_empty_rl :: "'a reuse_list \<Rightarrow> bool" where
  "is_empty_rl r \<longleftrightarrow> rl_len r = 0"

text \<open>\<open>None\<close> is a panic: an index out of range, or a subtraction below zero.\<close>

definition append_end :: "'a \<Rightarrow> 'a reuse_list \<Rightarrow> 'a reuse_list \<times> nat" where
  "append_end item r =
     (let its = items r @ [Some item]
      in (r\<lparr>items := its, rl_len := rl_len r + 1\<rparr>, length its - 1))"

definition append_rl :: "'a \<Rightarrow> 'a reuse_list \<Rightarrow> ('a reuse_list \<times> nat) option" where
  "append_rl item r =
     (if 0 < slot_size r then do {
        top \<leftarrow> usub (last_slot_idx r) 1;
        slot \<leftarrow> vec_get (slots r) top;
        if 0 < slot then do {
          its \<leftarrow> vec_set (items r) (slot - 1) (Some item);
          sls \<leftarrow> vec_set (slots r) top 0;
          let lst = (if 1 < last_slot_idx r then last_slot_idx r - 1 else last_slot_idx r);
          Some (r\<lparr>items := its, slots := sls, last_slot_idx := lst, rl_len := rl_len r + 1\<rparr>,
                slot - 1)
        } else Some (append_end item r)
      } else Some (append_end item r))"

text \<open>The free index is written over the top slot when that is spent, and pushed otherwise.\<close>

definition release_slot :: "nat \<Rightarrow> 'a reuse_list \<Rightarrow> 'a reuse_list option" where
  "release_slot index r = do {
     spent \<leftarrow> (if 0 < slot_size r then do {
                 top \<leftarrow> usub (last_slot_idx r) 1;
                 s \<leftarrow> vec_get (slots r) top;
                 Some (s = 0)
               } else Some False);
     if spent then do {
       sls \<leftarrow> vec_set (slots r) (last_slot_idx r - 1) (index + 1);
       Some (r\<lparr>slots := sls\<rparr>)
     } else
       Some (r\<lparr>slots := slots r @ [index + 1], last_slot_idx := last_slot_idx r + 1,
               slot_size := slot_size r + 1\<rparr>)
   }"

definition remove_rl :: "nat \<Rightarrow> 'a reuse_list \<Rightarrow> ('a reuse_list \<times> 'a option) option" where
  "remove_rl index r =
     (if length (items r) \<le> index then Some (r, None)
      else case items r ! index of
        None \<Rightarrow> Some (r, None)
      | Some x \<Rightarrow> do {
          r' \<leftarrow> release_slot index (r\<lparr>items := (items r)[index := None]\<rparr>);
          n \<leftarrow> usub (rl_len r') 1;
          Some (r'\<lparr>rl_len := n\<rparr>, Some x)
        })"

definition get_rl :: "'a reuse_list \<Rightarrow> nat \<Rightarrow> 'a option" where
  "get_rl r index = (if length (items r) \<le> index then None else items r ! index)"

text \<open>\<open>get_mut\<close> hands out a reference; writing \<open>f\<close> of the old value through it is one step.\<close>

definition get_mut_rl :: "nat \<Rightarrow> ('a \<Rightarrow> 'a) \<Rightarrow> 'a reuse_list \<Rightarrow> 'a reuse_list" where
  "get_mut_rl index f r =
     (if length (items r) \<le> index then r
      else r\<lparr>items := (items r)[index := map_option f (items r ! index)]\<rparr>)"

definition len_rl :: "'a reuse_list \<Rightarrow> nat" where
  "len_rl r = rl_len r"

definition iter_rl :: "'a reuse_list \<Rightarrow> 'a list" where
  "iter_rl r = somes (items r)"

definition iter_mut_rl :: "('a \<Rightarrow> 'a) \<Rightarrow> 'a reuse_list \<Rightarrow> 'a reuse_list" where
  "iter_mut_rl f r = r\<lparr>items := map (map_option f) (items r)\<rparr>"

definition clear_rl :: "'a reuse_list \<Rightarrow> 'a reuse_list" where
  "clear_rl r = r\<lparr>items := [], slots := [], last_slot_idx := 0, rl_len := 0, slot_size := 0\<rparr>"

definition optimize_rl :: "'a reuse_list \<Rightarrow> 'a reuse_list" where
  "optimize_rl r =
     r\<lparr>items := filter (\<lambda>x. \<not> Option.is_none x) (items r), slots := [], last_slot_idx := 0, slot_size := 0\<rparr>"

section \<open>The invariant\<close>

text \<open>
  Every recorded slot is a distinct, vacant index (a slot holds index plus one; zero is a spent
  entry), the cursor stays inside the slot vector, and \<open>len\<close> counts the live items.
\<close>

definition slots_vacant :: "'a option list \<Rightarrow> nat list \<Rightarrow> bool" where
  "slots_vacant its sls \<longleftrightarrow>
     (\<forall>s\<in>set sls. 0 < s \<longrightarrow> s \<le> length its \<and> its ! (s - 1) = None)
     \<and> distinct (filter (\<lambda>s. 0 < s) sls)"

definition rl_inv :: "'a reuse_list \<Rightarrow> bool" where
  "rl_inv r \<longleftrightarrow>
     slot_size r = length (slots r) \<and> last_slot_idx r \<le> length (slots r)
     \<and> (slots r \<noteq> [] \<longrightarrow> 0 < last_slot_idx r)
     \<and> rl_len r = length (somes (items r))
     \<and> slots_vacant (items r) (slots r)"

lemmas rl_ops = append_rl_def append_end_def remove_rl_def release_slot_def get_rl_def Let_def

lemma rl_invD:
  assumes "rl_inv r" "0 < slot_size r"
  shows "0 < last_slot_idx r" "last_slot_idx r - 1 < length (slots r)"
  using assms by (auto simp: rl_inv_def)

lemma slots_vacant_fill:
  assumes "slots_vacant its sls" "t < length sls" "0 < sls ! t"
  shows "slots_vacant (its[sls ! t - 1 := Some x]) (sls[t := 0])"
proof -
  let ?s = "sls ! t"
  have sls: "sls = take t sls @ ?s # drop (Suc t) sls"
    using assms(2) by (rule id_take_nth_drop)
  have upd: "sls[t := 0] = take t sls @ 0 # drop (Suc t) sls"
    using assms(2) by (simp add: upd_conv_take_nth_drop)
  have "distinct (filter (\<lambda>s. 0 < s) (take t sls @ ?s # drop (Suc t) sls))"
    using assms(1) sls by (simp add: slots_vacant_def)
  then have d: "distinct (filter (\<lambda>s. 0 < s) (sls[t := 0]))"
    and fresh: "\<And>s. s \<in> set (sls[t := 0]) \<Longrightarrow> 0 < s \<Longrightarrow> s \<noteq> ?s"
    using assms(3) by (auto simp: upd)
  have "set (sls[t := 0]) \<subseteq> insert 0 (set sls)"
    by (rule set_update_subset_insert)
  then have "s \<le> length its \<and> its[?s - 1 := Some x] ! (s - 1) = None"
    if "s \<in> set (sls[t := 0])" "0 < s" for s
    using that fresh [OF that] assms(1,3) by (auto simp: slots_vacant_def nth_list_update)
  with d show ?thesis by (simp add: slots_vacant_def)
qed

lemma slots_vacant_fresh:
  assumes "slots_vacant its sls" "i < length its" "its ! i = Some x"
  shows "Suc i \<notin> set sls"
  using assms by (auto simp: slots_vacant_def)

lemma slots_vacant_release:
  assumes "slots_vacant its sls" "i < length its" "its ! i = Some x"
  shows "slots_vacant (its[i := None]) (sls @ [Suc i])"
    and "t < length sls \<Longrightarrow> sls ! t = 0 \<Longrightarrow> slots_vacant (its[i := None]) (sls[t := Suc i])"
proof -
  note fresh = slots_vacant_fresh [OF assms]
  show "slots_vacant (its[i := None]) (sls @ [Suc i])"
    using assms fresh by (auto simp: slots_vacant_def nth_list_update)
  assume t: "t < length sls" "sls ! t = 0"
  have sls: "sls = take t sls @ 0 # drop (Suc t) sls"
    using id_take_nth_drop [OF t(1)] t(2) by simp
  have upd: "sls[t := Suc i] = take t sls @ Suc i # drop (Suc t) sls"
    using t(1) by (simp add: upd_conv_take_nth_drop)
  have "distinct (filter (\<lambda>s. 0 < s) (take t sls @ 0 # drop (Suc t) sls))"
    using assms(1) sls by (simp add: slots_vacant_def)
  then have d: "distinct (filter (\<lambda>s. 0 < s) (sls[t := Suc i]))"
    using fresh by (auto simp: upd dest: in_set_takeD in_set_dropD)
  have "set (sls[t := Suc i]) \<subseteq> insert (Suc i) (set sls)"
    by (rule set_update_subset_insert)
  then show "slots_vacant (its[i := None]) (sls[t := Suc i])"
    using d assms by (auto simp: slots_vacant_def nth_list_update)
qed

lemma slots_vacant_extend: "slots_vacant its sls \<Longrightarrow> slots_vacant (its @ xs) sls"
  by (auto simp: slots_vacant_def nth_append)

lemma filter_is_some: "filter (\<lambda>x. \<not> Option.is_none x) xs = map Some (somes xs)"
proof (induction xs)
  case (Cons a xs)
  then show ?case by (cases a) simp_all
qed simp

section \<open>Every operation keeps the invariant\<close>

lemma append_end_spec:
  assumes "rl_inv r" "append_end item r = (r', i)"
  shows "rl_inv r' \<and> i = length (items r) \<and> items r' = items r @ [Some item]
    \<and> len_rl r' = Suc (len_rl r)"
  using assms by (auto simp: append_end_def rl_inv_def len_rl_def slots_vacant_extend Let_def)

lemma append_rl_cases:
  assumes inv: "rl_inv r"
  obtains (reuse) s where "s \<in> set (slots r)" "0 < s"
      "append_rl item r = Some
         (r\<lparr>items := (items r)[s - 1 := Some item], slots := (slots r)[last_slot_idx r - 1 := 0],
            last_slot_idx := max 1 (last_slot_idx r - 1), rl_len := Suc (rl_len r)\<rparr>, s - 1)"
      "s = slots r ! (last_slot_idx r - 1)" "0 < slot_size r"
    | (grow) "append_rl item r = Some (append_end item r)"
proof (cases "0 < slot_size r \<and> 0 < slots r ! (last_slot_idx r - 1)")
  case True
  let ?s = "slots r ! (last_slot_idx r - 1)"
  from True have ss: "0 < slot_size r" and s: "0 < ?s" by auto
  note top = rl_invD [OF inv ss]
  from top have mem: "?s \<in> set (slots r)" by simp
  with inv s have "?s - 1 < length (items r)" by (auto simp: rl_inv_def slots_vacant_def)
  with top s ss show thesis
    by (intro reuse [of ?s]) (auto simp: append_rl_def mem)
next
  case False
  have "append_rl item r = Some (append_end item r)"
  proof (cases "0 < slot_size r")
    case True
    with False rl_invD [OF inv True] show ?thesis by (auto simp: append_rl_def)
  next
    case False
    then show ?thesis by (simp add: append_rl_def)
  qed
  then show thesis by (rule grow)
qed

lemma append_rl_spec:
  assumes inv: "rl_inv r"
  shows "\<exists>r' i. append_rl item r = Some (r', i) \<and> rl_inv r' \<and> get_rl r i = None
    \<and> (\<forall>j. get_rl r' j = (if j = i then Some item else get_rl r j)) \<and> len_rl r' = Suc (len_rl r)"
  using inv
proof (cases rule: append_rl_cases [where item = item])
  case (reuse s)
  let ?r' = "r\<lparr>items := (items r)[s - 1 := Some item], slots := (slots r)[last_slot_idx r - 1 := 0],
            last_slot_idx := max 1 (last_slot_idx r - 1), rl_len := Suc (rl_len r)\<rparr>"
  have vac: "s \<le> length (items r)" "items r ! (s - 1) = None"
    using inv reuse by (auto simp: rl_inv_def slots_vacant_def)
  then have lt: "s - 1 < length (items r)" using reuse(2) by simp
  note top = rl_invD [OF inv reuse(5)]
  have "slots_vacant (items ?r') (slots ?r')"
    using slots_vacant_fill [of "items r" "slots r" "last_slot_idx r - 1" item] inv top reuse
    by (simp add: rl_inv_def)
  then have "rl_inv ?r'"
    using inv top vac(2) lt by (auto simp: rl_inv_def length_somes_fill)
  with reuse vac lt show ?thesis
    by (auto simp: get_rl_def len_rl_def nth_list_update)
next
  case grow
  obtain r' i where ri: "append_end item r = (r', i)" by force
  with append_end_spec [OF inv ri] grow show ?thesis
    by (auto simp: get_rl_def nth_append)
qed

lemma release_slot_spec:
  assumes inv: "rl_inv r" and i: "i < length (items r)" "items r ! i = Some x"
  shows "\<exists>r'. release_slot i (r\<lparr>items := (items r)[i := None]\<rparr>) = Some r'
    \<and> items r' = (items r)[i := None] \<and> rl_len r' = rl_len r
    \<and> rl_inv (r'\<lparr>rl_len := rl_len r - 1\<rparr>)"
proof -
  have n: "rl_len r - 1 = length (somes ((items r)[i := None]))"
    using inv length_somes_take [OF i] by (simp add: rl_inv_def)
  have sv: "slots_vacant (items r) (slots r)" using inv by (simp add: rl_inv_def)
  note rel = slots_vacant_release [OF sv i]
  show ?thesis
  proof (cases "0 < slot_size r \<and> slots r ! (last_slot_idx r - 1) = 0")
    case True
    with rl_invD [OF inv] n inv rel(2) show ?thesis
      by (auto simp: release_slot_def rl_inv_def)
  next
    case False
    have "release_slot i (r\<lparr>items := (items r)[i := None]\<rparr>) =
        Some (r\<lparr>items := (items r)[i := None], slots := slots r @ [Suc i],
                last_slot_idx := Suc (last_slot_idx r), slot_size := Suc (slot_size r)\<rparr>)"
      using False rl_invD [OF inv] by (cases "0 < slot_size r") (auto simp: release_slot_def)
    with n inv rel(1) show ?thesis by (auto simp: rl_inv_def)
  qed
qed

lemma remove_rl_spec:
  assumes inv: "rl_inv r"
  shows "\<exists>r'. remove_rl i r = Some (r', get_rl r i) \<and> rl_inv r'
    \<and> (\<forall>j. get_rl r' j = (if j = i then None else get_rl r j))
    \<and> len_rl r' = (if get_rl r i = None then len_rl r else len_rl r - 1)"
proof (cases "i < length (items r) \<and> items r ! i \<noteq> None")
  case True
  then obtain x where i: "i < length (items r)" "items r ! i = Some x" by auto
  from release_slot_spec [OF inv i] obtain r' where r':
      "release_slot i (r\<lparr>items := (items r)[i := None]\<rparr>) = Some r'"
      "items r' = (items r)[i := None]" "rl_len r' = rl_len r" "rl_inv (r'\<lparr>rl_len := rl_len r - 1\<rparr>)"
    by blast
  have "1 \<le> rl_len r" using inv length_somes_take [OF i] by (simp add: rl_inv_def)
  with i r' show ?thesis
    by (auto simp: remove_rl_def get_rl_def len_rl_def nth_list_update)
next
  case False
  with inv show ?thesis by (auto simp: remove_rl_def get_rl_def)
qed

lemma optimize_rl_spec:
  assumes "rl_inv r"
  shows "rl_inv (optimize_rl r)" "iter_rl (optimize_rl r) = iter_rl r"
    "len_rl (optimize_rl r) = len_rl r" "length (items (optimize_rl r)) = len_rl r"
  using assms
  by (auto simp: rl_inv_def optimize_rl_def iter_rl_def len_rl_def slots_vacant_def filter_is_some)

lemma rl_inv_new: "rl_inv new_rl"
  by (simp add: rl_inv_def new_rl_def with_capacity_rl_def slots_vacant_def)

lemma get_rl_new: "get_rl new_rl i = None"
  by (simp add: get_rl_def new_rl_def with_capacity_rl_def)

lemma rl_inv_clear: "rl_inv (clear_rl r)"
  by (simp add: rl_inv_def clear_rl_def slots_vacant_def)

lemma somes_map_option [simp]: "somes (map (map_option f) xs) = map f (somes xs)"
proof (induction xs)
  case (Cons a xs)
  then show ?case by (cases a) simp_all
qed simp

lemma rl_inv_iter_mut: "rl_inv r \<Longrightarrow> rl_inv (iter_mut_rl f r)"
  by (auto simp: rl_inv_def iter_mut_rl_def slots_vacant_def)

section \<open>The contract of a handle table\<close>

text \<open>
  What the servers rely on: inserting yields a handle that named nothing before and names the new
  item afterwards, removing returns what the handle named, and neither disturbs another handle.
  Runs of operations and their results are related by \<open>table_trace\<close> to a plain finite map.
\<close>

datatype 'a table_op = Insert 'a | Remove nat
datatype 'a table_out = Handle nat | Removed "'a option"

inductive table_trace ::
    "(nat \<rightharpoonup> 'a) \<Rightarrow> 'a table_op list \<Rightarrow> 'a table_out list \<Rightarrow> (nat \<rightharpoonup> 'a) \<Rightarrow> bool" where
  t_done: "table_trace m [] [] m"
| t_insert: "m i = None \<Longrightarrow> table_trace (m(i \<mapsto> x)) ops outs m' \<Longrightarrow>
     table_trace m (Insert x # ops) (Handle i # outs) m'"
| t_remove: "table_trace (m(i := None)) ops outs m' \<Longrightarrow>
     table_trace m (Remove i # ops) (Removed (m i) # outs) m'"

inductive_cases table_trace_RemoveE: "table_trace m (Remove i # ops) outs m'"

fun run_table ::
    "('a \<Rightarrow> 's \<Rightarrow> ('s \<times> nat) option) \<Rightarrow> (nat \<Rightarrow> 's \<Rightarrow> ('s \<times> 'a option) option)
      \<Rightarrow> 'a table_op list \<Rightarrow> 's \<Rightarrow> ('s \<times> 'a table_out list) option" where
  "run_table ins del [] s = Some (s, [])"
| "run_table ins del (Insert x # ops) s = do {
     (s1, i) \<leftarrow> ins x s;
     (s2, outs) \<leftarrow> run_table ins del ops s1;
     Some (s2, Handle i # outs)
   }"
| "run_table ins del (Remove i # ops) s = do {
     (s1, v) \<leftarrow> del i s;
     (s2, outs) \<leftarrow> run_table ins del ops s1;
     Some (s2, Removed v # outs)
   }"

locale handle_table =
  fixes ins :: "'a \<Rightarrow> 's \<Rightarrow> ('s \<times> nat) option"
    and del :: "nat \<Rightarrow> 's \<Rightarrow> ('s \<times> 'a option) option"
    and look :: "'s \<Rightarrow> nat \<Rightarrow> 'a option"
    and inv :: "'s \<Rightarrow> bool"
  assumes ins_ok: "inv s \<Longrightarrow> \<exists>s' i. ins x s = Some (s', i) \<and> inv s' \<and> look s i = None
      \<and> look s' = (look s)(i \<mapsto> x)"
    and del_ok: "inv s \<Longrightarrow> \<exists>s'. del i s = Some (s', look s i) \<and> inv s' \<and> look s' = (look s)(i := None)"
begin

lemma run_refines_map:
  "inv s \<Longrightarrow> \<exists>s' outs. run_table ins del ops s = Some (s', outs) \<and> inv s'
     \<and> table_trace (look s) ops outs (look s')"
proof (induction ops arbitrary: s)
  case Nil
  then show ?case by (auto intro: table_trace.t_done)
next
  case (Cons op ops)
  show ?case
  proof (cases op)
    case (Insert x)
    from ins_ok [OF Cons.prems, of x] obtain s1 i where s1: "ins x s = Some (s1, i)" "inv s1"
        "look s i = None" "look s1 = (look s)(i \<mapsto> x)" by blast
    from Cons.IH [OF s1(2)] obtain s2 outs where "run_table ins del ops s1 = Some (s2, outs)"
        "inv s2" "table_trace (look s1) ops outs (look s2)" by blast
    with s1 Insert show ?thesis by (auto intro: table_trace.t_insert)
  next
    case (Remove i)
    from del_ok [OF Cons.prems, of i] obtain s1 where s1: "del i s = Some (s1, look s i)" "inv s1"
        "look s1 = (look s)(i := None)" by blast
    from Cons.IH [OF s1(2)] obtain s2 outs where "run_table ins del ops s1 = Some (s2, outs)"
        "inv s2" "table_trace (look s1) ops outs (look s2)" by blast
    with s1 Remove show ?thesis by (auto intro: table_trace.t_remove)
  qed
qed

end

interpretation rl: handle_table append_rl remove_rl get_rl rl_inv
proof unfold_locales
  fix s :: "'a reuse_list" and x
  assume "rl_inv s"
  from append_rl_spec [OF this, of x] show "\<exists>s' i. append_rl x s = Some (s', i) \<and> rl_inv s'
      \<and> get_rl s i = None \<and> get_rl s' = (get_rl s)(i \<mapsto> x)"
    by (auto simp: fun_eq_iff)
next
  fix s :: "'a reuse_list" and i
  assume "rl_inv s"
  from remove_rl_spec [OF this, of i] show "\<exists>s'. remove_rl i s = Some (s', get_rl s i) \<and> rl_inv s'
      \<and> get_rl s' = (get_rl s)(i := None)"
    by (auto simp: fun_eq_iff)
qed

section \<open>Properties\<close>

text \<open>C3: Any sequence of \<open>append\<close> and \<open>remove\<close> calls on a fresh \<open>ReuseList\<close> runs without a
  panic, ends in a state satisfying the slot invariant, and its returned indices and items are
  those of a finite map in which each \<open>append\<close> picks an index that was vacant.\<close>

theorem reuse_list_refines_map:
  "\<exists>r outs. run_table append_rl remove_rl ops (new_rl :: 'a reuse_list) = Some (r, outs)
     \<and> rl_inv r \<and> table_trace Map.empty ops outs (get_rl r)"
  using rl.run_refines_map [OF rl_inv_new, of ops] by (simp add: get_rl_new [abs_def])

text \<open>Compacting a well-formed list with \<open>optimize\<close> keeps the live items in order and their
  number, leaves no vacant entry, and re-establishes the invariant.\<close>

theorem optimize_compacts:
  assumes "rl_inv r"
  shows "rl_inv (optimize_rl r) \<and> iter_rl (optimize_rl r) = iter_rl r
    \<and> items (optimize_rl r) = map Some (iter_rl r)"
  using assms optimize_rl_spec by (auto simp: optimize_rl_def iter_rl_def filter_is_some)

theorem optimize_compacts_witness:
  "iter_rl (optimize_rl \<lparr>items = [Some (7::nat), None, Some 9], slots = [2],
      last_slot_idx = 1, rl_len = 2, slot_size = 1\<rparr>) = [7, 9]"
proof -
  have "rl_inv \<lparr>items = [Some (7::nat), None, Some 9], slots = [2],
      last_slot_idx = 1, rl_len = 2, slot_size = 1\<rparr>"
    by (simp add: rl_inv_def slots_vacant_def)
  from optimize_compacts [OF this] show ?thesis by (simp add: iter_rl_def)
qed

text \<open>The free list can lose track of vacant entries: there is a run after which two entries
  are vacant and recorded as free, yet the next \<open>append\<close> grows the vector.\<close>

theorem append_ignores_free_slots:
  "\<exists>r outs. run_table append_rl remove_rl
        [Insert 0, Insert 1, Insert (2::nat), Remove 0, Remove 1, Insert 3, Remove 1] new_rl = Some (r, outs)
     \<and> items r = [None, None, Some 2] \<and> {1, 2} \<subseteq> set (slots r)
     \<and> map_option snd (append_rl 4 r) = Some 3"
  by (simp add: new_rl_def with_capacity_rl_def append_rl_def append_end_def remove_rl_def
      release_slot_def vec_get_def vec_set_def usub_def numeral_2_eq_2)

end
