(* ===== verification/Rust_Text.thy ===== *)
theory Rust_Text
  imports Raster_Prelude
begin

text \<open>
  The part of the Rust standard library's text handling that the runtime uses: UTF-8 validation
  with its \<open>valid_up_to\<close> and \<open>error_len\<close>, \<open>String::from_utf8_lossy\<close>, UTF-16 encoding and decoding.
  A Rust \<open>String\<close> is modelled as the list of its Unicode scalar values, a byte as an 8-bit word.
\<close>

unbundle bit_operations_syntax

type_synonym byte = "8 word"
type_synonym u16 = "16 word"
type_synonym rstring = "nat list"

definition REPLACEMENT :: nat where
  "REPLACEMENT = 0xFFFD"

section \<open>Masks on bytes\<close>

lemma unat_take_bit: "unat (take_bit k b) = unat (b :: 'a::len word) mod 2 ^ k"
  by (simp add: unsigned_take_bit_eq flip: take_bit_eq_mod)

lemma unat_and_not_mask: "unat (b AND NOT (mask k)) = unat (b :: 'a::len word) div 2 ^ k * 2 ^ k"
proof -
  have eq: "b AND NOT (mask k) = push_bit k (drop_bit k b)"
    by (simp add: bit_eq_iff bit_simps) (auto simp: bit_simps)
  have "unat (push_bit k (drop_bit k b)) = unat (b - take_bit k b)"
    by (metis add_diff_cancel_right' bits_ident)
  also have "\<dots> = unat b - unat b mod 2 ^ k"
  proof -
    have "take_bit k b \<le> b"
      by (simp add: word_le_nat_alt unat_take_bit)
    then show ?thesis by (simp add: unat_sub unat_take_bit)
  qed
  also have "\<dots> = unat b div 2 ^ k * 2 ^ k"
    by (simp add: minus_mod_eq_div_mult)
  finally show ?thesis by (simp add: eq)
qed

lemma high_masks:
  "(0x80 :: byte) = NOT (mask 7)" "(0xC0 :: byte) = NOT (mask 6)" "(0xE0 :: byte) = NOT (mask 5)"
  "(0xF0 :: byte) = NOT (mask 4)" "(0xF8 :: byte) = NOT (mask 3)" "(0xFC :: byte) = NOT (mask 2)"
  by (simp_all add: mask_eq_exp_minus_1)

lemma high_bits:
  fixes b :: byte
  shows "unat (b AND 0x80) = unat b div 128 * 128" "unat (b AND 0xC0) = unat b div 64 * 64"
    "unat (b AND 0xE0) = unat b div 32 * 32" "unat (b AND 0xF0) = unat b div 16 * 16"
    "unat (b AND 0xF8) = unat b div 8 * 8" "unat (b AND 0xFC) = unat b div 4 * 4"
  by (simp_all only: high_masks unat_and_not_mask) simp_all

lemma unat_byte_less [simp]: "unat (b :: byte) < 256"
  using unsigned_less [of b] by simp

section \<open>UTF-8\<close>

text \<open>
  One step of the standard library's validator at the head of a non-empty input: a scalar of
  \<open>n\<close> bytes, an error that skips \<open>n\<close> bytes (\<open>error_len = Some n\<close>), or an input that ends inside
  a sequence that is valid so far (\<open>error_len = None\<close>).
\<close>

datatype utf8_item = Scalar nat | Invalid nat | Truncated

definition is_cont :: "byte \<Rightarrow> bool" where
  "is_cont b \<longleftrightarrow> 0x80 \<le> b \<and> b \<le> 0xBF"

text \<open>The range the second byte must have; it depends on the first (E0, ED, F0, F4 are narrower).\<close>

definition ok_second :: "byte \<Rightarrow> byte \<Rightarrow> bool" where
  "ok_second b b1 \<longleftrightarrow>
     (if b = 0xE0 then 0xA0 \<le> b1 \<and> b1 \<le> 0xBF
      else if b = 0xED then 0x80 \<le> b1 \<and> b1 \<le> 0x9F
      else if b = 0xF0 then 0x90 \<le> b1 \<and> b1 \<le> 0xBF
      else if b = 0xF4 then 0x80 \<le> b1 \<and> b1 \<le> 0x8F
      else is_cont b1)"

definition utf8_width :: "byte \<Rightarrow> nat" where
  "utf8_width b =
     (if b < 0x80 then 1
      else if 0xC2 \<le> b \<and> b \<le> 0xDF then 2
      else if 0xE0 \<le> b \<and> b \<le> 0xEF then 3
      else if 0xF0 \<le> b \<and> b \<le> 0xF4 then 4
      else 0)"

text \<open>Count how far the continuation bytes of a sequence of width \<open>w\<close> go.\<close>

fun utf8_rest :: "nat \<Rightarrow> nat \<Rightarrow> byte list \<Rightarrow> utf8_item" where
  "utf8_rest w k bs =
     (if w \<le> k then Scalar w
      else case bs of
        [] \<Rightarrow> Truncated
      | b # r \<Rightarrow> if is_cont b then utf8_rest w (Suc k) r else Invalid k)"

declare utf8_rest.simps [simp del]

definition utf8_item :: "byte \<Rightarrow> byte list \<Rightarrow> utf8_item" where
  "utf8_item b bs =
     (let w = utf8_width b
      in if w = 0 then Invalid 1
         else if w = 1 then Scalar 1
         else case bs of
           [] \<Rightarrow> Truncated
         | b1 # r \<Rightarrow> if ok_second b b1 then utf8_rest w 2 r else Invalid 1)"

definition scalar_of :: "byte list \<Rightarrow> nat" where
  "scalar_of bs =
     (case bs of
        [] \<Rightarrow> 0
      | b # r \<Rightarrow>
          foldl (\<lambda>acc c. acc * 64 + unat c mod 64)
            (if b < 0x80 then unat b else if b < 0xE0 then unat b mod 32
             else if b < 0xF0 then unat b mod 16 else unat b mod 8) r)"

text \<open>A prefix of the input determines the step unless the step ran off its end.\<close>

lemma utf8_rest_append:
  "utf8_rest w k a \<noteq> Truncated \<Longrightarrow> utf8_rest w k (a @ b) = utf8_rest w k a"
proof (induction w k a rule: utf8_rest.induct)
  case (1 w k a)
  then show ?case
    by (cases a) (auto simp: utf8_rest.simps [of w k] split: if_splits)
qed

lemma utf8_item_append:
  "utf8_item b a \<noteq> Truncated \<Longrightarrow> utf8_item b (a @ c) = utf8_item b a"
  by (cases a) (auto simp: utf8_item_def Let_def utf8_rest_append split: if_splits)

lemma utf8_rest_len:
  "utf8_rest w k a = Scalar n \<Longrightarrow> k \<le> w \<Longrightarrow> n = w \<and> n \<le> k + length a"
  "utf8_rest w k a = Invalid n \<Longrightarrow> k \<le> n \<and> n \<le> k + length a"
proof (induction w k a rule: utf8_rest.induct)
  case (1 w k a)
  {
    case 1
    then show ?case using "1.IH"(1)
      by (subst (asm) utf8_rest.simps) (fastforce split: if_splits list.splits)
  next
    case 2
    then show ?case using "1.IH"(2)
      by (subst (asm) utf8_rest.simps) (fastforce split: if_splits list.splits)
  }
qed

lemma utf8_width_cases: "utf8_width b \<in> {0, 1, 2, 3, 4}"
  by (simp add: utf8_width_def)

lemma utf8_item_len:
  "utf8_item b a = Scalar n \<Longrightarrow> 0 < n \<and> n \<le> Suc (length a)"
  "utf8_item b a = Invalid n \<Longrightarrow> 0 < n \<and> n \<le> Suc (length a)"
  using utf8_rest_len [of "utf8_width b" 2] utf8_width_cases [of b]
  by (cases a; fastforce simp: utf8_item_def Let_def split: if_splits)+

section \<open>\<open>from_utf8\<close> and \<open>from_utf8_lossy\<close>\<close>

text \<open>
  \<open>utf8_check\<close> is \<open>std::str::from_utf8\<close>: the decoded valid prefix, its byte length
  (\<open>valid_up_to\<close>) and, on failure, the \<open>error_len\<close>.
\<close>

function utf8_check :: "byte list \<Rightarrow> rstring \<times> nat \<times> nat option option" where
  "utf8_check [] = ([], 0, None)"
| "utf8_check (b # r) =
     (case utf8_item b r of
        Scalar n \<Rightarrow>
          (case utf8_check (drop n (b # r)) of (cs, k, e) \<Rightarrow> (scalar_of (take n (b # r)) # cs, n + k, e))
      | Invalid n \<Rightarrow> ([], 0, Some (Some n))
      | Truncated \<Rightarrow> ([], 0, Some None))"
  by pat_completeness auto
termination
  by (relation "measure length") (auto dest: utf8_item_len)

function utf8_lossy :: "byte list \<Rightarrow> rstring" where
  "utf8_lossy [] = []"
| "utf8_lossy (b # r) =
     (case utf8_item b r of
        Scalar n \<Rightarrow> scalar_of (take n (b # r)) # utf8_lossy (drop n (b # r))
      | Invalid n \<Rightarrow> REPLACEMENT # utf8_lossy (drop n (b # r))
      | Truncated \<Rightarrow> [REPLACEMENT])"
  by pat_completeness auto
termination
  by (relation "measure length") (auto dest: utf8_item_len)

declare utf8_check.simps(2) [simp del] utf8_lossy.simps(2) [simp del]

text \<open>The unfinished sequence at the end of an input; empty when there is none.\<close>

function utf8_tail :: "byte list \<Rightarrow> byte list" where
  "utf8_tail [] = []"
| "utf8_tail (b # r) =
     (case utf8_item b r of
        Scalar n \<Rightarrow> utf8_tail (drop n (b # r))
      | Invalid n \<Rightarrow> utf8_tail (drop n (b # r))
      | Truncated \<Rightarrow> b # r)"
  by pat_completeness auto
termination
  by (relation "measure length") (auto dest: utf8_item_len)

declare utf8_tail.simps(2) [simp del]

text \<open>The scalars decoded before that unfinished sequence.\<close>

function utf8_head :: "byte list \<Rightarrow> rstring" where
  "utf8_head [] = []"
| "utf8_head (b # r) =
     (case utf8_item b r of
        Scalar n \<Rightarrow> scalar_of (take n (b # r)) # utf8_head (drop n (b # r))
      | Invalid n \<Rightarrow> REPLACEMENT # utf8_head (drop n (b # r))
      | Truncated \<Rightarrow> [])"
  by pat_completeness auto
termination
  by (relation "measure length") (auto dest: utf8_item_len)

declare utf8_head.simps(2) [simp del]

lemmas utf8_unfold = utf8_lossy.simps(2) utf8_tail.simps(2) utf8_head.simps(2)

lemma take_drop_Cons_append:
  assumes "n \<le> Suc (length r)"
  shows "take n (x # r @ b) = take n (x # r)" "drop n (x # r @ b) = drop n (x # r) @ b"
  using assms by (cases n; simp)+

text \<open>
  The law every chunked decoder rests on: what has been decoded of \<open>a\<close> stays, and decoding goes
  on from the unfinished sequence of \<open>a\<close>.
\<close>

lemma utf8_lossy_append: "utf8_lossy (a @ b) = utf8_head a @ utf8_lossy (utf8_tail a @ b)"
proof (induction a rule: utf8_head.induct)
  case 1
  then show ?case by simp
next
  case (2 x r)
  show ?case
  proof (cases "utf8_item x r")
    case (Scalar n)
    then have i: "utf8_item x (r @ b) = Scalar n" by (simp add: utf8_item_append)
    from Scalar have "n \<le> Suc (length r)" by (simp add: utf8_item_len)
    note d = take_drop_Cons_append [OF this]
    from i Scalar "2.IH"(1) [OF Scalar] show ?thesis by (simp add: utf8_unfold d)
  next
    case (Invalid n)
    then have i: "utf8_item x (r @ b) = Invalid n" by (simp add: utf8_item_append)
    from Invalid have "n \<le> Suc (length r)" by (simp add: utf8_item_len)
    note d = take_drop_Cons_append [OF this]
    from i Invalid "2.IH"(2) [OF Invalid] show ?thesis by (simp add: utf8_unfold d)
  next
    case Truncated
    then show ?thesis by (simp add: utf8_unfold)
  qed
qed

lemma utf8_head_append: "utf8_head (a @ b) = utf8_head a @ utf8_head (utf8_tail a @ b)"
  and utf8_tail_append: "utf8_tail (a @ b) = utf8_tail (utf8_tail a @ b)"
proof (induction a rule: utf8_head.induct)
  case 1
  {
    case 1
    then show ?case by simp
  next
    case 2
    then show ?case by simp
  }
next
  case (2 x r)
  note IH = "2.IH"
  have both: "utf8_head ((x # r) @ b) = utf8_head (x # r) @ utf8_head (utf8_tail (x # r) @ b)
    \<and> utf8_tail ((x # r) @ b) = utf8_tail (utf8_tail (x # r) @ b)"
  proof (cases "utf8_item x r")
    case (Scalar n)
    then have i: "utf8_item x (r @ b) = Scalar n" by (simp add: utf8_item_append)
    from Scalar have "n \<le> Suc (length r)" by (simp add: utf8_item_len)
    note d = take_drop_Cons_append [OF this]
    from i Scalar IH(1,2) [OF Scalar] show ?thesis by (simp add: utf8_unfold d)
  next
    case (Invalid n)
    then have i: "utf8_item x (r @ b) = Invalid n" by (simp add: utf8_item_append)
    from Invalid have "n \<le> Suc (length r)" by (simp add: utf8_item_len)
    note d = take_drop_Cons_append [OF this]
    from i Invalid IH(3,4) [OF Invalid] show ?thesis by (simp add: utf8_unfold d)
  next
    case Truncated
    then show ?thesis by (simp add: utf8_unfold)
  qed
  {
    case 1
    from both show ?case by simp
  next
    case 2
    from both show ?case by simp
  }
qed

lemma utf8_lossy_split: "utf8_lossy a = utf8_head a @ (if utf8_tail a = [] then [] else [REPLACEMENT])"
proof (induction a rule: utf8_head.induct)
  case (2 x r)
  then show ?case by (cases "utf8_item x r") (simp_all add: utf8_unfold)
qed simp

lemma utf8_tail_truncated:
  "utf8_tail a = [] \<or> (\<exists>b r. utf8_tail a = b # r \<and> utf8_item b r = Truncated)"
proof (induction a rule: utf8_tail.induct)
  case (2 x r)
  then show ?case by (cases "utf8_item x r") (simp_all add: utf8_tail.simps(2))
qed simp

lemma utf8_tail_idem [simp]: "utf8_tail (utf8_tail a) = utf8_tail a"
  and utf8_head_tail [simp]: "utf8_head (utf8_tail a) = []"
  using utf8_tail_truncated [of a] by (auto simp: utf8_tail.simps(2) utf8_head.simps(2))

lemma utf8_tail_suffix: "\<exists>pre. a = pre @ utf8_tail a"
proof (induction a rule: utf8_tail.induct)
  case (2 x r)
  have glue: "\<exists>pre. x # r = pre @ t" if "\<exists>pre. drop n (x # r) = pre @ t" for n t
    using that append_take_drop_id [of n "x # r"] by (metis append_assoc)
  show ?case
  proof (cases "utf8_item x r")
    case (Scalar n)
    with glue [OF "2.IH"(1) [OF Scalar]] show ?thesis by (simp add: utf8_tail.simps(2))
  next
    case (Invalid n)
    with glue [OF "2.IH"(2) [OF Invalid]] show ?thesis by (simp add: utf8_tail.simps(2))
  next
    case Truncated
    then show ?thesis by (simp add: utf8_tail.simps(2))
  qed
qed simp

text \<open>An unfinished sequence is a lead byte followed by too few continuation bytes.\<close>

lemma utf8_rest_truncated:
  "utf8_rest w k a = Truncated \<Longrightarrow> k + length a < w \<and> list_all is_cont a"
proof (induction w k a rule: utf8_rest.induct)
  case (1 w k a)
  from "1.prems" have "\<not> w \<le> k" by (auto simp: utf8_rest.simps [of w k])
  with 1 show ?case
    by (cases a) (auto simp: utf8_rest.simps [of w k] split: if_splits)
qed

lemma ok_second_cont: "ok_second b b1 \<Longrightarrow> is_cont b1"
  by (auto simp: ok_second_def is_cont_def word_le_nat_alt split: if_splits)

lemma utf8_item_truncated:
  assumes t: "utf8_item b a = Truncated"
  shows "Suc (length a) < utf8_width b \<and> list_all is_cont a"
proof (cases a)
  case Nil
  with t show ?thesis by (auto simp: utf8_item_def Let_def split: if_splits)
next
  case (Cons b1 r)
  with t have ok: "ok_second b b1" and "utf8_rest (utf8_width b) 2 r = Truncated"
    by (auto simp: utf8_item_def Let_def split: if_splits)
  from utf8_rest_truncated [OF this(2)] ok_second_cont [OF ok] Cons show ?thesis by simp
qed

lemma utf8_tail_shape:
  assumes "utf8_tail a = b # r"
  shows "Suc (length r) < utf8_width b \<and> list_all is_cont r \<and> (\<exists>pre. a = pre @ b # r)"
proof -
  from assms utf8_tail_truncated [of a] have "utf8_item b r = Truncated" by simp
  from utf8_item_truncated [OF this] utf8_tail_suffix [of a] assms show ?thesis by simp
qed

lemma utf8_complete_append: "utf8_tail a = [] \<Longrightarrow> utf8_lossy (a @ b) = utf8_lossy a @ utf8_lossy b"
  by (simp add: utf8_lossy_append utf8_lossy_split [of a])

text \<open>How \<open>from_utf8\<close>'s answer splits the input.\<close>

lemma utf8_check_cases:
  assumes "utf8_check a = (cs, k, e)"
  shows "k \<le> length a \<and>
    (case e of
       None \<Rightarrow> utf8_head a = cs \<and> utf8_tail a = [] \<and> k = length a
     | Some None \<Rightarrow> utf8_head a = cs \<and> utf8_tail a = drop k a \<and> utf8_tail a \<noteq> []
     | Some (Some n) \<Rightarrow> 0 < n \<and> k + n \<le> length a
         \<and> utf8_head a = cs @ REPLACEMENT # utf8_head (drop (k + n) a)
         \<and> utf8_tail a = utf8_tail (drop (k + n) a))"
  using assms
proof (induction a arbitrary: cs k e rule: utf8_check.induct)
  case 1
  then show ?case by simp
next
  case (2 x r)
  show ?case
  proof (cases "utf8_item x r")
    case (Scalar n)
    obtain cs' k' where rec: "utf8_check (drop n (x # r)) = (cs', k', e)"
      and k: "k = n + k'" and cs: "cs = scalar_of (take n (x # r)) # cs'"
      using "2.prems" Scalar by (auto simp: utf8_check.simps(2) split: prod.splits)
    from Scalar have n: "n \<le> Suc (length r)" by (simp add: utf8_item_len)
    from "2.IH" [OF Scalar rec] n Scalar show ?thesis
      by (auto simp: utf8_unfold k cs ac_simps split: option.splits)
  next
    case (Invalid n)
    with "2.prems" utf8_item_len(2) [OF Invalid] show ?thesis
      by (auto simp: utf8_check.simps(2) utf8_unfold)
  next
    case Truncated
    with "2.prems" show ?thesis by (auto simp: utf8_check.simps(2) utf8_unfold)
  qed
qed

text \<open>A byte string is valid when \<open>from_utf8\<close> accepts it; lossy decoding is then exact.\<close>

definition utf8_valid :: "byte list \<Rightarrow> bool" where
  "utf8_valid bs \<longleftrightarrow> snd (snd (utf8_check bs)) = None"

lemma utf8_valid_lossy:
  assumes "utf8_valid bs"
  shows "utf8_lossy bs = fst (utf8_check bs)"
proof -
  obtain cs k where c: "utf8_check bs = (cs, k, None)"
    using assms by (cases "utf8_check bs") (auto simp: utf8_valid_def)
  from utf8_check_cases [OF c] c show ?thesis by (simp add: utf8_lossy_split)
qed

text \<open>Whether the input contains a sequence that no continuation can repair.\<close>

definition utf8_bad :: "byte list \<Rightarrow> bool" where
  "utf8_bad bs \<longleftrightarrow> (\<exists>n. snd (snd (utf8_check bs)) = Some (Some n))"

lemma utf8_bad_Nil [simp]: "\<not> utf8_bad []"
  by (simp add: utf8_bad_def)

lemma utf8_bad_unfold:
  "utf8_bad (b # r) =
     (case utf8_item b r of Scalar n \<Rightarrow> utf8_bad (drop n (b # r)) | Invalid n \<Rightarrow> True | Truncated \<Rightarrow> False)"
  by (simp add: utf8_bad_def utf8_check.simps(2) split: utf8_item.splits prod.splits)

lemma utf8_bad_append: "utf8_bad (a @ b) \<longleftrightarrow> utf8_bad a \<or> utf8_bad (utf8_tail a @ b)"
proof (induction a rule: utf8_head.induct)
  case (2 x r)
  show ?case
  proof (cases "utf8_item x r")
    case (Scalar n)
    then have i: "utf8_item x (r @ b) = Scalar n" by (simp add: utf8_item_append)
    from Scalar have "n \<le> Suc (length r)" by (simp add: utf8_item_len)
    note d = take_drop_Cons_append [OF this]
    from i Scalar "2.IH"(1) [OF Scalar] show ?thesis by (simp add: utf8_bad_unfold utf8_unfold d)
  next
    case (Invalid n)
    then show ?thesis by (simp add: utf8_bad_unfold utf8_item_append)
  next
    case Truncated
    then show ?thesis by (simp add: utf8_bad_unfold utf8_unfold)
  qed
qed simp

lemma utf8_valid_iff: "utf8_valid a \<longleftrightarrow> \<not> utf8_bad a \<and> utf8_tail a = []"
proof -
  obtain cs k e where c: "utf8_check a = (cs, k, e)" by (cases "utf8_check a")
  from utf8_check_cases [OF c] c show ?thesis
    by (auto simp: utf8_valid_def utf8_bad_def split: option.splits)
qed

section \<open>Encoding to UTF-8\<close>

definition is_scalar :: "nat \<Rightarrow> bool" where
  "is_scalar c \<longleftrightarrow> c < 0xD800 \<or> (0xE000 \<le> c \<and> c < 0x110000)"

definition utf8_encode :: "nat \<Rightarrow> byte list" where
  "utf8_encode c =
     (if c < 0x80 then [word_of_nat c]
      else if c < 0x800 then [word_of_nat (0xC0 + c div 64), word_of_nat (0x80 + c mod 64)]
      else if c < 0x10000 then
        [word_of_nat (0xE0 + c div 4096), word_of_nat (0x80 + c div 64 mod 64),
         word_of_nat (0x80 + c mod 64)]
      else
        [word_of_nat (0xF0 + c div 262144), word_of_nat (0x80 + c div 4096 mod 64),
         word_of_nat (0x80 + c div 64 mod 64), word_of_nat (0x80 + c mod 64)])"

definition utf8_bytes :: "rstring \<Rightarrow> byte list" where
  "utf8_bytes s = concat (map utf8_encode s)"

lemma unat_byte_of_nat: "n < 256 \<Longrightarrow> unat (word_of_nat n :: byte) = n"
  by (simp add: unat_of_nat)

lemmas byte_nat = word_less_nat_alt word_le_nat_alt word_unat_eq_iff

lemma mod_byte:
  "h < 32 \<Longrightarrow> (192 + h) mod 32 = (h::nat)" "h < 16 \<Longrightarrow> (224 + h) mod 16 = h"
  "h < 5 \<Longrightarrow> (240 + h) mod 8 = h" "h < 64 \<Longrightarrow> (128 + h) mod 64 = h"
  using mod_mult_self4 [of 32 6 h] mod_mult_self4 [of 16 14 h] mod_mult_self4 [of 8 30 h]
    mod_mult_self4 [of 64 2 h] by simp_all

lemma utf8_rest_step:
  "utf8_rest w w t = Scalar w"
  "k < w \<Longrightarrow> utf8_rest w k (b # r) = (if is_cont b then utf8_rest w (Suc k) r else Invalid k)"
  by (subst utf8_rest.simps, simp)+

lemma is_cont_nat: "unat b = 0x80 + l \<Longrightarrow> l < 64 \<Longrightarrow> is_cont b"
  by (simp add: is_cont_def byte_nat)

lemma utf8_item_1:
  "unat b < 0x80 \<Longrightarrow> utf8_item b t = Scalar 1 \<and> scalar_of [b] = unat b"
  by (simp add: utf8_item_def utf8_width_def scalar_of_def byte_nat)

lemma utf8_item_2:
  assumes "unat b = 0xC0 + h" "2 \<le> h" "h < 32" "unat b1 = 0x80 + l" "l < 64"
  shows "utf8_item b (b1 # t) = Scalar 2 \<and> scalar_of [b, b1] = h * 64 + l"
proof -
  have "utf8_width b = 2" using assms by (simp add: utf8_width_def byte_nat)
  moreover have "ok_second b b1"
    using assms by (auto simp: ok_second_def is_cont_def byte_nat)
  ultimately show ?thesis
    using assms by (simp add: utf8_item_def utf8_rest_step scalar_of_def byte_nat mod_byte)
qed

lemma utf8_item_3:
  assumes "unat b = 0xE0 + h" "h < 16" "unat b1 = 0x80 + m" "m < 64" "unat b2 = 0x80 + l" "l < 64"
    "h = 0 \<longrightarrow> 32 \<le> m" "h = 13 \<longrightarrow> m < 32"
  shows "utf8_item b (b1 # b2 # t) = Scalar 3 \<and> scalar_of [b, b1, b2] = (h * 64 + m) * 64 + l"
proof -
  have "utf8_width b = 3" using assms by (simp add: utf8_width_def byte_nat)
  moreover have "ok_second b b1"
    using assms by (auto simp: ok_second_def is_cont_def byte_nat)
  ultimately show ?thesis
    using assms is_cont_nat [of b2 l]
    by (simp add: utf8_item_def utf8_rest_step scalar_of_def byte_nat mod_byte)
qed

lemma utf8_item_4:
  assumes "unat b = 0xF0 + h" "h < 5" "unat b1 = 0x80 + m" "m < 64" "unat b2 = 0x80 + l" "l < 64"
    "unat b3 = 0x80 + k" "k < 64" "h = 0 \<longrightarrow> 16 \<le> m" "h = 4 \<longrightarrow> m < 16"
  shows "utf8_item b (b1 # b2 # b3 # t) = Scalar 4
    \<and> scalar_of [b, b1, b2, b3] = ((h * 64 + m) * 64 + l) * 64 + k"
proof -
  have "utf8_width b = 4" using assms by (simp add: utf8_width_def byte_nat)
  moreover have "ok_second b b1"
    using assms by (auto simp: ok_second_def is_cont_def byte_nat)
  ultimately show ?thesis
    using assms is_cont_nat [of b2 l] is_cont_nat [of b3 k]
    by (simp add: utf8_item_def utf8_rest_step scalar_of_def byte_nat mod_byte)
qed

lemma scalar_digits:
  "(c::nat) = (c div 4096 * 64 + c div 64 mod 64) * 64 + c mod 64"
  "(c::nat) = ((c div 262144 * 64 + c div 4096 mod 64) * 64 + c div 64 mod 64) * 64 + c mod 64"
proof -
  have d: "c = c div 64 * 64 + c mod 64" "c div 64 = c div 4096 * 64 + c div 64 mod 64"
      "c div 4096 = c div 262144 * 64 + c div 4096 mod 64"
    using div_mult_mod_eq [of c 64] div_mult_mod_eq [of "c div 64" 64] div_mult_mod_eq [of "c div 4096" 64]
    by (simp_all add: div_mult2_eq [symmetric])
  show "c = (c div 4096 * 64 + c div 64 mod 64) * 64 + c mod 64"
    using d(1,2) by simp
  show "c = ((c div 262144 * 64 + c div 4096 mod 64) * 64 + c div 64 mod 64) * 64 + c mod 64"
    using d by simp
qed

lemma digit_bounds3:
  assumes "(c::nat) = (h * 64 + m) * 64 + l" "l < 64" "m < 64"
  shows "0x800 \<le> c \<Longrightarrow> h = 0 \<Longrightarrow> 32 \<le> m"
    "is_scalar c \<Longrightarrow> h = 13 \<Longrightarrow> m < 32"
  using assms unfolding is_scalar_def by auto

lemma digit_bounds4:
  assumes "(c::nat) = ((h * 64 + m) * 64 + l) * 64 + k" "k < 64" "l < 64" "m < 64"
  shows "0x10000 \<le> c \<Longrightarrow> h = 0 \<Longrightarrow> 16 \<le> m" "c < 0x110000 \<Longrightarrow> h = 4 \<Longrightarrow> m < 16"
  using assms by auto

lemma scalar_ranges:
  fixes c :: nat
  shows "c < 0x10000 \<Longrightarrow> c div 4096 < 16" "c < 0x110000 \<Longrightarrow> c div 262144 < 5"
    "0x800 \<le> c \<Longrightarrow> c div 4096 = 0 \<longrightarrow> 32 \<le> c div 64 mod 64"
    "is_scalar c \<Longrightarrow> c div 4096 = 13 \<longrightarrow> c div 64 mod 64 < 32"
    "0x10000 \<le> c \<Longrightarrow> c div 262144 = 0 \<longrightarrow> 16 \<le> c div 4096 mod 64"
    "c < 0x110000 \<Longrightarrow> c div 262144 = 4 \<longrightarrow> c div 4096 mod 64 < 16"
  using digit_bounds3 [OF scalar_digits(1) [of c]] digit_bounds4 [OF scalar_digits(2) [of c]] by auto

lemma utf8_encode_item:
  assumes "is_scalar c"
  shows "\<exists>b r. utf8_encode c = b # r \<and> utf8_item b (r @ t) = Scalar (Suc (length r))
    \<and> scalar_of (b # r) = c"
proof -
  consider "c < 0x80" | "0x80 \<le> c" "c < 0x800" | "0x800 \<le> c" "c < 0x10000" | "0x10000 \<le> c" "c < 0x110000"
    using assms by (force simp: is_scalar_def)
  then show ?thesis
  proof cases
    case 1
    then show ?thesis
      using utf8_item_1 [of "word_of_nat c" t] by (simp add: utf8_encode_def unat_byte_of_nat)
  next
    case 2
    let ?b = "word_of_nat (0xC0 + c div 64) :: byte" and ?b1 = "word_of_nat (0x80 + c mod 64) :: byte"
    have "2 \<le> c div 64" "c div 64 < 32" using 2 by auto
    moreover have "unat ?b = 0xC0 + c div 64" "unat ?b1 = 0x80 + c mod 64"
      using 2 by (simp_all add: unat_byte_of_nat del: of_nat_add)
    ultimately have "utf8_item ?b (?b1 # t) = Scalar 2 \<and> scalar_of [?b, ?b1] = c div 64 * 64 + c mod 64"
      by (intro utf8_item_2) auto
    with 2 show ?thesis by (simp add: utf8_encode_def del: of_nat_add)
  next
    case 3
    let ?b = "word_of_nat (0xE0 + c div 4096) :: byte" and ?b1 = "word_of_nat (0x80 + c div 64 mod 64) :: byte"
      and ?b2 = "word_of_nat (0x80 + c mod 64) :: byte"
    have "c div 4096 < 16" "c div 4096 = 0 \<longrightarrow> 32 \<le> c div 64 mod 64" "c div 4096 = 13 \<longrightarrow> c div 64 mod 64 < 32"
      using 3 scalar_ranges(1,3,4) [of c] assms by blast+
    moreover have "unat ?b = 0xE0 + c div 4096" "unat ?b1 = 0x80 + c div 64 mod 64" "unat ?b2 = 0x80 + c mod 64"
      using 3 by (simp_all add: unat_byte_of_nat del: of_nat_add)
    ultimately have "utf8_item ?b (?b1 # ?b2 # t) = Scalar 3
        \<and> scalar_of [?b, ?b1, ?b2] = (c div 4096 * 64 + c div 64 mod 64) * 64 + c mod 64"
      by (intro utf8_item_3) auto
    then show ?thesis using 3 scalar_digits(1) [of c] by (simp add: utf8_encode_def del: of_nat_add)
  next
    case 4
    let ?b = "word_of_nat (0xF0 + c div 262144) :: byte" and ?b1 = "word_of_nat (0x80 + c div 4096 mod 64) :: byte"
      and ?b2 = "word_of_nat (0x80 + c div 64 mod 64) :: byte" and ?b3 = "word_of_nat (0x80 + c mod 64) :: byte"
    have "c div 262144 < 5" "c div 262144 = 0 \<longrightarrow> 16 \<le> c div 4096 mod 64"
        "c div 262144 = 4 \<longrightarrow> c div 4096 mod 64 < 16"
      using 4 scalar_ranges(2,5,6) [of c] by blast+
    moreover have "unat ?b = 0xF0 + c div 262144" "unat ?b1 = 0x80 + c div 4096 mod 64"
        "unat ?b2 = 0x80 + c div 64 mod 64" "unat ?b3 = 0x80 + c mod 64"
      using 4 by (simp_all add: unat_byte_of_nat del: of_nat_add)
    ultimately have "utf8_item ?b (?b1 # ?b2 # ?b3 # t) = Scalar 4 \<and> scalar_of [?b, ?b1, ?b2, ?b3]
        = ((c div 262144 * 64 + c div 4096 mod 64) * 64 + c div 64 mod 64) * 64 + c mod 64"
      by (intro utf8_item_4) auto
    then show ?thesis using 4 scalar_digits(2) [of c] by (simp add: utf8_encode_def del: of_nat_add)
  qed
qed

lemma utf8_bytes_simps [simp]:
  "utf8_bytes [] = []" "utf8_bytes (c # s) = utf8_encode c @ utf8_bytes s"
  by (simp_all add: utf8_bytes_def)

text \<open>Decoding what was encoded: \<open>from_utf8\<close> returns the scalars of \<open>utf8_bytes\<close>.\<close>

lemma utf8_check_bytes:
  "list_all is_scalar s \<Longrightarrow> utf8_check (utf8_bytes s) = (s, length (utf8_bytes s), None)"
proof (induction s)
  case (Cons c s)
  then obtain b r where b: "utf8_encode c = b # r" "scalar_of (b # r) = c"
      "utf8_item b (r @ utf8_bytes s) = Scalar (Suc (length r))"
    using utf8_encode_item [of c "utf8_bytes s"] by auto
  with Cons show ?case by (simp add: utf8_check.simps(2))
qed simp

lemma utf8_lossy_bytes: "list_all is_scalar s \<Longrightarrow> utf8_lossy (utf8_bytes s) = s"
  using utf8_valid_lossy [of "utf8_bytes s"] by (simp add: utf8_valid_def utf8_check_bytes)

section \<open>UTF-16\<close>

definition is_lead :: "u16 \<Rightarrow> bool" where
  "is_lead u \<longleftrightarrow> 0xD800 \<le> u \<and> u \<le> 0xDBFF"

definition is_trail :: "u16 \<Rightarrow> bool" where
  "is_trail u \<longleftrightarrow> 0xDC00 \<le> u \<and> u \<le> 0xDFFF"

definition utf16_pair :: "u16 \<Rightarrow> u16 \<Rightarrow> nat" where
  "utf16_pair u v = 0x10000 + (unat u - 0xD800) * 1024 + (unat v - 0xDC00)"

definition utf16_encode :: "nat \<Rightarrow> u16 list" where
  "utf16_encode c =
     (if c < 0x10000 then [word_of_nat c]
      else [word_of_nat (0xD800 + (c - 0x10000) div 1024), word_of_nat (0xDC00 + (c - 0x10000) mod 1024)])"

definition utf16_units :: "rstring \<Rightarrow> u16 list" where
  "utf16_units s = concat (map utf16_encode s)"

text \<open>\<open>String::from_utf16_lossy\<close>: an unpaired surrogate becomes one replacement character.\<close>

fun utf16_lossy :: "u16 list \<Rightarrow> rstring" where
  "utf16_lossy [] = []"
| "utf16_lossy [u] = [if is_lead u \<or> is_trail u then REPLACEMENT else unat u]"
| "utf16_lossy (u # v # r) =
     (if is_lead u \<and> is_trail v then utf16_pair u v # utf16_lossy r
      else (if is_lead u \<or> is_trail u then REPLACEMENT else unat u) # utf16_lossy (v # r))"

text \<open>\<open>String::from_utf16\<close>: \<open>None\<close> is its error, an unpaired surrogate.\<close>

fun utf16_strict :: "u16 list \<Rightarrow> rstring option" where
  "utf16_strict [] = Some []"
| "utf16_strict [u] = (if is_lead u \<or> is_trail u then None else Some [unat u])"
| "utf16_strict (u # v # r) =
     (if is_lead u \<and> is_trail v then map_option ((#) (utf16_pair u v)) (utf16_strict r)
      else if is_lead u \<or> is_trail u then None
      else map_option ((#) (unat u)) (utf16_strict (v # r)))"

lemma is_lead_trail: "is_lead u \<Longrightarrow> \<not> is_trail u"
  by (auto simp: is_lead_def is_trail_def word_le_nat_alt)

lemma utf16_units_simps [simp]:
  "utf16_units [] = []" "utf16_units (c # s) = utf16_encode c @ utf16_units s"
  by (simp_all add: utf16_units_def)

lemma unat_u16_of_nat: "n < 65536 \<Longrightarrow> unat (word_of_nat n :: u16) = n"
  by (simp add: unat_of_nat)

text \<open>A scalar is one unit that is no surrogate, or a lead and a trail that pair up to it.\<close>

lemma utf16_encode_cases:
  assumes "is_scalar c"
  obtains (bmp) u where "utf16_encode c = [u]" "\<not> is_lead u" "\<not> is_trail u" "unat u = c"
    | (pair) u v where "utf16_encode c = [u, v]" "is_lead u" "is_trail v" "utf16_pair u v = c"
proof (cases "c < 0x10000")
  case True
  with assms show thesis
    by (intro bmp [of "word_of_nat c"])
      (auto simp: utf16_encode_def is_scalar_def is_lead_def is_trail_def word_le_nat_alt unat_u16_of_nat)
next
  case False
  let ?d = "c - 0x10000"
  let ?u = "word_of_nat (0xD800 + ?d div 1024) :: u16" and ?v = "word_of_nat (0xDC00 + ?d mod 1024) :: u16"
  have "?d < 0x100000" using assms False by (auto simp: is_scalar_def)
  then have "?d div 1024 < 1024" by auto
  moreover have "?d mod 1024 < 1024" by simp
  ultimately have uv: "unat ?u = 0xD800 + ?d div 1024" "unat ?v = 0xDC00 + ?d mod 1024"
    by (simp_all add: unat_u16_of_nat del: of_nat_add)
  have "?d mod 1024 \<le> 1023" using \<open>?d mod 1024 < 1024\<close> by linarith
  then have "is_lead ?u" "is_trail ?v"
    using \<open>?d div 1024 < 1024\<close> uv
    by (auto simp: is_lead_def is_trail_def word_le_nat_alt simp del: of_nat_add)
  moreover have "utf16_pair ?u ?v = c"
    using False uv by (simp add: utf16_pair_def del: of_nat_add)
  ultimately show thesis
    using False by (intro pair [of ?u ?v]) (simp_all add: utf16_encode_def del: of_nat_add)
qed

lemma utf16_lossy_plain:
  "\<not> is_lead u \<Longrightarrow> utf16_lossy (u # r) = (if is_trail u then REPLACEMENT else unat u) # utf16_lossy r"
  by (cases r) simp_all

lemma utf16_lossy_units: "list_all is_scalar s \<Longrightarrow> utf16_lossy (utf16_units s) = s"
proof (induction s)
  case (Cons c s)
  then have "is_scalar c" by simp
  then show ?case using Cons by (cases rule: utf16_encode_cases) (simp_all add: utf16_lossy_plain)
qed simp

lemma utf16_strict_lossy: "utf16_strict us = Some s \<Longrightarrow> utf16_lossy us = s"
  by (induction us arbitrary: s rule: utf16_strict.induct) (auto split: if_splits)

lemma utf16_strict_units: "list_all is_scalar s \<Longrightarrow> utf16_strict (utf16_units s) = Some s"
proof (induction s)
  case (Cons c s)
  have plain: "\<not> is_lead u \<Longrightarrow> \<not> is_trail u \<Longrightarrow>
      utf16_strict (u # r) = map_option ((#) (unat u)) (utf16_strict r)" for u r
    by (cases r) simp_all
  from Cons have "is_scalar c" by simp
  then show ?case using Cons by (cases rule: utf16_encode_cases) (simp_all add: plain)
qed simp

end
