(* ===== verification/Encoding.thy ===== *)
theory Encoding
  imports Rust_Text
begin

text \<open>
  Model of src/libs/raster_runtime_encoding/src/lib.rs: the \<open>Encoder\<close> enum, its label table, and
  the conversions between bytes and strings. The SIMD hex and base64 crates are a parameter, a
  record of the four functions the code calls on each.
\<close>

section \<open>Third-party codecs\<close>

record codecs =
  hex_encode_to_string :: "byte list \<Rightarrow> rstring"
  hex_encode_type :: "byte list \<Rightarrow> byte list"
  hex_decode_to_vec :: "byte list \<Rightarrow> (string, byte list) res"
  b64_encode_to_string :: "byte list \<Rightarrow> rstring"
  b64_encode_type :: "byte list \<Rightarrow> byte list"
  b64_forgiving_decode_to_vec :: "byte list \<Rightarrow> (string, byte list) res"

section \<open>Encoders and labels\<close>

datatype encoder = Hex | Base64 | Windows1252 | Utf8 | Utf16le | Utf16be
datatype endian = Little | Big

definition ENCODING_MAP :: "(string \<times> encoder) list" where
  "ENCODING_MAP =
    [(''hex'', Hex), (''base64'', Base64),
     (''unicode-1-1-utf-8'', Utf8), (''unicode11utf8'', Utf8), (''unicode20utf8'', Utf8),
     (''utf-8'', Utf8), (''utf8'', Utf8), (''x-unicode20utf8'', Utf8),
     (''csunicode'', Utf16le), (''iso-10646-ucs-2'', Utf16le), (''ucs-2'', Utf16le),
     (''ucs2'', Utf16le), (''unicode'', Utf16le), (''unicodefeff'', Utf16le),
     (''utf-16'', Utf16le), (''utf-16le'', Utf16le), (''utf16le'', Utf16le),
     (''unicodefffe'', Utf16be), (''utf-16be'', Utf16be),
     (''ansi_x3.4-1968'', Windows1252), (''ascii'', Windows1252), (''cp1252'', Windows1252),
     (''cp819'', Windows1252), (''csisolatin1'', Windows1252), (''ibm819'', Windows1252),
     (''iso-8859-1'', Windows1252), (''iso-ir-100'', Windows1252), (''iso8859-1'', Windows1252),
     (''iso88591'', Windows1252), (''iso_8859-1'', Windows1252), (''iso_8859-1:1987'', Windows1252),
     (''l1'', Windows1252), (''latin1'', Windows1252), (''us-ascii'', Windows1252),
     (''windows-1252'', Windows1252), (''x-cp1252'', Windows1252)]"

text \<open>\<open>u8::is_ascii_whitespace\<close>, \<open>trim_ascii\<close> and \<open>to_ascii_lowercase\<close> of the standard library.\<close>

definition ascii_ws :: "char \<Rightarrow> bool" where
  "ascii_ws c \<longleftrightarrow> of_char c \<in> {0x20, 0x09, 0x0A, 0x0C, 0x0D :: nat}"

definition trim_ascii :: "string \<Rightarrow> string" where
  "trim_ascii s = rev (dropWhile ascii_ws (rev (dropWhile ascii_ws s)))"

definition ascii_lower :: "char \<Rightarrow> char" where
  "ascii_lower c =
     (let n = of_char c :: nat in if 65 \<le> n \<and> n \<le> 90 then char_of (n + 32) else c)"

definition from_str :: "string \<Rightarrow> (string, encoder) res" where
  "from_str encoding =
     (case map_of ENCODING_MAP (map ascii_lower (trim_ascii encoding)) of
        Some e \<Rightarrow> Ok e
      | None \<Rightarrow> Err (''The '' @ [CHR 0x22] @ encoding @ [CHR 0x22] @ '' encoding is not supported''))"

definition from_optional_str :: "string option \<Rightarrow> (string, encoder) res" where
  "from_optional_str encoding =
     (case encoding of
        Some label \<Rightarrow> if label \<noteq> [] then from_str label else Ok Utf8
      | None \<Rightarrow> Ok Utf8)"

fun as_label :: "encoder \<Rightarrow> string" where
  "as_label Hex = ''hex''"
| "as_label Base64 = ''base64''"
| "as_label Windows1252 = ''windows-1252''"
| "as_label Utf8 = ''utf-8''"
| "as_label Utf16le = ''utf-16le''"
| "as_label Utf16be = ''utf-16be''"

section \<open>Bytes to strings and back\<close>

fun bytes_to_utf8_string :: "byte list \<Rightarrow> bool \<Rightarrow> (string, rstring) res" where
  "bytes_to_utf8_string bytes lossy =
     (if lossy then Ok (utf8_lossy bytes)
      else case utf8_check bytes of
        (cs, k, None) \<Rightarrow> Ok cs
      | (cs, k, Some e) \<Rightarrow> Err ''invalid utf-8 sequence'')"

definition u16_of :: "endian \<Rightarrow> byte \<Rightarrow> byte \<Rightarrow> u16" where
  "u16_of en b0 b1 =
     (case en of
        Little \<Rightarrow> word_of_nat (unat b0 + 256 * unat b1)
      | Big \<Rightarrow> word_of_nat (256 * unat b0 + unat b1))"

definition u16_bytes :: "endian \<Rightarrow> u16 \<Rightarrow> byte list" where
  "u16_bytes en u =
     (case en of
        Little \<Rightarrow> [word_of_nat (unat u mod 256), word_of_nat (unat u div 256)]
      | Big \<Rightarrow> [word_of_nat (unat u div 256), word_of_nat (unat u mod 256)])"

text \<open>\<open>chunks_exact(2)\<close> drops a trailing odd byte.\<close>

fun chunk_units :: "endian \<Rightarrow> byte list \<Rightarrow> u16 list" where
  "chunk_units en (b0 # b1 # r) = u16_of en b0 b1 # chunk_units en r"
| "chunk_units en bs = []"

definition bytes_to_utf16_string :: "byte list \<Rightarrow> endian \<Rightarrow> bool \<Rightarrow> (string, rstring) res" where
  "bytes_to_utf16_string bytes en lossy =
     (if \<not> lossy \<and> length bytes mod 2 \<noteq> 0 then Err ''Input byte slice length must be even''
      else let data16 = chunk_units en bytes
           in if lossy then Ok (utf16_lossy data16)
              else case utf16_strict data16 of
                Some s \<Rightarrow> Ok s
              | None \<Rightarrow> Err ''invalid utf-16: lone surrogate found'')"

definition bytes_from_hex :: "codecs \<Rightarrow> byte list \<Rightarrow> (string, byte list) res" where
  "bytes_from_hex lib bytes = hex_decode_to_vec lib bytes"

text \<open>The positions of \<open>'-'\<close> (0x2D) and \<open>'_'\<close> (0x5F), as \<open>memchr2_iter\<close> yields them.\<close>

definition url_safe_positions :: "byte list \<Rightarrow> nat list" where
  "url_safe_positions bytes = filter (\<lambda>i. bytes ! i = 0x2D \<or> bytes ! i = 0x5F) [0..<length bytes]"

fun patch_url_safe :: "nat list \<Rightarrow> byte list \<Rightarrow> byte list option" where
  "patch_url_safe [] bytes = Some bytes"
| "patch_url_safe (pos # ps) bytes = do {
     b \<leftarrow> vec_get bytes pos;
     c \<leftarrow> (if b = 0x2D then Some 0x2B else if b = 0x5F then Some 0x2F else None);
     bytes' \<leftarrow> vec_set bytes pos c;
     patch_url_safe ps bytes'
   }"

definition bytes_from_b64 :: "codecs \<Rightarrow> byte list \<Rightarrow> (string, byte list) res" where
  "bytes_from_b64 lib bytes =
     (let ps = url_safe_positions bytes
      in if ps = [] then b64_forgiving_decode_to_vec lib bytes
         else rbind (or_panic (patch_url_safe ps bytes)) (b64_forgiving_decode_to_vec lib))"

fun encode_to_string :: "codecs \<Rightarrow> encoder \<Rightarrow> byte list \<Rightarrow> bool \<Rightarrow> (string, rstring) res" where
  "encode_to_string lib Hex bytes lossy = Ok (hex_encode_to_string lib bytes)"
| "encode_to_string lib Base64 bytes lossy = Ok (b64_encode_to_string lib bytes)"
| "encode_to_string lib Utf8 bytes lossy = bytes_to_utf8_string bytes lossy"
| "encode_to_string lib Windows1252 bytes lossy = bytes_to_utf8_string bytes lossy"
| "encode_to_string lib Utf16le bytes lossy = bytes_to_utf16_string bytes Little lossy"
| "encode_to_string lib Utf16be bytes lossy = bytes_to_utf16_string bytes Big lossy"

fun encode_bytes :: "codecs \<Rightarrow> encoder \<Rightarrow> byte list \<Rightarrow> (string, byte list) res" where
  "encode_bytes lib Hex bytes = Ok (hex_encode_type lib bytes)"
| "encode_bytes lib Base64 bytes = Ok (b64_encode_type lib bytes)"
| "encode_bytes lib e bytes = Ok bytes"

fun decode_bytes_of :: "codecs \<Rightarrow> encoder \<Rightarrow> byte list \<Rightarrow> (string, byte list) res" where
  "decode_bytes_of lib Hex bytes = bytes_from_hex lib bytes"
| "decode_bytes_of lib Base64 bytes = bytes_from_b64 lib bytes"
| "decode_bytes_of lib e bytes = Ok bytes"

fun decode_from_string :: "codecs \<Rightarrow> encoder \<Rightarrow> rstring \<Rightarrow> (string, byte list) res" where
  "decode_from_string lib Hex s = bytes_from_hex lib (utf8_bytes s)"
| "decode_from_string lib Base64 s = bytes_from_b64 lib (utf8_bytes s)"
| "decode_from_string lib Utf8 s = Ok (utf8_bytes s)"
| "decode_from_string lib Windows1252 s = Ok (utf8_bytes s)"
| "decode_from_string lib Utf16le s = Ok (concat (map (u16_bytes Little) (utf16_units s)))"
| "decode_from_string lib Utf16be s = Ok (concat (map (u16_bytes Big) (utf16_units s)))"

section \<open>A concrete instance of the codecs\<close>

text \<open>RFC 4648 hex and base64, the documented behaviour of the two crates; used by the witnesses only.\<close>

definition hex_digit :: "nat \<Rightarrow> nat" where
  "hex_digit n = (if n < 10 then 48 + n else 87 + n)"

definition rfc_hex :: "byte list \<Rightarrow> rstring" where
  "rfc_hex bs = concat (map (\<lambda>b. [hex_digit (unat b div 16), hex_digit (unat b mod 16)]) bs)"

definition hex_value :: "byte \<Rightarrow> nat option" where
  "hex_value b =
     (let n = unat b
      in if 48 \<le> n \<and> n \<le> 57 then Some (n - 48)
         else if 97 \<le> n \<and> n \<le> 102 then Some (n - 87)
         else if 65 \<le> n \<and> n \<le> 70 then Some (n - 55) else None)"

fun rfc_unhex :: "byte list \<Rightarrow> (string, byte list) res" where
  "rfc_unhex [] = Ok []"
| "rfc_unhex [b] = Err ''odd length''"
| "rfc_unhex (a # b # r) =
     (case (hex_value a, hex_value b) of
        (Some x, Some y) \<Rightarrow> rmap ((#) (word_of_nat (16 * x + y))) (rfc_unhex r)
      | _ \<Rightarrow> Err ''invalid digit'')"

definition b64_char :: "nat \<Rightarrow> nat" where
  "b64_char n = (if n < 26 then 65 + n else if n < 52 then 71 + n else if n < 62 then n - 4
     else if n = 62 then 43 else 47)"

fun rfc_b64 :: "byte list \<Rightarrow> rstring" where
  "rfc_b64 [] = []"
| "rfc_b64 [a] = [b64_char (unat a div 4), b64_char (16 * (unat a mod 4)), 61, 61]"
| "rfc_b64 [a, b] =
     [b64_char (unat a div 4), b64_char (16 * (unat a mod 4) + unat b div 16), b64_char (4 * (unat b mod 16)), 61]"
| "rfc_b64 (a # b # c # r) =
     [b64_char (unat a div 4), b64_char (16 * (unat a mod 4) + unat b div 16),
      b64_char (4 * (unat b mod 16) + unat c div 64), b64_char (unat c mod 64)] @ rfc_b64 r"

definition b64_value :: "byte \<Rightarrow> nat option" where
  "b64_value b =
     (let n = unat b
      in if 65 \<le> n \<and> n \<le> 90 then Some (n - 65)
         else if 97 \<le> n \<and> n \<le> 122 then Some (n - 71)
         else if 48 \<le> n \<and> n \<le> 57 then Some (n + 4)
         else if n = 43 then Some 62 else if n = 47 then Some 63 else None)"

fun rfc_unb64_digits :: "nat list \<Rightarrow> (string, byte list) res" where
  "rfc_unb64_digits [] = Ok []"
| "rfc_unb64_digits [p] = Err ''invalid length''"
| "rfc_unb64_digits [p, q] = Ok [word_of_nat (4 * p + q div 16)]"
| "rfc_unb64_digits [p, q, s] = Ok [word_of_nat (4 * p + q div 16), word_of_nat (16 * (q mod 16) + s div 4)]"
| "rfc_unb64_digits (p # q # s # t # r) =
     rmap ((@) [word_of_nat (4 * p + q div 16), word_of_nat (16 * (q mod 16) + s div 4), word_of_nat (64 * (s mod 4) + t)])
       (rfc_unb64_digits r)"

definition rfc_unb64 :: "byte list \<Rightarrow> (string, byte list) res" where
  "rfc_unb64 bs =
     (let body = filter (\<lambda>b. b \<noteq> 61) bs
      in if list_all (\<lambda>b. b64_value b \<noteq> None) body then rfc_unb64_digits (map (the \<circ> b64_value) body)
         else Err ''invalid digit'')"

definition rfc_codecs :: codecs where
  "rfc_codecs =
     \<lparr>hex_encode_to_string = rfc_hex, hex_encode_type = map word_of_nat \<circ> rfc_hex, hex_decode_to_vec = rfc_unhex,
      b64_encode_to_string = rfc_b64, b64_encode_type = map word_of_nat \<circ> rfc_b64,
      b64_forgiving_decode_to_vec = rfc_unb64\<rparr>"

section \<open>Lemmas\<close>

lemma u16_of_bytes [simp]: "u16_bytes en u = [b0, b1] \<Longrightarrow> u16_of en b0 b1 = u"
proof -
  assume b: "u16_bytes en u = [b0, b1]"
  have u: "unat u < 65536" using unsigned_less [of u] by simp
  then have "unat u div 256 < 256" by auto
  then have "unat (word_of_nat (unat u div 256) :: byte) = unat u div 256"
    "unat (word_of_nat (unat u mod 256) :: byte) = unat u mod 256"
    by (simp_all add: unat_byte_of_nat)
  with b show ?thesis
    by (cases en) (auto simp: u16_bytes_def u16_of_def)
qed

lemma u16_bytes_two: "\<exists>b0 b1. u16_bytes en u = [b0, b1]"
  by (cases en) (simp_all add: u16_bytes_def)

lemma chunk_units_bytes: "chunk_units en (concat (map (u16_bytes en) us)) = us"
proof (induction us)
  case (Cons u us)
  obtain b0 b1 where "u16_bytes en u = [b0, b1]" using u16_bytes_two by blast
  with Cons show ?case by simp
qed simp

lemma length_u16_bytes [simp]: "length (u16_bytes en u) = 2"
  by (cases en) (simp_all add: u16_bytes_def)

lemma length_units_bytes: "length (concat (map (u16_bytes en) us)) = 2 * length us"
  by (induction us) simp_all

lemma dropWhile_frame:
  "list_all P a \<Longrightarrow> l \<noteq> [] \<Longrightarrow> \<not> P (hd l) \<Longrightarrow> dropWhile P (a @ l @ b) = l @ b"
  by (induction a) (auto simp: neq_Nil_conv)

lemma trim_ascii_frame:
  assumes "list_all ascii_ws a" "list_all ascii_ws b" "l \<noteq> []" "\<not> ascii_ws (hd l)" "\<not> ascii_ws (last l)"
  shows "trim_ascii (a @ l @ b) = l"
  using assms dropWhile_frame [of ascii_ws a l b] dropWhile_frame [of ascii_ws "rev b" "rev l" "[]"]
  by (simp add: trim_ascii_def hd_rev list_all_iff)

lemma ascii_lower_ws: "ascii_ws (ascii_lower c) = ascii_ws c"
proof -
  have "of_char (char_of (n + 32) :: char) = n + 32" if "n \<le> 90" for n :: nat
    using that by (simp add: of_char_of)
  then show ?thesis by (auto simp: ascii_ws_def ascii_lower_def Let_def)
qed

definition url_to_std :: "byte \<Rightarrow> byte" where
  "url_to_std b = (if b = 0x2D then 0x2B else if b = 0x5F then 0x2F else b)"

lemma patch_url_safe_step:
  "p < length bytes \<Longrightarrow> bytes ! p = 0x2D \<or> bytes ! p = 0x5F \<Longrightarrow>
    patch_url_safe (p # ps) bytes = patch_url_safe ps (bytes[p := url_to_std (bytes ! p)])"
  by (auto simp: url_to_std_def)

lemma patch_url_safe_eq:
  assumes "distinct ps" "\<forall>p\<in>set ps. p < length bytes \<and> (bytes ! p = 0x2D \<or> bytes ! p = 0x5F)"
  shows "\<exists>bytes'. patch_url_safe ps bytes = Some bytes' \<and> length bytes' = length bytes
    \<and> (\<forall>i<length bytes. bytes' ! i = (if i \<in> set ps then url_to_std (bytes ! i) else bytes ! i))"
  using assms
proof (induction ps arbitrary: bytes)
  case Nil
  then show ?case by simp
next
  case (Cons p ps)
  let ?bs = "bytes[p := url_to_std (bytes ! p)]"
  have p: "p < length bytes" "bytes ! p = 0x2D \<or> bytes ! p = 0x5F" using Cons.prems by auto
  have "\<forall>q\<in>set ps. q < length ?bs \<and> (?bs ! q = 0x2D \<or> ?bs ! q = 0x5F)"
    using Cons.prems by (metis distinct.simps(2) length_list_update list.set_intros(2) nth_list_update_neq)
  from Cons.IH [OF _ this] Cons.prems obtain bs' where bs': "patch_url_safe ps ?bs = Some bs'"
      "length bs' = length bytes" "\<forall>i<length bytes. bs' ! i = (if i \<in> set ps then url_to_std (?bs ! i) else ?bs ! i)"
    by auto
  moreover have "bs' ! i = (if i \<in> set (p # ps) then url_to_std (bytes ! i) else bytes ! i)"
    if "i < length bytes" for i
    using bs'(3) that Cons.prems(1) by (cases "i = p") auto
  ultimately show ?case using patch_url_safe_step [OF p] by auto
qed

lemma url_safe_patched:
  "patch_url_safe (url_safe_positions bytes) bytes = Some (map url_to_std bytes)"
proof -
  have "distinct (url_safe_positions bytes)" "set (url_safe_positions bytes) =
      {p. p < length bytes \<and> (bytes ! p = 0x2D \<or> bytes ! p = 0x5F)}"
    by (auto simp: url_safe_positions_def)
  with patch_url_safe_eq [of "url_safe_positions bytes" bytes] obtain bs' where
    bs': "patch_url_safe (url_safe_positions bytes) bytes = Some bs'" "length bs' = length bytes"
      "\<forall>i<length bytes. bs' ! i = (if bytes ! i = 0x2D \<or> bytes ! i = 0x5F
          then url_to_std (bytes ! i) else bytes ! i)"
    by auto
  have "bs' = map url_to_std bytes"
    by (rule nth_equalityI) (use bs' in \<open>auto simp: url_to_std_def\<close>)
  with bs' show ?thesis by simp
qed

section \<open>Properties\<close>

text \<open>Every encoder is found again from its own label, in any letter case and with any ASCII
  white space around it.\<close>

theorem from_str_as_label:
  assumes "map ascii_lower l = as_label e" "list_all ascii_ws a" "list_all ascii_ws b"
  shows "from_str (a @ l @ b) = Ok e"
proof -
  have label: "as_label e \<noteq> []" "\<not> ascii_ws (hd (as_label e))" "\<not> ascii_ws (last (as_label e))"
    by (cases e; simp add: ascii_ws_def)+
  have l: "l \<noteq> []" using assms(1) label(1) by auto
  have "hd (as_label e) = ascii_lower (hd l)" "last (as_label e) = ascii_lower (last l)"
    using assms(1) l by (metis list.map_sel(1), metis last_map)
  with label l have "\<not> ascii_ws (hd l)" "\<not> ascii_ws (last l)" by (simp_all add: ascii_lower_ws)
  with l assms have "map ascii_lower (trim_ascii (a @ l @ b)) = as_label e"
    by (simp add: trim_ascii_frame)
  then show ?thesis by (cases e) (simp_all add: from_str_def ENCODING_MAP_def)
qed

theorem from_str_as_label_witness: "from_str '' UTF-16LE '' = Ok Utf16le"
proof -
  have "map ascii_lower ''UTF-16LE'' = as_label Utf16le" by code_simp
  from from_str_as_label [OF this, of "'' ''" "'' ''"] show ?thesis by (simp add: ascii_ws_def)
qed

lemma text_roundtrip:
  assumes "list_all is_scalar s" "e \<in> {Utf8, Windows1252, Utf16le, Utf16be}"
  obtains bs where "decode_from_string lib e s = Ok bs" "encode_to_string lib e bs lossy = Ok s"
  using assms
  by (cases e) (auto simp: utf8_lossy_bytes utf8_check_bytes bytes_to_utf16_string_def length_units_bytes
      chunk_units_bytes utf16_lossy_units utf16_strict_units Let_def)

text \<open>Turning a string into bytes and back is the identity for every text encoder, both in
  lossy and in strict mode.\<close>

theorem string_bytes_roundtrip:
  assumes "list_all is_scalar s" "e \<in> {Utf8, Windows1252, Utf16le, Utf16be}"
  shows "\<exists>bs. decode_from_string lib e s = Ok bs \<and> encode_to_string lib e bs lossy = Ok s"
  using text_roundtrip [OF assms, of lib lossy] by blast

theorem string_bytes_roundtrip_witness:
  "\<exists>bs. decode_from_string rfc_codecs Utf16be [0x61, 0x1F4D8] = Ok bs
     \<and> encode_to_string rfc_codecs Utf16be bs False = Ok [0x61, 0x1F4D8]"
  using string_bytes_roundtrip [of "[0x61, 0x1F4D8]" Utf16be rfc_codecs] by (simp add: is_scalar_def)

text \<open>\<open>bytes_from_b64\<close> never panics: it hands the decoder the input with each \<open>'-'\<close> replaced
  by \<open>'+'\<close> and each \<open>'_'\<close> by \<open>'/'\<close>, whether or not there is anything to replace.\<close>

theorem bytes_from_b64_url_safe:
  "bytes_from_b64 lib bytes = b64_forgiving_decode_to_vec lib (map url_to_std bytes)"
proof (cases "url_safe_positions bytes = []")
  case True
  with url_safe_patched [of bytes] have "bytes = map url_to_std bytes" by simp
  with True show ?thesis by (simp add: bytes_from_b64_def)
next
  case False
  then show ?thesis by (simp add: bytes_from_b64_def Let_def url_safe_patched)
qed

end
