(* ===== verification/Incremental_Decoder.thy ===== *)
theory Incremental_Decoder
  imports Encoding
begin

text \<open>
  Model of src/libs/raster_runtime_encoding/src/incremental.rs, the streaming decoder behind
  \<open>TextDecoder\<close>, and the contract of a decoder that is fed a byte stream chunk by chunk.
\<close>

section \<open>State\<close>

record incremental_decoder =
  pending :: "byte list"
  bom_resolved :: bool
  pending_bom :: "byte list option"
  utf16_odd_byte :: "byte option"
  utf16_lead_surrogate :: "u16 option"

definition reset :: "incremental_decoder \<Rightarrow> incremental_decoder" where
  "reset d = d\<lparr>pending := [], bom_resolved := False, pending_bom := None,
                utf16_odd_byte := None, utf16_lead_surrogate := None\<rparr>"

definition new_decoder :: incremental_decoder where
  "new_decoder = \<lparr>pending = [], bom_resolved = False, pending_bom = None,
                   utf16_odd_byte = None, utf16_lead_surrogate = None\<rparr>"

section \<open>Byte order marks\<close>

fun bom_prefix :: "encoder \<Rightarrow> byte list" where
  "bom_prefix Utf8 = [0xEF, 0xBB, 0xBF]"
| "bom_prefix Utf16le = [0xFF, 0xFE]"
| "bom_prefix Utf16be = [0xFE, 0xFF]"
| "bom_prefix e = []"

definition starts_with :: "'a list \<Rightarrow> 'a list \<Rightarrow> bool" where
  "starts_with xs prefix \<longleftrightarrow> take (length prefix) xs = prefix"

text \<open>The result is the bytes to decode, then the new \<open>bom_resolved\<close> and \<open>pending_bom\<close>.\<close>

definition process_bom ::
    "encoder \<Rightarrow> byte list \<Rightarrow> bool \<Rightarrow> bool \<Rightarrow> bool \<Rightarrow> byte list option
      \<Rightarrow> byte list \<times> bool \<times> byte list option" where
  "process_bom e bytes stream bom_finalize resolved pend =
     (let prefix = bom_prefix e
      in if prefix = [] then (bytes, True, pend)
         else
           let data = (case pend of Some p \<Rightarrow> p @ bytes | None \<Rightarrow> bytes);
               shared = length (takeWhile (\<lambda>(l, r). l = r) (zip data prefix))
           in if starts_with data prefix then (drop (length prefix) data, True, None)
              else if stream \<and> \<not> bom_finalize \<and> shared = length data \<and> shared < length prefix
                then ([], resolved, Some data)
              else (data, True, None))"

section \<open>UTF-8\<close>

text \<open>The loop over \<open>pos\<close>: the argument is the rest of the input, \<open>output\<close> and \<open>pending\<close> accumulate.\<close>

function utf8_loop :: "bool \<Rightarrow> byte list \<Rightarrow> rstring \<Rightarrow> byte list \<Rightarrow> (string, rstring) res \<times> byte list" where
  "utf8_loop lossy pend output bytes =
     (if bytes = [] then (Ok output, pend)
      else case utf8_check bytes of (valid, valid_up_to, err) \<Rightarrow>
        (case err of
           None \<Rightarrow> (Ok (output @ valid), pend)
         | Some (Some invalid_len) \<Rightarrow>
             if \<not> lossy then (Err ''invalid utf-8 sequence'', pend)
             else utf8_loop lossy pend (output @ valid @ [REPLACEMENT]) (drop (valid_up_to + invalid_len) bytes)
         | Some None \<Rightarrow> (Ok (output @ valid), pend @ drop valid_up_to bytes)))"
  by pat_completeness auto
termination
proof (relation "measure (\<lambda>(l, p, out, bs). length bs)", goal_cases)
  case (2 lossy pend out bytes valid y valid_up_to err e invalid_len)
  then show ?case using utf8_check_cases [of bytes valid valid_up_to "Some (Some invalid_len)"] by auto
qed simp

declare utf8_loop.simps [simp del]

definition decode_utf8_like ::
    "byte list \<Rightarrow> bool \<Rightarrow> bool \<Rightarrow> byte list \<Rightarrow> (string, rstring) res \<times> byte list" where
  "decode_utf8_like bytes lossy stream pend =
     (if \<not> stream then (bytes_to_utf8_string bytes lossy, pend) else utf8_loop lossy pend [] bytes)"

section \<open>UTF-16\<close>

text \<open>
  One round of the \<open>while\<close> loop on the rest of the input: go on with code units emitted, leave the
  loop with the odd byte and the lead surrogate to keep, or fail (the lead surrogate that is left
  in the state is recorded).
\<close>

datatype utf16_ctl =
    Next "u16 list" "u16 option" "byte list"
  | Stop "u16 list" "byte option" "u16 option"
  | Fail string "u16 option"

abbreviation REPLACEMENT16 :: u16 where
  "REPLACEMENT16 \<equiv> 0xFFFD"

definition utf16_emit :: "bool \<Rightarrow> u16 list \<Rightarrow> u16 \<Rightarrow> byte list \<Rightarrow> utf16_ctl" where
  "utf16_emit lossy out unit rest =
     (if is_trail unit
      then if \<not> lossy then Fail ''Invalid UTF-16 sequence'' None
           else Next (out @ [REPLACEMENT16]) None rest
      else Next (out @ [unit]) None rest)"

definition utf16_body :: "endian \<Rightarrow> bool \<Rightarrow> bool \<Rightarrow> u16 list \<Rightarrow> u16 \<Rightarrow> byte list \<Rightarrow> utf16_ctl" where
  "utf16_body en lossy stream out unit rest =
     (if is_lead unit then
        (case rest of
           n0 # n1 # rest' \<Rightarrow>
             let next = u16_of en n0 n1
             in if is_trail next then Next (out @ [unit, next]) None rest'
                else if \<not> lossy then Fail ''Invalid UTF-16 sequence'' None
                else utf16_emit lossy (out @ [REPLACEMENT16]) next rest'
         | [x] \<Rightarrow>
             if stream then Stop out (Some x) (Some unit)
             else if \<not> lossy then Fail ''Invalid UTF-16 sequence'' None
             else utf16_emit lossy (out @ [REPLACEMENT16]) unit rest
         | [] \<Rightarrow>
             if stream then Stop out None (Some unit)
             else if \<not> lossy then Fail ''Invalid UTF-16 sequence'' None
             else Next (out @ [REPLACEMENT16]) None [])
      else utf16_emit lossy out unit rest)"

definition utf16_step :: "endian \<Rightarrow> bool \<Rightarrow> bool \<Rightarrow> u16 option \<Rightarrow> byte list \<Rightarrow> utf16_ctl" where
  "utf16_step en lossy stream lead input =
     (case input of
        [] \<Rightarrow> Stop [] None lead
      | [b] \<Rightarrow>
          if stream then Stop [] (Some b) lead
          else if lossy then Stop [REPLACEMENT16] None lead
          else Fail ''Incomplete UTF-16 sequence'' lead
      | b0 # b1 # rest \<Rightarrow>
          let unit = u16_of en b0 b1
          in case lead of
               Some l \<Rightarrow>
                 if is_trail unit then Next [l, unit] None rest
                 else if \<not> lossy then Fail ''Invalid UTF-16 sequence'' None
                 else utf16_body en lossy stream [REPLACEMENT16] unit rest
             | None \<Rightarrow> utf16_body en lossy stream [] unit rest)"

lemma utf16_body_shrinks: "utf16_body en lossy stream out unit rest = Next us l rest' \<Longrightarrow> length rest' \<le> length rest"
  by (auto simp: utf16_body_def utf16_emit_def Let_def split: if_splits list.splits)

lemma utf16_step_shrinks: "utf16_step en lossy stream lead input = Next us l rest \<Longrightarrow> length rest < length input"
  by (auto simp: utf16_step_def Let_def dest!: utf16_body_shrinks split: if_splits list.splits option.splits)

function utf16_loop ::
    "endian \<Rightarrow> bool \<Rightarrow> bool \<Rightarrow> u16 option \<Rightarrow> u16 list \<Rightarrow> byte list
      \<Rightarrow> (string, u16 list) res \<times> byte option \<times> u16 option" where
  "utf16_loop en lossy stream lead units input =
     (case utf16_step en lossy stream lead input of
        Next us lead' rest \<Rightarrow> utf16_loop en lossy stream lead' (units @ us) rest
      | Stop us odd' lead' \<Rightarrow> (Ok (units @ us), odd', lead')
      | Fail msg lead' \<Rightarrow> (Err msg, None, lead'))"
  by pat_completeness auto
termination
  by (relation "measure (\<lambda>(en, lossy, stream, lead, units, input). length input)")
    (auto dest: utf16_step_shrinks)

declare utf16_loop.simps [simp del]

definition decode_utf16_stream ::
    "byte list \<Rightarrow> endian \<Rightarrow> bool \<Rightarrow> bool \<Rightarrow> byte option \<Rightarrow> u16 option
      \<Rightarrow> (string, rstring) res \<times> byte option \<times> u16 option" where
  "decode_utf16_stream bytes en lossy stream odd_byte lead =
     (let input = (case odd_byte of Some b \<Rightarrow> [b] | None \<Rightarrow> []) @ bytes
      in case utf16_loop en lossy stream lead [] input of (r, odd', lead') \<Rightarrow>
        (rbind r (\<lambda>units.
           if lossy then Ok (utf16_lossy units)
           else case utf16_strict units of
             Some s \<Rightarrow> Ok s
           | None \<Rightarrow> Err ''invalid utf-16: lone surrogate found''), odd', lead'))"

section \<open>The decoder's methods\<close>

text \<open>The \<open>match encoder\<close> at the end of \<open>decode_bytes\<close>, on the bytes behind the byte order mark.\<close>

definition decode_payload ::
    "codecs \<Rightarrow> encoder \<Rightarrow> byte list \<Rightarrow> bool \<Rightarrow> bool \<Rightarrow> incremental_decoder
      \<Rightarrow> (string, rstring) res \<times> incremental_decoder" where
  "decode_payload lib e bytes lossy stream d =
     (let utf8 = (case decode_utf8_like bytes lossy stream (pending d) of (r, p) \<Rightarrow> (r, d\<lparr>pending := p\<rparr>));
          utf16 = (\<lambda>en. case decode_utf16_stream bytes en lossy stream (utf16_odd_byte d) (utf16_lead_surrogate d) of
                     (r, odd', lead) \<Rightarrow> (r, d\<lparr>utf16_odd_byte := odd', utf16_lead_surrogate := lead\<rparr>));
          binary = (if stream then (Ok [], d\<lparr>pending := bytes\<rparr>) else (encode_to_string lib e bytes lossy, d))
      in case e of
           Utf8 \<Rightarrow> utf8
         | Windows1252 \<Rightarrow> utf8
         | Utf16le \<Rightarrow> utf16 Little
         | Utf16be \<Rightarrow> utf16 Big
         | Hex \<Rightarrow> binary
         | Base64 \<Rightarrow> binary)"

definition decode_bytes ::
    "codecs \<Rightarrow> encoder \<Rightarrow> byte list \<Rightarrow> bool \<Rightarrow> bool \<Rightarrow> bool \<Rightarrow> bool \<Rightarrow> incremental_decoder
      \<Rightarrow> (string, rstring) res \<times> incremental_decoder" where
  "decode_bytes lib e input lossy stream ignore_bom bom_finalize d =
     (let combined = pending d @ input;
          (bytes, resolved, pend_bom) =
            (if bom_resolved d \<or> ignore_bom then (combined, bom_resolved d, pending_bom d)
             else process_bom e combined stream bom_finalize (bom_resolved d) (pending_bom d))
      in decode_payload lib e bytes lossy stream
           (d\<lparr>pending := [], bom_resolved := resolved, pending_bom := pend_bom\<rparr>))"

definition decode_chunk ::
    "codecs \<Rightarrow> encoder \<Rightarrow> byte list \<Rightarrow> bool \<Rightarrow> bool \<Rightarrow> bool \<Rightarrow> incremental_decoder
      \<Rightarrow> (string, rstring) res \<times> incremental_decoder" where
  "decode_chunk lib e input lossy stream ignore_bom d =
     (case decode_bytes lib e input lossy stream ignore_bom False d of
        (Ok out, d') \<Rightarrow> (Ok out, if stream then d' else reset d')
      | (r, d') \<Rightarrow> (r, d'))"

text \<open>The end of \<open>flush\<close>: what to do with the bytes that are still held back.\<close>

definition flush_held ::
    "codecs \<Rightarrow> encoder \<Rightarrow> bool \<Rightarrow> rstring \<Rightarrow> incremental_decoder \<Rightarrow> (string, rstring) res \<times> incremental_decoder" where
  "flush_held lib e lossy output d =
     (if e \<in> {Utf8, Windows1252} then
        (if pending d \<noteq> [] then
           if lossy then (Ok (output @ [REPLACEMENT]), d\<lparr>pending := []\<rparr>)
           else (Err ''Incomplete UTF-8 sequence'', d)
         else (Ok output, d))
      else if e \<in> {Utf16le, Utf16be} then
        (if utf16_lead_surrogate d \<noteq> None \<and> utf16_odd_byte d \<noteq> None then
           if lossy then (Ok (output @ [REPLACEMENT]), d\<lparr>utf16_lead_surrogate := None, utf16_odd_byte := None\<rparr>)
           else (Err ''Incomplete UTF-16 sequence'', d)
         else if utf16_odd_byte d \<noteq> None \<or> utf16_lead_surrogate d \<noteq> None then
           if lossy then (Ok (output @ [REPLACEMENT]), d\<lparr>utf16_odd_byte := None, utf16_lead_surrogate := None\<rparr>)
           else (Err ''Incomplete UTF-16 sequence'', d)
         else (Ok output, d))
      else
        (if pending d \<noteq> [] then
           (case encode_to_string lib e (pending d) lossy of
              Ok s \<Rightarrow> (Ok (output @ s), d\<lparr>pending := []\<rparr>)
            | r \<Rightarrow> (r, d))
         else (Ok output, d)))"

definition flush ::
    "codecs \<Rightarrow> encoder \<Rightarrow> bool \<Rightarrow> bool \<Rightarrow> incremental_decoder \<Rightarrow> (string, rstring) res \<times> incremental_decoder" where
  "flush lib e lossy ignore_bom d =
     (case (if \<not> ignore_bom \<and> \<not> bom_resolved d then
              (case pending_bom d of
                 Some p \<Rightarrow> decode_bytes lib e p lossy False True True (d\<lparr>pending_bom := None, bom_resolved := True\<rparr>)
               | None \<Rightarrow> (Ok [], d))
            else (Ok [], d)) of
        (Ok out1, d1) \<Rightarrow>
          (case decode_bytes lib e [] lossy True ignore_bom True d1 of
             (Ok out2, d2) \<Rightarrow>
               (case flush_held lib e lossy (out1 @ out2) d2 of
                  (Ok out3, d3) \<Rightarrow> (Ok out3, reset d3)
                | (r, d3) \<Rightarrow> (r, d3))
           | (r, d2) \<Rightarrow> (r, d2))
      | (r, d1) \<Rightarrow> (r, d1))"

section \<open>The contract of a chunked decoder\<close>

text \<open>Feeding the chunks of a stream one by one and finishing, with the outputs concatenated.\<close>

fun decode_all ::
    "(byte list \<Rightarrow> 's \<Rightarrow> ('e, 'o list) res \<times> 's) \<Rightarrow> ('s \<Rightarrow> ('e, 'o list) res \<times> 's) \<Rightarrow> byte list list \<Rightarrow> 's
      \<Rightarrow> ('e, 'o list) res \<times> 's" where
  "decode_all feed fin [] s = fin s"
| "decode_all feed fin (c # cs) s =
     (case feed c s of
        (Ok out, s') \<Rightarrow> (case decode_all feed fin cs s' of (r, s'') \<Rightarrow> (rmap ((@) out) r, s''))
      | (r, s') \<Rightarrow> (r, s'))"

text \<open>
  A chunked decoder promises that its answer depends on the concatenation only: \<open>whole\<close> is the
  answer for the whole input (\<open>None\<close> for an error), \<open>rep a out s\<close> says that \<open>s\<close> is a state in
  which \<open>a\<close> has been consumed and \<open>out\<close> emitted.
\<close>

definition answers :: "('e, 'o) res \<Rightarrow> 'o option \<Rightarrow> bool" where
  "answers r w = (case r of Ok x \<Rightarrow> w = Some x | Err e \<Rightarrow> w = None | Panic \<Rightarrow> False)"

lemma answers_simps [simp]:
  "answers (Ok x) w \<longleftrightarrow> w = Some x" "answers (Err e) w \<longleftrightarrow> w = None" "\<not> answers Panic w"
  by (auto simp: answers_def)

locale chunked_decoder =
  fixes feed :: "byte list \<Rightarrow> 's \<Rightarrow> ('e, 'o list) res \<times> 's"
    and fin :: "'s \<Rightarrow> ('e, 'o list) res \<times> 's"
    and whole :: "byte list \<Rightarrow> 'o list option"
    and rep :: "byte list \<Rightarrow> 'o list \<Rightarrow> 's \<Rightarrow> bool"
  assumes feed_Ok: "rep a out s \<Longrightarrow> feed c s = (Ok x, s') \<Longrightarrow> rep (a @ c) (out @ x) s'"
    and feed_Err: "rep a out s \<Longrightarrow> feed c s = (Err e, s') \<Longrightarrow> whole (a @ c @ b) = None"
    and feed_safe: "rep a out s \<Longrightarrow> fst (feed c s) \<noteq> Panic"
    and fin: "rep a out s \<Longrightarrow> answers (rmap ((@) out) (fst (fin s))) (whole a)"
begin

lemma decode_all_from:
  "rep a out s \<Longrightarrow> answers (rmap ((@) out) (fst (decode_all feed fin cs s))) (whole (a @ concat cs))"
proof (induction cs arbitrary: a out s)
  case Nil
  then show ?case by (simp add: fin)
next
  case (Cons c cs)
  obtain r s' where f: "feed c s = (r, s')" by (cases "feed c s")
  show ?case
  proof (cases r)
    case (Ok x)
    obtain r' s'' where d: "decode_all feed fin cs s' = (r', s'')" by (cases "decode_all feed fin cs s'")
    from Cons.IH [OF feed_Ok [OF Cons.prems f [unfolded Ok]]] d show ?thesis
      by (cases r') (simp_all add: f Ok)
  next
    case (Err e)
    with f feed_Err [OF Cons.prems, of c e s' "concat cs"] show ?thesis by simp
  next
    case Panic
    with f feed_safe [OF Cons.prems, of c] show ?thesis by simp
  qed
qed

lemma decode_all_whole:
  assumes "rep [] [] s"
  shows "answers (fst (decode_all feed fin cs s)) (whole (concat cs))"
proof -
  have "rmap ((@) []) r = r" for r :: "('e, 'o list) res" by (cases r) simp_all
  with decode_all_from [OF assms, of cs] show ?thesis by simp
qed

end

section \<open>Byte order marks, for every encoding\<close>

definition strip_bom :: "encoder \<Rightarrow> byte list \<Rightarrow> byte list" where
  "strip_bom e a = (if starts_with a (bom_prefix e) then drop (length (bom_prefix e)) a else a)"

text \<open>The input so far could still grow into the byte order mark.\<close>

definition bom_open :: "encoder \<Rightarrow> byte list \<Rightarrow> bool" where
  "bom_open e a \<longleftrightarrow> length a < length (bom_prefix e) \<and> take (length a) (bom_prefix e) = a"

lemma shared_all: "length (takeWhile (\<lambda>(l, r). l = r) (zip xs ys)) = length xs \<longleftrightarrow> take (length xs) ys = xs"
proof (induction xs arbitrary: ys)
  case (Cons x xs)
  then show ?case by (cases ys) auto
qed simp

lemma bom_open_strip: "bom_open e a \<Longrightarrow> strip_bom e a = a"
  by (auto simp: bom_open_def strip_bom_def starts_with_def)

lemma bom_open_prefix: "bom_open e (a @ c) \<Longrightarrow> bom_open e a"
proof -
  assume o: "bom_open e (a @ c)"
  then have "take (length (a @ c)) (bom_prefix e) = a @ c" by (simp add: bom_open_def)
  from arg_cong [OF this, of "take (length a)"] o show ?thesis by (simp add: bom_open_def)
qed

lemma strip_bom_append:
  assumes "\<not> bom_open e a" "bom_prefix e \<noteq> []"
  shows "strip_bom e (a @ c) = strip_bom e a @ c"
proof (cases "starts_with a (bom_prefix e)")
  case True
  then show ?thesis by (auto simp: strip_bom_def starts_with_def)
next
  case False
  have "\<not> starts_with (a @ c) (bom_prefix e)"
  proof
    assume s: "starts_with (a @ c) (bom_prefix e)"
    with False have "length a < length (bom_prefix e)"
      by (cases "length a < length (bom_prefix e)") (auto simp: starts_with_def)
    moreover from s have "take (length (bom_prefix e)) (a @ c) = bom_prefix e" by (simp add: starts_with_def)
    from arg_cong [OF this, of "take (length a)"] \<open>length a < length (bom_prefix e)\<close>
    have "take (length a) (bom_prefix e) = a" by (simp add: min_def split: if_splits)
    ultimately show False using assms(1) by (simp add: bom_open_def)
  qed
  with False show ?thesis by (simp add: strip_bom_def)
qed

lemma process_bom_stream:
  assumes "bom_prefix e \<noteq> []"
  shows "process_bom e bytes True False resolved pend =
    (let data = (case pend of Some p \<Rightarrow> p @ bytes | None \<Rightarrow> bytes)
     in if bom_open e data then ([], resolved, Some data) else (strip_bom e data, True, None))"
proof -
  have "length (takeWhile (\<lambda>(l, r). l = r) (zip data (bom_prefix e))) = length data
      \<and> length (takeWhile (\<lambda>(l, r). l = r) (zip data (bom_prefix e))) < length (bom_prefix e)
      \<longleftrightarrow> bom_open e data" for data
    using shared_all [of data "bom_prefix e"] by (auto simp: bom_open_def)
  moreover have "starts_with data (bom_prefix e) \<Longrightarrow> \<not> bom_open e data" for data
    by (auto simp: bom_open_def starts_with_def)
  ultimately show ?thesis
    using assms by (simp add: process_bom_def strip_bom_def Let_def split: option.split)
qed

lemma process_bom_final:
  assumes "bom_prefix e \<noteq> []"
  shows "process_bom e bytes stream True resolved pend =
    (strip_bom e (case pend of Some p \<Rightarrow> p @ bytes | None \<Rightarrow> bytes), True, None)"
    "process_bom e bytes False fin resolved pend =
    (strip_bom e (case pend of Some p \<Rightarrow> p @ bytes | None \<Rightarrow> bytes), True, None)"
  using assms by (simp_all add: process_bom_def strip_bom_def Let_def)

text \<open>
  What an encoding's own decoding (\<open>decode_payload\<close> and \<open>flush_held\<close>) promises; the handling of
  the byte order mark is added on top of it once for all encodings.
\<close>

definition fresh :: "incremental_decoder \<Rightarrow> bool" where
  "fresh d \<longleftrightarrow> pending d = [] \<and> utf16_odd_byte d = None \<and> utf16_lead_surrogate d = None"

locale payload_decoder =
  fixes lib :: codecs and e :: encoder and lossy :: bool
    and payload :: "byte list \<Rightarrow> rstring option"
    and rep0 :: "byte list \<Rightarrow> rstring \<Rightarrow> incremental_decoder \<Rightarrow> bool"
  assumes rep_fresh: "rep0 [] [] d \<longleftrightarrow> fresh d"
    and payload_empty: "payload [] = Some []"
    and rep_bom: "rep0 a out (d\<lparr>bom_resolved := x, pending_bom := y\<rparr>) = rep0 a out d"
    and stream_Ok: "rep0 a out d \<Longrightarrow>
          decode_payload lib e (pending d @ c) lossy True (d\<lparr>pending := []\<rparr>) = (Ok z, d') \<Longrightarrow>
          rep0 (a @ c) (out @ z) d' \<and> bom_resolved d' = bom_resolved d \<and> pending_bom d' = pending_bom d"
    and stream_Err: "rep0 a out d \<Longrightarrow>
          decode_payload lib e (pending d @ c) lossy True (d\<lparr>pending := []\<rparr>) = (Err m, d') \<Longrightarrow>
          payload (a @ c @ b) = None"
    and stream_safe: "rep0 a out d \<Longrightarrow>
          fst (decode_payload lib e (pending d @ c) lossy True (d\<lparr>pending := []\<rparr>)) \<noteq> Panic"
    and oneshot: "fresh d \<Longrightarrow> answers (fst (decode_payload lib e c lossy False d)) (payload c)"
    and oneshot_fresh: "fresh d \<Longrightarrow> decode_payload lib e c lossy False d = (Ok z, d') \<Longrightarrow>
          fresh d' \<and> bom_resolved d' = bom_resolved d"
    and held: "rep0 a out d \<Longrightarrow>
          (case fst (flush_held lib e lossy z d) of
             Ok w \<Rightarrow> (\<exists>x. w = z @ x \<and> payload a = Some (out @ x))
           | Err m \<Rightarrow> payload a = None
           | Panic \<Rightarrow> False)"

text \<open>The state behind a consumed input, with the byte order mark taken into account.\<close>

definition bom_rep ::
    "encoder \<Rightarrow> (byte list \<Rightarrow> rstring \<Rightarrow> incremental_decoder \<Rightarrow> bool) \<Rightarrow> bool
      \<Rightarrow> byte list \<Rightarrow> rstring \<Rightarrow> incremental_decoder \<Rightarrow> bool" where
  "bom_rep e rep0 ignore_bom a out d =
     (if ignore_bom then rep0 a out d
      else if bom_prefix e = [] then rep0 a out d \<and> pending_bom d = None
      else if bom_open e a then
        out = [] \<and> fresh d \<and> \<not> bom_resolved d \<and> (pending_bom d = Some a \<or> a = [] \<and> pending_bom d = None)
      else bom_resolved d \<and> rep0 (strip_bom e a) out d)"

definition bom_whole :: "encoder \<Rightarrow> (byte list \<Rightarrow> rstring option) \<Rightarrow> bool \<Rightarrow> byte list \<Rightarrow> rstring option" where
  "bom_whole e payload ignore_bom a = payload (if ignore_bom then a else strip_bom e a)"

lemma strip_no_bom [simp]: "bom_prefix e = [] \<Longrightarrow> strip_bom e a = a"
  by (simp add: strip_bom_def starts_with_def)

context payload_decoder
begin

lemma rep_resolved: "rep0 a out (d\<lparr>bom_resolved := x\<rparr>) \<longleftrightarrow> rep0 a out d"
  using rep_bom [where d = d and x = x and y = "pending_bom d"] by simp

lemma feed_cases:
  assumes r: "bom_rep e rep0 ign a out d"
  obtains (go) a' c' d1 where "rep0 a' out d1"
      "decode_bytes lib e c lossy True ign False d =
        decode_payload lib e (pending d1 @ c') lossy True (d1\<lparr>pending := []\<rparr>)"
      "\<And>b. bom_whole e payload ign (a @ c @ b) = payload (a' @ c' @ b)"
      "\<And>d' z. rep0 (a' @ c') z d' \<Longrightarrow> bom_resolved d' = bom_resolved d1 \<Longrightarrow> pending_bom d' = pending_bom d1
        \<Longrightarrow> bom_rep e rep0 ign (a @ c) z d'"
    | (wait) d1 where "rep0 [] [] d1" "\<not> ign" "bom_prefix e \<noteq> []" "bom_open e (a @ c)" "out = []"
      "decode_bytes lib e c lossy True ign False d =
        decode_payload lib e (pending d1 @ []) lossy True (d1\<lparr>pending := []\<rparr>)"
      "\<not> bom_resolved d1" "pending_bom d1 = Some (a @ c)"
proof -
  consider (ign) ign | (none) "\<not> ign" "bom_prefix e = []"
    | (op) "\<not> ign" "bom_prefix e \<noteq> []" "bom_open e a" | (cl) "\<not> ign" "bom_prefix e \<noteq> []" "\<not> bom_open e a"
    by blast
  then show thesis
  proof cases
    case ign
    with r show ?thesis
      by (intro go [of a d c]) (simp_all add: bom_rep_def bom_whole_def decode_bytes_def)
  next
    case none
    let ?d = "d\<lparr>bom_resolved := True\<rparr>"
    have rep: "rep0 a out ?d" using none r by (simp add: bom_rep_def rep_resolved)
    moreover have "decode_bytes lib e c lossy True ign False d =
        decode_payload lib e (pending ?d @ c) lossy True (?d\<lparr>pending := []\<rparr>)"
      using none by (cases d) (auto simp: decode_bytes_def process_bom_def Let_def)
    ultimately show ?thesis
      using none r by (intro go [of a ?d c]) (simp_all add: bom_rep_def bom_whole_def)
  next
    case cl
    then have "\<not> bom_open e (a @ c)" using bom_open_prefix by blast
    with cl r show ?thesis
      by (intro go [of "strip_bom e a" d c]; cases d)
        (auto simp: bom_rep_def bom_whole_def decode_bytes_def strip_bom_append)
  next
    case op
    with r have d: "out = []" "fresh d" "\<not> bom_resolved d" "pending d = []"
      and data: "(case pending_bom d of None \<Rightarrow> c | Some p \<Rightarrow> p @ c) = a @ c"
      by (auto simp: bom_rep_def fresh_def)
    show ?thesis
    proof (cases "bom_open e (a @ c)")
      case True
      with op d data show ?thesis
        by (intro wait [of "d\<lparr>pending_bom := Some (a @ c)\<rparr>"]; cases d)
          (auto simp: rep_fresh fresh_def decode_bytes_def process_bom_stream)
    next
      case False
      have "strip_bom e (a @ c @ b) = strip_bom e (a @ c) @ b" for b
        using strip_bom_append [OF False op(2), of b] by simp
      with False op d data show ?thesis
        by (intro go [of "[]" "d\<lparr>bom_resolved := True, pending_bom := None\<rparr>" "strip_bom e (a @ c)"]; cases d)
          (auto simp: rep_fresh fresh_def decode_bytes_def process_bom_stream bom_whole_def bom_rep_def)
    qed
  qed
qed

text \<open>Decoding nothing from a fresh state yields nothing.\<close>

lemma rep_nothing:
  assumes "rep0 [] out d" 
  shows "out = []" "fresh d"
proof -
  show "out = []"
    using held [OF assms, of "[]"] payload_empty
    by (cases "fst (flush_held lib e lossy [] d)") auto
  with assms show "fresh d" by (simp add: rep_fresh)
qed

lemma chunk_Ok:
  assumes "bom_rep e rep0 ign a out d" "decode_chunk lib e c lossy True ign d = (Ok x, d')"
  shows "bom_rep e rep0 ign (a @ c) (out @ x) d'"
proof -
  have b: "decode_bytes lib e c lossy True ign False d = (Ok x, d')"
    using assms(2) by (auto simp: decode_chunk_def split: prod.splits res.splits)
  from assms(1) show ?thesis
  proof (cases rule: feed_cases [where c = c])
    case (go a' c' d1)
    from stream_Ok [OF go(1), of c' x d'] b go(2)
    have "rep0 (a' @ c') (out @ x) d'" "bom_resolved d' = bom_resolved d1" "pending_bom d' = pending_bom d1"
      by simp_all
    then show ?thesis by (rule go(4))
  next
    case (wait d1)
    from b wait(5,6) stream_Ok [OF wait(1), of "[]" x d']
    have "rep0 [] x d' \<and> bom_resolved d' = bom_resolved d1 \<and> pending_bom d' = pending_bom d1" by simp
    moreover from this have "x = []" "fresh d'" using rep_nothing [of x d'] by simp_all
    ultimately show ?thesis using wait by (simp add: bom_rep_def)
  qed
qed

lemma chunk_Err:
  assumes "bom_rep e rep0 ign a out d" "decode_chunk lib e c lossy True ign d = (Err m, d')"
  shows "bom_whole e payload ign (a @ c @ b) = None"
proof -
  have b: "decode_bytes lib e c lossy True ign False d = (Err m, d')"
    using assms(2) by (auto simp: decode_chunk_def split: prod.splits res.splits)
  from assms(1) show ?thesis
  proof (cases rule: feed_cases [where c = c])
    case (go a' c' d1)
    from stream_Err [OF go(1), of c' m d'] b go(2,3) show ?thesis by simp
  next
    case (wait d1)
    from b wait(6) stream_Err [OF wait(1), of "[]" m d' "[]"] payload_empty show ?thesis by simp
  qed
qed

lemma chunk_safe:
  assumes "bom_rep e rep0 ign a out d"
  shows "fst (decode_chunk lib e c lossy True ign d) \<noteq> Panic"
proof -
  have "fst (decode_bytes lib e c lossy True ign False d) \<noteq> Panic"
    using assms
  proof (cases rule: feed_cases [where c = c])
    case (go a' c' d1)
    from stream_safe [OF go(1), of c'] go(2) show ?thesis by simp
  next
    case (wait d1)
    from stream_safe [OF wait(1), of "[]"] wait(6) show ?thesis by simp
  qed
  then show ?thesis by (auto simp: decode_chunk_def split: prod.splits res.splits)
qed

text \<open>The last part of \<open>flush\<close>, once no byte order mark is pending.\<close>

lemma final_bytes:
  assumes r: "rep0 a out d1"
    and b: "ign \<or> bom_resolved d1 \<or> bom_prefix e = [] \<or> (pending d1 = [] \<and> pending_bom d1 = None)"
  obtains d2 where "rep0 a out d2"
    "decode_bytes lib e [] lossy True ign True d1 =
      decode_payload lib e (pending d2 @ []) lossy True (d2\<lparr>pending := []\<rparr>)"
proof (cases "ign \<or> bom_resolved d1")
  case True
  with r that [of d1] show thesis by (cases d1) (auto simp: decode_bytes_def Let_def)
next
  case False
  let ?d2 = "if bom_prefix e = [] then d1\<lparr>bom_resolved := True\<rparr>
    else d1\<lparr>bom_resolved := True, pending_bom := None\<rparr>"
  have "strip_bom e [] = []" by (cases e) (simp_all add: strip_bom_def starts_with_def)
  with False b have "decode_bytes lib e [] lossy True ign True d1 =
      decode_payload lib e (pending ?d2 @ []) lossy True (?d2\<lparr>pending := []\<rparr>)"
    by (cases d1) (auto simp: decode_bytes_def Let_def process_bom_final process_bom_def)
  with r show thesis by (intro that [of ?d2]) (simp_all add: rep_bom rep_resolved)
qed

lemma flush_payload:
  assumes "rep0 a out d1"
    and "ign \<or> bom_resolved d1 \<or> bom_prefix e = [] \<or> (pending d1 = [] \<and> pending_bom d1 = None)"
  shows "case fst (case decode_bytes lib e [] lossy True ign True d1 of
             (Ok out2, d2) \<Rightarrow>
               (case flush_held lib e lossy (out1 @ out2) d2 of
                  (Ok out3, d3) \<Rightarrow> (Ok out3, reset d3)
                | (r, d3) \<Rightarrow> (r, d3))
           | (r, d2) \<Rightarrow> (r, d2)) of
      Ok w \<Rightarrow> \<exists>x. w = out1 @ x \<and> payload a = Some (out @ x)
    | Err m \<Rightarrow> payload a = None
    | Panic \<Rightarrow> False"
proof -
  obtain d2 where d2: "rep0 a out d2"
    and eq: "decode_bytes lib e [] lossy True ign True d1 =
      decode_payload lib e (pending d2 @ []) lossy True (d2\<lparr>pending := []\<rparr>)"
    using final_bytes [OF assms] .
  obtain r' d' where p: "decode_payload lib e (pending d2 @ []) lossy True (d2\<lparr>pending := []\<rparr>) = (r', d')"
    by (cases "decode_payload lib e (pending d2 @ []) lossy True (d2\<lparr>pending := []\<rparr>)")
  show ?thesis
  proof (cases r')
    case (Ok x)
    with stream_Ok [OF d2] p have "rep0 a (out @ x) d'" by fastforce
    from held [OF this, of "out1 @ x"] show ?thesis
      unfolding eq p Ok by (auto split: prod.splits res.splits)
  next
    case (Err m)
    with stream_Err [OF d2 p [unfolded Err], of "[]"] show ?thesis unfolding eq p by simp
  next
    case Panic
    with stream_safe [OF d2, of "[]"] p show ?thesis by simp
  qed
qed

lemma flush_answers:
  assumes "bom_rep e rep0 ign a out d"
  shows "answers (rmap ((@) out) (fst (flush lib e lossy ign d))) (bom_whole e payload ign a)"
proof (cases "\<not> ign \<and> \<not> bom_resolved d \<and> pending_bom d \<noteq> None")
  case False
  then have f: "flush lib e lossy ign d =
    (case decode_bytes lib e [] lossy True ign True d of
       (Ok out2, d2) \<Rightarrow>
         (case flush_held lib e lossy ([] @ out2) d2 of
            (Ok out3, d3) \<Rightarrow> (Ok out3, reset d3)
          | (r, d3) \<Rightarrow> (r, d3))
     | (r, d2) \<Rightarrow> (r, d2))"
    by (auto simp: flush_def)
  let ?a = "if ign then a else strip_bom e a"
  have "rep0 ?a out d \<and> (ign \<or> bom_resolved d \<or> bom_prefix e = [] \<or> (pending d = [] \<and> pending_bom d = None))"
    using assms False by (auto simp: bom_rep_def rep_fresh fresh_def bom_open_strip split: if_splits)
  with flush_payload [of ?a out d ign "[]"] show ?thesis
    unfolding f bom_whole_def by (auto split: res.splits)
next
  case True
  then have o: "bom_open e a" "out = []" "fresh d" "pending_bom d = Some a" "bom_prefix e \<noteq> []"
    using assms by (auto simp: bom_rep_def split: if_splits)
  let ?d = "d\<lparr>pending_bom := None, bom_resolved := True\<rparr>"
  have dec: "decode_bytes lib e a lossy False True True ?d = decode_payload lib e a lossy False ?d"
    using o(3) by (cases d) (simp add: decode_bytes_def fresh_def)
  have fr: "fresh ?d" using o(3) by (simp add: fresh_def)
  have w: "bom_whole e payload ign a = payload a" using True o(1) by (simp add: bom_whole_def bom_open_strip)
  obtain r d1 where p: "decode_payload lib e a lossy False ?d = (r, d1)"
    by (cases "decode_payload lib e a lossy False ?d")
  with oneshot [OF fr, of a] have ans: "answers r (payload a)" by simp
  show ?thesis
  proof (cases r)
    case (Ok x)
    from oneshot_fresh [OF fr p [unfolded Ok]] have "rep0 [] [] d1" "bom_resolved d1"
      by (simp_all add: rep_fresh)
    with flush_payload [of "[]" "[]" d1 ign x] ans Ok p dec True o payload_empty show ?thesis
      unfolding w by (auto simp: flush_def split: res.splits)
  qed (use ans p dec True o w in \<open>auto simp: flush_def\<close>)
qed

end

sublocale payload_decoder \<subseteq> bom: chunked_decoder "\<lambda>c. decode_chunk lib e c lossy True ign"
  "flush lib e lossy ign" "bom_whole e payload ign" "bom_rep e rep0 ign" for ign
  by unfold_locales (auto simp: flush_answers intro: chunk_Ok chunk_Err dest: chunk_safe)

end
