(* ===== verification/Incremental_Laws.thy ===== *)
theory Incremental_Laws
  imports Incremental_Decoder
begin

text \<open>
  The encodings of src/libs/raster_runtime_encoding/src/incremental.rs meet the contract of a
  chunked decoder: UTF-8 in both modes on every input, UTF-16 in fatal mode on every input, and
  lossy UTF-16 wherever fatal UTF-16 succeeds.
\<close>

section \<open>UTF-8 meets the contract\<close>

lemma utf8_loop_eq:
  "utf8_loop lossy pend out bs =
     (if lossy \<or> \<not> utf8_bad bs then (Ok (out @ utf8_head bs), pend @ utf8_tail bs)
      else (Err ''invalid utf-8 sequence'', pend))"
proof (induction lossy pend out bs rule: utf8_loop.induct)
  case (1 lossy pend out bs)
  show ?case
  proof (cases "bs = []")
    case True
    then show ?thesis by (simp add: utf8_loop.simps)
  next
    case False
    obtain cs k err where c: "utf8_check bs = (cs, k, err)" by (cases "utf8_check bs")
    note split = utf8_check_cases [OF c]
    have bad: "utf8_bad bs \<longleftrightarrow> (\<exists>n. err = Some (Some n))" by (simp add: utf8_bad_def c)
    consider "err = None" | "err = Some None" | n where "err = Some (Some n)"
      by (metis not_Some_eq)
    then show ?thesis
    proof cases
      case 3
      with split have s: "utf8_head bs = cs @ REPLACEMENT # utf8_head (drop (k + n) bs)"
        "utf8_tail bs = utf8_tail (drop (k + n) bs)" by auto
      show ?thesis
      proof (cases lossy)
        case True
        from "1.IH" [OF False c [symmetric] refl 3 refl] True
        have "utf8_loop lossy pend (out @ cs @ [REPLACEMENT]) (drop (k + n) bs) =
          (Ok ((out @ cs @ [REPLACEMENT]) @ utf8_head (drop (k + n) bs)), pend @ utf8_tail (drop (k + n) bs))"
          by simp
        with False c 3 True s show ?thesis by (subst utf8_loop.simps) simp
      next
        case lossy: False
        with False c 3 bad show ?thesis by (subst utf8_loop.simps) simp
      qed
    qed (use False c split bad in \<open>auto simp: utf8_loop.simps\<close>)
  qed
qed

definition utf8_payload :: "bool \<Rightarrow> byte list \<Rightarrow> rstring option" where
  "utf8_payload lossy a = (if lossy \<or> utf8_valid a then Some (utf8_lossy a) else None)"

definition utf8_rep :: "bool \<Rightarrow> byte list \<Rightarrow> rstring \<Rightarrow> incremental_decoder \<Rightarrow> bool" where
  "utf8_rep lossy a out d \<longleftrightarrow>
     pending d = utf8_tail a \<and> out = utf8_head a \<and> (lossy \<or> \<not> utf8_bad a)
     \<and> utf16_odd_byte d = None \<and> utf16_lead_surrogate d = None"

lemma bytes_to_utf8_string_eq:
  "answers (bytes_to_utf8_string bs lossy) (utf8_payload lossy bs)"
proof -
  obtain cs k e where c: "utf8_check bs = (cs, k, e)" by (cases "utf8_check bs")
  then show ?thesis
    using utf8_valid_lossy [of bs]
    by (cases lossy) (auto simp: utf8_payload_def utf8_valid_def split: option.splits)
qed

lemma utf8_payload_decoder:
  assumes e: "e = Utf8 \<or> e = Windows1252"
  shows "payload_decoder lib e lossy (utf8_payload lossy) (utf8_rep lossy)"
proof -
  have pay: "decode_payload lib e bs lossy True d = (case utf8_loop lossy (pending d) [] bs of (r, p) \<Rightarrow> (r, d\<lparr>pending := p\<rparr>))"
    "decode_payload lib e bs lossy False d = (bytes_to_utf8_string bs lossy, d)" for bs d
    using e by (auto simp: decode_payload_def decode_utf8_like_def)
  have held: "flush_held lib e lossy z d = (if pending d \<noteq> [] then
      if lossy then (Ok (z @ [REPLACEMENT]), d\<lparr>pending := []\<rparr>) else (Err ''Incomplete UTF-8 sequence'', d)
      else (Ok z, d))" for z d
    using e by (auto simp: flush_held_def)
  show ?thesis
  proof (unfold_locales, goal_cases)
    case (4 a out d c z d')
    then show ?case
      by (auto simp: pay utf8_loop_eq utf8_rep_def utf8_head_append [of a] utf8_tail_append [of a]
          utf8_bad_append [of a] split: if_splits)
  next
    case (5 a out d c m d' b)
    then have "utf8_bad (utf8_tail a @ c)" "\<not> lossy"
      by (auto simp: pay utf8_loop_eq utf8_rep_def split: if_splits)
    then show ?case
      using utf8_bad_append [of a c] utf8_bad_append [of "a @ c" b] by (simp add: utf8_payload_def utf8_valid_iff)
  next
    case (6 a out d c)
    then show ?case by (simp add: pay utf8_loop_eq split: prod.split)
  next
    case (9 a out d z)
    then show ?case
      by (auto simp: held utf8_rep_def utf8_payload_def utf8_valid_iff utf8_lossy_split [of a])
  next
    case (7 d c)
    show ?case unfolding pay fst_conv by (rule bytes_to_utf8_string_eq)
  next
    case (8 d c z d')
    then show ?case unfolding pay by simp
  qed (auto simp: utf8_rep_def fresh_def utf8_payload_def utf8_valid_iff)
qed

interpretation utf8_inc: payload_decoder lib Utf8 lossy "utf8_payload lossy" "utf8_rep lossy" for lib lossy
  by (rule utf8_payload_decoder) simp

interpretation w1252_inc: payload_decoder lib Windows1252 lossy "utf8_payload lossy" "utf8_rep lossy" for lib lossy
  by (rule utf8_payload_decoder) simp

section \<open>Fatal UTF-16 meets the contract\<close>

abbreviation units_bytes :: "endian \<Rightarrow> u16 list \<Rightarrow> byte list" where
  "units_bytes en us \<equiv> concat (map (u16_bytes en) us)"

abbreviation opt_list :: "'a option \<Rightarrow> 'a list" where
  "opt_list m \<equiv> (case m of None \<Rightarrow> [] | Some x \<Rightarrow> [x])"

definition utf16_payload :: "endian \<Rightarrow> byte list \<Rightarrow> rstring option" where
  "utf16_payload en a = (if even (length a) then utf16_strict (chunk_units en a) else None)"

definition utf16_rep :: "endian \<Rightarrow> byte list \<Rightarrow> rstring \<Rightarrow> incremental_decoder \<Rightarrow> bool" where
  "utf16_rep en a out d \<longleftrightarrow>
     pending d = [] \<and>
     (\<forall>l. utf16_lead_surrogate d = Some l \<longrightarrow> is_lead l) \<and>
     (\<exists>us. utf16_strict us = Some out \<and>
       a = units_bytes en us @ units_bytes en (opt_list (utf16_lead_surrogate d)) @ opt_list (utf16_odd_byte d))"

lemma u16_bytes_of [simp]: "u16_bytes en (u16_of en b0 b1) = [b0, b1]"
proof -
  have w: "unat b0 < 256" "unat b1 < 256" by (simp_all add: unat_byte_less)
  then have "unat b0 + 256 * unat b1 < 65536" "unat b1 + 256 * unat b0 < 65536" by linarith+
  with w show ?thesis
    by (cases en) (simp_all add: u16_bytes_def u16_of_def unat_u16_of_nat del: of_nat_add of_nat_mult)
qed

lemma chunk_units_append: "chunk_units en (units_bytes en us @ r) = us @ chunk_units en r"
proof (induction us)
  case (Cons u us)
  obtain b0 b1 where "u16_bytes en u = [b0, b1]" using u16_bytes_two by blast
  with Cons show ?case by simp
qed simp

lemma chunk_units_single [simp]: "chunk_units en (u16_bytes en u) = [u]"
  using chunk_units_bytes [of en "[u]"] by simp

lemma u16_bytes_nonempty [simp]: "u16_bytes en u \<noteq> []"
  using length_u16_bytes [of en u] by fastforce

lemma utf16_strict_append:
  "utf16_strict x = Some s \<Longrightarrow> utf16_strict (x @ y) = map_option (\<lambda>t. s @ t) (utf16_strict y)"
proof (induction x arbitrary: s rule: utf16_strict.induct)
  case (2 u)
  then show ?case by (cases y; cases "utf16_strict y") (auto split: if_splits)
next
  case (3 u v r)
  then show ?case by (cases "utf16_strict y") (auto split: if_splits)
next
  case 1
  then show ?case by (cases "utf16_strict y") simp_all
qed

text \<open>One round of the loop, fatal and streaming.\<close>

lemma utf16_payload_append:
  assumes "utf16_strict us = Some s"
  shows "utf16_payload en (units_bytes en us @ r) = map_option (\<lambda>t. s @ t) (utf16_payload en r)"
  using assms by (simp add: utf16_payload_def chunk_units_append utf16_strict_append length_units_bytes)

lemma utf16_payload_lone:
  assumes "is_lead l" "\<not> is_trail (u16_of en b0 b1)"
  shows "utf16_payload en (u16_bytes en l @ b0 # b1 # r) = None"
  using assms chunk_units_append [of en "[l]"] by (simp add: utf16_payload_def)

lemma utf16_payload_trail:
  assumes "is_trail (u16_of en b0 b1)"
  shows "utf16_payload en (b0 # b1 # r) = None"
  using assms is_lead_trail by (cases "chunk_units en r") (auto simp: utf16_payload_def)

lemma utf16_step_Next:
  assumes "utf16_step en False stream lead input = Next us l rest" "\<forall>x. lead = Some x \<longrightarrow> is_lead x"
  shows "l = None \<and> (\<exists>s. utf16_strict us = Some s)
    \<and> units_bytes en (opt_list lead) @ input = units_bytes en us @ rest"
  using assms
  by (auto simp: utf16_step_def utf16_body_def utf16_emit_def Let_def split: list.splits if_splits option.splits)

lemma utf16_step_Stop:
  assumes "utf16_step en False True lead input = Stop us o' l" "\<forall>x. lead = Some x \<longrightarrow> is_lead x"
  shows "us = [] \<and> units_bytes en (opt_list lead) @ input = units_bytes en (opt_list l) @ opt_list o'
    \<and> (\<forall>x. l = Some x \<longrightarrow> is_lead x)"
  using assms
  by (auto simp: utf16_step_def utf16_body_def utf16_emit_def Let_def split: list.splits if_splits option.splits)

lemma utf16_step_Fail:
  assumes "utf16_step en False stream lead input = Fail m l" "\<forall>x. lead = Some x \<longrightarrow> is_lead x"
    "stream \<or> b = []"
  shows "utf16_payload en (units_bytes en (opt_list lead) @ input @ b) = None"
proof (cases "\<exists>b0 b1 rest. input = b0 # b1 # rest")
  case False
  then show ?thesis using assms
    by (cases input; cases "tl input")
      (auto simp: utf16_step_def utf16_payload_def length_units_bytes split: if_splits)
next
  case True
  then obtain b0 b1 rest where i: "input = b0 # b1 # rest" by blast
  let ?u = "u16_of en b0 b1"
  show ?thesis
  proof (cases lead)
    case (Some x)
    with assms i have "is_lead x" "\<not> is_trail ?u" by (auto simp: utf16_step_def Let_def split: if_splits)
    with i Some utf16_payload_lone [of x en b0 b1] show ?thesis by simp
  next
    case None
    with assms i have body: "utf16_body en False stream [] ?u rest = Fail m l" by (simp add: utf16_step_def Let_def)
    show ?thesis
    proof (cases "is_lead ?u")
      case False
      with body have "is_trail ?u" by (auto simp: utf16_body_def utf16_emit_def split: if_splits)
      with i None utf16_payload_trail [of en b0 b1] show ?thesis by simp
    next
      case True
      note body = body [unfolded utf16_body_def]
      show ?thesis
      proof (cases "\<exists>n0 n1 r. rest = n0 # n1 # r")
        case True
        then obtain n0 n1 r where r: "rest = n0 # n1 # r" by blast
        with body \<open>is_lead ?u\<close> have "\<not> is_trail (u16_of en n0 n1)" by (auto simp: Let_def split: if_splits)
        with utf16_payload_lone [OF \<open>is_lead ?u\<close> this] i r None show ?thesis by simp
      next
        case False
        with body \<open>is_lead ?u\<close> assms(3) i None show ?thesis
          by (cases rest; cases "tl rest") (auto simp: utf16_payload_def split: if_splits)
      qed
    qed
  qed
qed

lemma utf16_loop_stream:
  assumes "utf16_loop en False True lead units input = (r, o', l)" "\<forall>x. lead = Some x \<longrightarrow> is_lead x"
  shows "case r of
      Ok us \<Rightarrow> \<exists>x s. us = units @ x \<and> utf16_strict x = Some s \<and> (\<forall>x. l = Some x \<longrightarrow> is_lead x)
        \<and> units_bytes en (opt_list lead) @ input = units_bytes en x @ units_bytes en (opt_list l) @ opt_list o'
    | Err m \<Rightarrow> \<forall>b. utf16_payload en (units_bytes en (opt_list lead) @ input @ b) = None
    | Panic \<Rightarrow> False"
  using assms
proof (induction en "False" "True" lead units input arbitrary: r o' l rule: utf16_loop.induct)
  case (1 en lead units input)
  show ?case
  proof (cases "utf16_step en False True lead input")
    case (Next us l' rest)
    from utf16_step_Next [OF Next "1.prems"(2)] obtain s where n: "l' = None" "utf16_strict us = Some s"
      "units_bytes en (opt_list lead) @ input = units_bytes en us @ rest" by blast
    have eq: "units_bytes en (opt_list lead) @ input @ b = units_bytes en us @ rest @ b" for b
      using n(3) by (metis append_assoc)
    from "1.prems"(1) Next have "utf16_loop en False True l' (units @ us) rest = (r, o', l)"
      by (subst (asm) utf16_loop.simps) simp
    note ih = "1.hyps" [OF Next this]
    show ?thesis
    proof (cases r)
      case (Ok ws)
      with ih n(1) obtain x t where "ws = (units @ us) @ x" "utf16_strict x = Some t"
        "\<forall>x. l = Some x \<longrightarrow> is_lead x" "rest = units_bytes en x @ units_bytes en (opt_list l) @ opt_list o'"
        by auto
      with Ok n(3) utf16_strict_append [OF n(2), of x] show ?thesis
        by (auto intro!: exI [of _ "us @ x"])
    qed (use ih n(1) in \<open>auto simp: eq utf16_payload_append [OF n(2)]\<close>)
  next
    case (Stop us o2 l2)
    with "1.prems" utf16_step_Stop [OF Stop "1.prems"(2)] show ?thesis
      by (subst (asm) utf16_loop.simps) auto
  next
    case (Fail m l2)
    with "1.prems" utf16_step_Fail [OF Fail "1.prems"(2)] show ?thesis
      by (subst (asm) utf16_loop.simps) auto
  qed
qed

lemma utf16_step_Stop_final:
  "utf16_step en False False None input = Stop us o' l \<Longrightarrow> us = [] \<and> input = [] \<and> l = None \<and> o' = None"
  by (auto simp: utf16_step_def utf16_body_def utf16_emit_def Let_def split: list.splits if_splits)

lemma utf16_loop_final:
  assumes "utf16_loop en False False None units input = (r, o', l)"
  shows "case r of
      Ok us \<Rightarrow> \<exists>x s. us = units @ x \<and> utf16_strict x = Some s \<and> l = None \<and> o' = None \<and> input = units_bytes en x
    | Err m \<Rightarrow> utf16_payload en input = None
    | Panic \<Rightarrow> False"
  using assms
proof (induction en "False" "False" "None :: u16 option" units input arbitrary: r o' l rule: utf16_loop.induct)
  case (1 en units input)
  show ?case
  proof (cases "utf16_step en False False None input")
    case (Next us l' rest)
    from utf16_step_Next [OF Next] obtain s where n: "l' = None" "utf16_strict us = Some s"
      "input = units_bytes en us @ rest" by auto
    from "1.prems"(1) Next n have "utf16_loop en False False None (units @ us) rest = (r, o', l)"
      by (subst (asm) utf16_loop.simps) simp
    note ih = "1.hyps" [OF Next [unfolded n(1)] this]
    show ?thesis
    proof (cases r)
      case (Ok ws)
      with ih obtain x t where "ws = (units @ us) @ x" "utf16_strict x = Some t" "l = None" "o' = None"
        "rest = units_bytes en x" by auto
      with Ok n(3) utf16_strict_append [OF n(2), of x] show ?thesis
        by (auto intro!: exI [of _ "us @ x"])
    qed (use ih n in \<open>auto simp: utf16_payload_append [OF n(2)]\<close>)
  next
    case (Stop us o2 l2)
    with "1.prems" utf16_step_Stop_final [OF Stop] show ?thesis
      by (subst (asm) utf16_loop.simps) auto
  next
    case (Fail m l2)
    with "1.prems" utf16_step_Fail [OF Fail, of "[]"] show ?thesis
      by (subst (asm) utf16_loop.simps) auto
  qed
qed

definition utf16_endian :: "encoder \<Rightarrow> endian" where
  "utf16_endian e = (if e = Utf16be then Big else Little)"

lemma utf16_payload_decoder:
  assumes e: "e = Utf16le \<or> e = Utf16be"
  defines "en \<equiv> utf16_endian e"
  shows "payload_decoder lib e False (utf16_payload en) (utf16_rep en)"
proof -
  have pay: "decode_payload lib e bs False stream d =
      (case decode_utf16_stream bs en False stream (utf16_odd_byte d) (utf16_lead_surrogate d) of
         (r, odd', lead) \<Rightarrow> (r, d\<lparr>utf16_odd_byte := odd', utf16_lead_surrogate := lead\<rparr>))" for bs stream d
    using e by (auto simp: decode_payload_def en_def utf16_endian_def)
  have held: "flush_held lib e False z d =
      (if utf16_odd_byte d \<noteq> None \<or> utf16_lead_surrogate d \<noteq> None then (Err ''Incomplete UTF-16 sequence'', d) else (Ok z, d))" for z d
    using e by (auto simp: flush_held_def)
  have stream: "case fst (decode_payload lib e (pending d @ c) False True (d\<lparr>pending := []\<rparr>)) of
      Ok z \<Rightarrow> utf16_rep en (a @ c) (out @ z) (snd (decode_payload lib e (pending d @ c) False True (d\<lparr>pending := []\<rparr>)))
    | Err m \<Rightarrow> \<forall>b. utf16_payload en (a @ c @ b) = None
    | Panic \<Rightarrow> False" if rep: "utf16_rep en a out d" for a out d c
  proof -
    let ?in = "opt_list (utf16_odd_byte d) @ c"
    obtain r o' l where lp: "utf16_loop en False True (utf16_lead_surrogate d) [] ?in = (r, o', l)"
      by (metis surj_pair)
    from rep obtain us where us: "pending d = []" "\<forall>x. utf16_lead_surrogate d = Some x \<longrightarrow> is_lead x"
      "utf16_strict us = Some out"
      "a = units_bytes en us @ units_bytes en (opt_list (utf16_lead_surrogate d)) @ opt_list (utf16_odd_byte d)"
      by (auto simp: utf16_rep_def)
    note spec = utf16_loop_stream [OF lp us(2)]
    show ?thesis
    proof (cases r)
      case (Ok ws)
      with spec obtain s where w: "utf16_strict ws = Some s" "\<forall>x. l = Some x \<longrightarrow> is_lead x"
        "units_bytes en (opt_list (utf16_lead_surrogate d)) @ ?in = units_bytes en ws @ units_bytes en (opt_list l) @ opt_list o'"
        by auto
      have "a @ c = units_bytes en (us @ ws) @ units_bytes en (opt_list l) @ opt_list o'"
        using us(4) w(3) by simp
      moreover have "utf16_strict (us @ ws) = Some (out @ s)"
        using utf16_strict_append [OF us(3), of ws] w(1) by simp
      ultimately show ?thesis
        using us(1) w lp Ok unfolding pay decode_utf16_stream_def utf16_rep_def by (auto intro!: exI [of _ "us @ ws"])
    next
      case (Err m)
      with spec us(1) lp show ?thesis
        by (simp add: pay decode_utf16_stream_def us(4) utf16_payload_append [OF us(3)])
    next
      case Panic
      with spec show ?thesis by simp
    qed
  qed
  have bomfix: "bom_resolved (snd (decode_payload lib e bs False st d)) = bom_resolved d"
    "pending_bom (snd (decode_payload lib e bs False st d)) = pending_bom d"
    "pending (snd (decode_payload lib e bs False st d)) = pending d" for bs st d
    by (auto simp: pay split: prod.split)
  have final: "answers (fst (decode_payload lib e c False False d)) (utf16_payload en c)
    \<and> (\<forall>z d'. decode_payload lib e c False False d = (Ok z, d') \<longrightarrow> fresh d')" if "fresh d" for d c
  proof -
    obtain r o' l where lp: "utf16_loop en False False None [] c = (r, o', l)" by (metis surj_pair)
    with utf16_loop_final [OF lp] that show ?thesis
      by (cases r) (auto simp: pay decode_utf16_stream_def fresh_def utf16_payload_def length_units_bytes chunk_units_bytes)
  qed
  show ?thesis
  proof (unfold_locales, goal_cases)
    case (4 a out d c z d')
    with stream [OF 4(1), of c] bomfix [of "pending d @ c" True "d\<lparr>pending := []\<rparr>"] show ?case by simp
  next
    case (5 a out d c m d' b)
    with stream [OF 5(1), of c] show ?case by simp
  next
    case (6 a out d c)
    with stream [OF 6, of c] show ?case by (auto split: res.splits)
  next
    case (8 d c z d')
    with final [OF 8(1), of c] bomfix [of c False d] show ?case by auto
  next
    case (9 a out d z)
    then show ?case
      by (auto simp: held utf16_rep_def utf16_payload_def length_units_bytes chunk_units_bytes
          chunk_units_append utf16_strict_append split: option.splits)
  next
    case (1 d)
    show ?case
      by (cases "utf16_lead_surrogate d"; cases "utf16_odd_byte d") (auto simp: utf16_rep_def fresh_def)
  next
    case (7 d c)
    with final show ?case by simp
  qed (auto simp: utf16_rep_def utf16_payload_def)
qed

interpretation utf16le_inc: payload_decoder lib Utf16le False "utf16_payload Little" "utf16_rep Little" for lib
  using utf16_payload_decoder [of Utf16le lib] by (simp add: utf16_endian_def)

interpretation utf16be_inc: payload_decoder lib Utf16be False "utf16_payload Big" "utf16_rep Big" for lib
  using utf16_payload_decoder [of Utf16be lib] by (simp add: utf16_endian_def)

section \<open>Lossy UTF-16 agrees with fatal UTF-16 on valid text\<close>

lemma utf16_step_lossy:
  "utf16_step en False stream lead input = Next us l rest \<Longrightarrow> utf16_step en True stream lead input = Next us l rest"
  "utf16_step en False stream lead input = Stop us o' l \<Longrightarrow> utf16_step en True stream lead input = Stop us o' l"
  by (auto simp: utf16_step_def utf16_body_def utf16_emit_def Let_def split: list.splits if_splits option.splits)

lemma utf16_loop_lossy:
  "utf16_loop en False stream lead units input = (Ok us, o', l) \<Longrightarrow>
    utf16_loop en True stream lead units input = (Ok us, o', l)"
proof (induction en False stream lead units input arbitrary: us o' l rule: utf16_loop.induct)
  case (1 en stream lead units input)
  show ?case
  proof (cases "utf16_step en False stream lead input")
    case (Next ws l' rest)
    with "1.prems" have "utf16_loop en False stream l' (units @ ws) rest = (Ok us, o', l)"
      by (subst (asm) utf16_loop.simps) simp
    from "1.hyps" [OF Next this] utf16_step_lossy(1) [OF Next] show ?thesis by (subst utf16_loop.simps) simp
  next
    case (Stop ws o2 l2)
    with "1.prems" utf16_step_lossy(2) [OF Stop] show ?thesis by (simp add: utf16_loop.simps [of en _ stream])
  next
    case (Fail m x)
    with "1.prems" show ?thesis by (subst (asm) utf16_loop.simps) simp
  qed
qed

lemma decode_utf16_stream_lossy:
  assumes "decode_utf16_stream bs en False stream o0 l0 = (Ok s, o', l)"
  shows "decode_utf16_stream bs en True stream o0 l0 = (Ok s, o', l)"
proof -
  let ?in = "opt_list o0 @ bs"
  from assms obtain us where lp: "utf16_loop en False stream l0 [] ?in = (Ok us, o', l)"
    and "utf16_strict us = Some s"
    by (auto simp: decode_utf16_stream_def Let_def split: prod.splits option.splits)
  with utf16_loop_lossy [OF lp] utf16_strict_lossy show ?thesis
    by (simp add: decode_utf16_stream_def)
qed

lemma decode_payload_lossy:
  "e = Utf16le \<or> e = Utf16be \<Longrightarrow> decode_payload lib e bs False stream d = (Ok s, d') \<Longrightarrow>
    decode_payload lib e bs True stream d = (Ok s, d')"
  by (auto simp: decode_payload_def split: prod.splits dest!: decode_utf16_stream_lossy)

lemma decode_bytes_lossy:
  "e = Utf16le \<or> e = Utf16be \<Longrightarrow> decode_bytes lib e bs False stream ign bf d = (Ok s, d') \<Longrightarrow>
    decode_bytes lib e bs True stream ign bf d = (Ok s, d')"
  by (simp add: decode_bytes_def Let_def split_def decode_payload_lossy)

lemma decode_chunk_lossy:
  assumes "e = Utf16le \<or> e = Utf16be" "decode_chunk lib e c False stream ign d = (Ok s, d')"
  shows "decode_chunk lib e c True stream ign d = (Ok s, d')"
proof -
  obtain d1 where "decode_bytes lib e c False stream ign False d = (Ok s, d1)" "d' = (if stream then d1 else reset d1)"
    using assms(2) by (auto simp: decode_chunk_def split: prod.splits res.splits)
  with decode_bytes_lossy [OF assms(1) this(1)] show ?thesis by (simp add: decode_chunk_def)
qed

lemma flush_held_lossy:
  "e = Utf16le \<or> e = Utf16be \<Longrightarrow> flush_held lib e False z d = (Ok s, d') \<Longrightarrow> flush_held lib e True z d = (Ok s, d')"
  by (auto simp: flush_held_def split: if_splits)

end
