(* ===== verification/Text_Codec.thy ===== *)
theory Text_Codec
  imports Incremental_Laws
begin

text \<open>
  Model of src/modules/raster_runtime_util/src/text_decoder.rs and text_encoder.rs: the WHATWG
  \<open>TextDecoder\<close> and \<open>TextEncoder\<close> classes.
\<close>

section \<open>TextDecoder\<close>

record text_decoder =
  encoder_of :: encoder
  fatal :: bool
  ignore_bom :: bool
  decoder :: incremental_decoder
  do_not_flush :: bool

definition new_text_decoder :: "string option \<Rightarrow> bool option \<Rightarrow> bool option \<Rightarrow> (string, text_decoder) res" where
  "new_text_decoder label opt_fatal opt_ignore_bom =
     rbind (from_optional_str label) (\<lambda>e.
       Ok \<lparr>encoder_of = e, fatal = (case opt_fatal of Some b \<Rightarrow> b | None \<Rightarrow> False),
           ignore_bom = (case opt_ignore_bom of Some b \<Rightarrow> b | None \<Rightarrow> False),
           decoder = new_decoder, do_not_flush = False\<rparr>)"

definition decode ::
    "codecs \<Rightarrow> byte list option \<Rightarrow> bool option \<Rightarrow> text_decoder \<Rightarrow> (string, rstring) res \<times> text_decoder" where
  "decode lib input opt_stream td =
     (let stream = (case opt_stream of Some b \<Rightarrow> b | None \<Rightarrow> False);
          bytes = (case input of None \<Rightarrow> [] | Some bs \<Rightarrow> bs);
          lossy = (\<not> fatal td)
      in if stream then
           (case decode_chunk lib (encoder_of td) bytes lossy True (ignore_bom td) (decoder td) of
              (r, d) \<Rightarrow> (r, td\<lparr>do_not_flush := True, decoder := d\<rparr>))
         else if do_not_flush td then
           (case decode_chunk lib (encoder_of td) bytes lossy True (ignore_bom td) (decoder td) of
              (Ok out, d) \<Rightarrow>
                (case flush lib (encoder_of td) lossy (ignore_bom td) d of
                   (r, d') \<Rightarrow> (rmap ((@) out) r, td\<lparr>do_not_flush := False, decoder := d'\<rparr>))
            | (r, d) \<Rightarrow> (r, td\<lparr>do_not_flush := False, decoder := d\<rparr>))
         else
           (case decode_chunk lib (encoder_of td) bytes lossy False (ignore_bom td) (reset (decoder td)) of
              (r, d) \<Rightarrow> (r, td\<lparr>decoder := d\<rparr>)))"

section \<open>TextEncoder\<close>

datatype js_arg = Absent | Undefined | Str rstring | Other

definition encode :: "js_arg \<Rightarrow> (string, byte list) res" where
  "encode string =
     (case string of
        Str s \<Rightarrow> Ok (utf8_bytes s)
      | Other \<Rightarrow> Err ''The \"string\" argument must be a string.''
      | Undefined \<Rightarrow> Ok []
      | Absent \<Rightarrow> Ok [])"

text \<open>\<open>char::len_utf16\<close>, and the loop that counts the bytes that fit.\<close>

definition len_utf16 :: "nat \<Rightarrow> nat" where
  "len_utf16 c = (if c < 0x10000 then 1 else 2)"

fun fit :: "nat \<Rightarrow> nat \<Rightarrow> rstring \<Rightarrow> nat" where
  "fit dst_len written [] = written"
| "fit dst_len written (ch # s) =
     (let len = length (utf8_encode ch)
      in if written + len > dst_len then written else fit dst_len (written + len) s)"

text \<open>
  The result: the \<open>read\<close> and \<open>written\<close> counts and the destination afterwards, \<open>None\<close> for a
  panic (slicing the source string off a character boundary, or out of range).
\<close>

definition encode_into :: "rstring \<Rightarrow> byte list \<Rightarrow> (nat \<times> nat \<times> byte list) option" where
  "encode_into src dst =
     (let written = fit (length dst) 0 src
      in do {
        bytes \<leftarrow> slice (utf8_bytes src) 0 written;
        target \<leftarrow> slice dst 0 written;
        chars \<leftarrow> (case utf8_check bytes of (cs, k, None) \<Rightarrow> Some cs | (cs, k, Some e) \<Rightarrow> None);
        Some (sum_list (map len_utf16 chars), written, bytes @ drop written dst)
      })"

section \<open>TextDecoder is a chunked decoder\<close>

definition opt_bytes :: "byte list option \<Rightarrow> byte list" where
  "opt_bytes m = (case m of None \<Rightarrow> [] | Some bs \<Rightarrow> bs)"

definition td_rep ::
    "encoder \<Rightarrow> bool \<Rightarrow> bool \<Rightarrow> (byte list \<Rightarrow> rstring \<Rightarrow> incremental_decoder \<Rightarrow> bool)
      \<Rightarrow> byte list \<Rightarrow> rstring \<Rightarrow> text_decoder \<Rightarrow> bool" where
  "td_rep e lossy ign rep a out td \<longleftrightarrow>
     encoder_of td = e \<and> fatal td = (\<not> lossy) \<and> ignore_bom td = ign
     \<and> (if do_not_flush td then rep a out (decoder td) else a = [] \<and> out = [] \<and> decoder td = new_decoder)"

lemma reset_new [simp]: "reset d = new_decoder"
  by (cases d) (simp add: reset_def new_decoder_def)

context payload_decoder
begin

lemma td_stream: "decode lib (Some c) (Some True) td =
    (case decode_chunk lib (encoder_of td) c (\<not> fatal td) True (ignore_bom td) (decoder td) of
       (r, d) \<Rightarrow> (r, td\<lparr>do_not_flush := True, decoder := d\<rparr>))"
  by (simp add: decode_def)

lemma new_decoder_rep: "bom_rep e rep0 ign [] [] new_decoder"
  using rep_fresh by (auto simp: bom_rep_def new_decoder_def fresh_def bom_open_def)

lemma td_rep_inner: "td_rep e lossy ign (bom_rep e rep0 ign) a out td \<Longrightarrow> bom_rep e rep0 ign a out (decoder td)"
  by (auto simp: td_rep_def new_decoder_rep split: if_splits)

text \<open>The call without \<open>stream\<close> on a decoder that has not been fed.\<close>

lemma oneshot_whole:
  "answers (fst (decode_chunk lib e bs lossy False ign new_decoder)) (bom_whole e payload ign bs)"
proof -
  obtain d1 where "fresh d1" and eq: "decode_bytes lib e bs lossy False ign False new_decoder =
      decode_payload lib e (if ign then bs else strip_bom e bs) lossy False d1"
  proof (cases "ign \<or> bom_prefix e = []")
    case True
    then show thesis
      by (intro that [of "new_decoder\<lparr>bom_resolved := \<not> ign\<rparr>"])
        (auto simp: fresh_def new_decoder_def decode_bytes_def process_bom_def)
  next
    case False
    then show thesis
      by (intro that [of "new_decoder\<lparr>bom_resolved := True\<rparr>"])
        (auto simp: fresh_def new_decoder_def decode_bytes_def process_bom_final)
  qed
  obtain r d2 where "decode_payload lib e (if ign then bs else strip_bom e bs) lossy False d1 = (r, d2)"
    by (metis surj_pair)
  with oneshot [OF \<open>fresh d1\<close>, of "if ign then bs else strip_bom e bs"] show ?thesis
    by (cases r) (simp_all add: decode_chunk_def bom_whole_def eq)
qed

lemma td_final:
  assumes "td_rep e lossy ign (bom_rep e rep0 ign) a out td"
  shows "answers (rmap ((@) out) (fst (decode lib final None td))) (bom_whole e payload ign (a @ opt_bytes final))"
proof (cases "do_not_flush td")
  case False
  with assms oneshot_whole [of "opt_bytes final" ign] show ?thesis
    by (auto simp: td_rep_def decode_def opt_bytes_def answers_def split: prod.splits res.splits)
next
  case True
  have td: "encoder_of td = e" "fatal td = (\<not> lossy)" "ignore_bom td = ign" using assms by (auto simp: td_rep_def)
  obtain r d where c: "decode_chunk lib e (opt_bytes final) lossy True ign (decoder td) = (r, d)"
    by (cases "decode_chunk lib e (opt_bytes final) lossy True ign (decoder td)")
  note rep = td_rep_inner [OF assms]
  show ?thesis
  proof (cases r)
    case (Ok x)
    obtain r2 d2 where f: "flush lib e lossy ign d = (r2, d2)" by (cases "flush lib e lossy ign d")
    from bom.fin [OF bom.feed_Ok [OF rep c [unfolded Ok]]] True td c Ok f show ?thesis
      by (cases r2) (simp_all add: decode_def opt_bytes_def)
  next
    case (Err m)
    from bom.feed_Err [OF rep c [unfolded Err], of "[]"] True td c Err show ?thesis
      by (auto simp: decode_def opt_bytes_def)
  next
    case Panic
    with bom.feed_safe [OF rep, of "opt_bytes final"] c show ?thesis by simp
  qed
qed

end

sublocale payload_decoder \<subseteq> td: chunked_decoder "\<lambda>c. decode lib (Some c) (Some True)" "decode lib final None"
  "\<lambda>a. bom_whole e payload ign (a @ opt_bytes final)" "td_rep e lossy ign (bom_rep e rep0 ign)" for ign final
proof (unfold_locales, goal_cases)
  case (1 a out td c x td')
  from 1(2) obtain d where d: "decode_chunk lib e c lossy True ign (decoder td) = (Ok x, d)"
    and td': "td' = td\<lparr>do_not_flush := True, decoder := d\<rparr>"
    using 1(1) by (auto simp: td_stream td_rep_def split: prod.splits)
  from bom.feed_Ok [OF td_rep_inner [OF 1(1)] d] 1(1) show ?case by (simp add: td' td_rep_def)
next
  case (2 a out td c m td' b)
  then obtain d where "decode_chunk lib e c lossy True ign (decoder td) = (Err m, d)"
    by (auto simp: td_stream td_rep_def split: prod.splits)
  from bom.feed_Err [OF td_rep_inner [OF 2(1)] this, of "b @ opt_bytes final"] show ?case by simp
next
  case (3 a out td c)
  with bom.feed_safe [OF td_rep_inner [OF 3], of c] show ?case
    by (auto simp: td_stream td_rep_def split: prod.splits)
next
  case (4 a out td)
  then show ?case by (rule td_final)
qed

section \<open>Sessions of a new decoder\<close>

text \<open>A session: the chunks decoded with \<open>{stream: true}\<close>, then the final call.\<close>

definition session ::
    "codecs \<Rightarrow> byte list list \<Rightarrow> byte list option \<Rightarrow> text_decoder \<Rightarrow> (string, rstring) res \<times> text_decoder" where
  "session lib cs final td = decode_all (\<lambda>c. decode lib (Some c) (Some True)) (decode lib final None) cs td"

definition td_new :: "encoder \<Rightarrow> bool \<Rightarrow> bool \<Rightarrow> text_decoder" where
  "td_new e f i = \<lparr>encoder_of = e, fatal = f, ignore_bom = i, decoder = new_decoder, do_not_flush = False\<rparr>"

lemma td_rep_new: "td_rep e lossy ign R [] [] (td_new e (\<not> lossy) ign)"
  by (simp add: td_rep_def td_new_def)

lemma new_text_decoder_Ok:
  "new_text_decoder label f i = Ok td \<Longrightarrow> td = td_new (encoder_of td) (fatal td) (ignore_bom td)"
  by (auto simp: new_text_decoder_def td_new_def)

lemma session_utf8:
  "answers (fst (session lib cs final (td_new Utf8 f i)))
    (bom_whole Utf8 (utf8_payload (\<not> f)) i (concat cs @ opt_bytes final))"
  unfolding session_def
  using utf8_inc.td.decode_all_whole [OF td_rep_new [of Utf8 "\<not> f" i]] by simp

lemma session_utf16_fatal:
  assumes "e = Utf16le \<or> e = Utf16be"
  shows "answers (fst (session lib cs final (td_new e True i)))
    (bom_whole e (utf16_payload (utf16_endian e)) i (concat cs @ opt_bytes final))"
  unfolding session_def
  using assms utf16le_inc.td.decode_all_whole [OF td_rep_new [of Utf16le False i]]
    utf16be_inc.td.decode_all_whole [OF td_rep_new [of Utf16be False i]]
  by (auto simp: utf16_endian_def)

lemma flush_lossy:
  assumes e: "e = Utf16le \<or> e = Utf16be" and f: "flush lib e False i d = (Ok s, d')"
  shows "flush lib e True i d = (Ok s, d')"
proof -
  define first where "first lossy = (if \<not> i \<and> \<not> bom_resolved d then
              (case pending_bom d of
                 Some p \<Rightarrow> decode_bytes lib e p lossy False True True (d\<lparr>pending_bom := None, bom_resolved := True\<rparr>)
               | None \<Rightarrow> (Ok [], d))
            else (Ok [], d))" for lossy
  have fl: "flush lib e lossy i d =
      (case first lossy of
        (Ok out1, d1) \<Rightarrow>
          (case decode_bytes lib e [] lossy True i True d1 of
             (Ok out2, d2) \<Rightarrow>
               (case flush_held lib e lossy (out1 @ out2) d2 of
                  (Ok out3, d3) \<Rightarrow> (Ok out3, reset d3)
                | (r, d3) \<Rightarrow> (r, d3))
           | (r, d2) \<Rightarrow> (r, d2))
      | (r, d1) \<Rightarrow> (r, d1))" for lossy
    unfolding flush_def first_def ..
  from f obtain o1 d1 o2 d2 d3 where p: "first False = (Ok o1, d1)"
    "decode_bytes lib e [] False True i True d1 = (Ok o2, d2)"
    "flush_held lib e False (o1 @ o2) d2 = (Ok s, d3)" "d' = reset d3"
    unfolding fl by (auto split: prod.splits res.splits)
  from p(1) have "first True = (Ok o1, d1)"
    using decode_bytes_lossy [OF e] by (auto simp: first_def split: option.splits)
  with p(4) decode_bytes_lossy [OF e p(2)] flush_held_lossy [OF e p(3)] show ?thesis
    unfolding fl by simp
qed

lemma decode_lossy:
  assumes e: "encoder_of td = Utf16le \<or> encoder_of td = Utf16be" "fatal td" and d: "decode lib bs st td = (Ok s, td')"
  shows "decode lib bs st (td\<lparr>fatal := False\<rparr>) = (Ok s, td'\<lparr>fatal := False\<rparr>)"
    "encoder_of td' = encoder_of td" "fatal td'"
proof -
  note chunk = decode_chunk_lossy [OF e(1)] and fl = flush_lossy [OF e(1)]
  show "decode lib bs st (td\<lparr>fatal := False\<rparr>) = (Ok s, td'\<lparr>fatal := False\<rparr>)"
    using d e(2)
    by (auto simp: decode_def Let_def chunk fl split: if_splits prod.splits res.splits)
  show "encoder_of td' = encoder_of td" "fatal td'"
    using d e(2) by (auto simp: decode_def Let_def split: if_splits prod.splits res.splits)
qed

lemma session_lossy:
  assumes "encoder_of td = Utf16le \<or> encoder_of td = Utf16be" "fatal td" "fst (session lib cs final td) = Ok s"
  shows "fst (session lib cs final (td\<lparr>fatal := False\<rparr>)) = Ok s"
  using assms
proof (induction cs arbitrary: td s)
  case Nil
  then show ?case using decode_lossy(1) [of td lib final None s]
    by (simp add: session_def) (metis fst_conv surj_pair)
next
  case (Cons c cs)
  obtain r td1 where c: "decode lib (Some c) (Some True) td = (r, td1)" by (metis surj_pair)
  with Cons.prems(3) obtain x where r: "r = Ok x" by (cases r) (auto simp: session_def)
  note l = decode_lossy [OF Cons.prems(1,2) c [unfolded r]]
  from Cons.prems(3) c r obtain t where "fst (session lib cs final td1) = Ok t" "s = x @ t"
    by (auto simp: session_def split: prod.splits)
  with Cons.IH [of td1 t] Cons.prems(1) l show ?case
    by (auto simp: session_def split: prod.splits)
qed

section \<open>What fits into the destination of \<open>encode_into\<close>\<close>

lemma utf8_bytes_append: "utf8_bytes (s @ t) = utf8_bytes s @ utf8_bytes t"
  by (simp add: utf8_bytes_def)

lemma fit_prefix:
  "\<exists>p q. s = p @ q \<and> fit n w s = w + length (utf8_bytes p) \<and> (w \<le> n \<longrightarrow> w + length (utf8_bytes p) \<le> n)
    \<and> (q = [] \<or> w + length (utf8_bytes (p @ [hd q])) > n)"
proof (induction s arbitrary: w)
  case (Cons c s)
  show ?case
  proof (cases "w + length (utf8_encode c) > n")
    case True
    then show ?thesis by (intro exI [of _ "[]"] exI [of _ "c # s"]) (simp add: utf8_bytes_def)
  next
    case False
    from Cons [of "w + length (utf8_encode c)"] obtain p q where
      "s = p @ q" "fit n (w + length (utf8_encode c)) s = w + length (utf8_encode c) + length (utf8_bytes p)"
      "w + length (utf8_encode c) + length (utf8_bytes p) \<le> n"
      "q = [] \<or> w + length (utf8_encode c) + length (utf8_bytes (p @ [hd q])) > n"
      using False by auto
    with False show ?thesis
      by (intro exI [of _ "c # p"] exI [of _ q]) (auto simp: utf8_bytes_def)
  qed
qed simp

lemma sum_len_utf16: "sum_list (map len_utf16 s) = length (utf16_units s)"
  by (induction s) (simp_all add: len_utf16_def utf16_encode_def)

text \<open>The equations that run a decoder on a concrete input.\<close>

lemmas decode_eval = decode_def td_new_def decode_chunk_def decode_bytes_def new_decoder_def reset_def
  decode_payload_def process_bom_def starts_with_def strip_bom_def opt_bytes_def decode_utf8_like_def
  utf8_lossy.simps utf8_item_def utf8_width_def scalar_of_def utf8_rest.simps
  flush_def flush_held_def decode_utf16_stream_def utf16_loop.simps utf16_step_def utf16_body_def
  utf16_emit_def u16_of_def u16_bytes_def utf16_endian_def is_lead_def is_trail_def utf16_pair_def utf16_encode_def

section \<open>Properties\<close>

text \<open>C1: a new UTF-8 \<open>TextDecoder\<close> answers the same however the input is cut into chunks: the
  streamed calls and the final call together return what decoding the concatenation at once
  returns. Lossy decoders always answer, with replacement characters; fatal ones fail exactly when
  the concatenation is not valid UTF-8; the byte order mark is dropped unless \<open>ignoreBOM\<close> is set,
  even when it is split over chunks. No call panics.\<close>

theorem text_decoder_utf8:
  assumes "new_text_decoder label opt_fatal opt_ignore_bom = Ok td" "encoder_of td = Utf8"
  shows "answers (fst (session lib cs final td))
    (let input = concat cs @ opt_bytes final;
         body = (if ignore_bom td then input else strip_bom Utf8 input)
     in if \<not> fatal td \<or> utf8_valid body then Some (utf8_lossy body) else None)"
proof -
  from new_text_decoder_Ok [OF assms(1)] assms(2) have td: "td = td_new Utf8 (fatal td) (ignore_bom td)" by simp
  then show ?thesis
    using session_utf8 [of lib cs final "fatal td" "ignore_bom td"]
    by (auto simp: bom_whole_def utf8_payload_def Let_def)
qed

theorem text_decoder_utf8_witness:
  "fst (session rfc_codecs [[0xEF], [0xBB, 0xBF, 0xE2], [0x82]] (Some [0xAC]) (td_new Utf8 False False))
     = Ok [0x20AC]"
proof -
  have n: "new_text_decoder None None None = Ok (td_new Utf8 False False)"
    by (simp add: new_text_decoder_def from_optional_str_def td_new_def)
  have d: "utf8_lossy (strip_bom Utf8 (concat [[0xEF], [0xBB, 0xBF, 0xE2], [0x82]] @ opt_bytes (Some [0xAC]))) = [0x20AC]"
    by code_simp
  have "answers (fst (session rfc_codecs [[0xEF], [0xBB, 0xBF, 0xE2], [0x82]] (Some [0xAC]) (td_new Utf8 False False))) (Some [0x20AC])"
    using text_decoder_utf8 [OF n, of rfc_codecs "[[0xEF], [0xBB, 0xBF, 0xE2], [0x82]]" "Some [0xAC]"] d
    by (simp add: td_new_def Let_def)
  then show ?thesis by (auto simp: answers_def split: res.splits)
qed

text \<open>C2: a new fatal UTF-16 \<open>TextDecoder\<close> answers the same however the input is cut: it returns
  the text when the bytes behind the byte order mark are whole code units in which every surrogate
  is paired, and an error otherwise.\<close>

theorem text_decoder_utf16_fatal:
  assumes "e = Utf16le \<or> e = Utf16be"
  shows "answers (fst (session lib cs final (td_new e True i)))
    (let input = concat cs @ opt_bytes final;
         body = (if i then input else strip_bom e input)
     in if even (length body) then utf16_strict (chunk_units (utf16_endian e) body) else None)"
  using session_utf16_fatal [OF assms, of lib cs final i]
  by (simp add: bom_whole_def utf16_payload_def Let_def)

theorem text_decoder_utf16_fatal_witness:
  "fst (session rfc_codecs [[0xFF], [0xFE, 0x3D], [0xD8, 0xD8]] (Some [0xDC]) (td_new Utf16le True False))
     = Ok [0x1F4D8]"
proof -
  have d: "utf16_strict (chunk_units (utf16_endian Utf16le)
      (strip_bom Utf16le (concat [[0xFF], [0xFE, 0x3D], [0xD8, 0xD8]] @ opt_bytes (Some [0xDC])))) = Some [0x1F4D8]"
    "length (strip_bom Utf16le (concat [[0xFF], [0xFE, 0x3D], [0xD8, 0xD8]] @ opt_bytes (Some [0xDC]))) = 4"
    by (simp_all add: decode_eval)
  have "answers (fst (session rfc_codecs [[0xFF], [0xFE, 0x3D], [0xD8, 0xD8]] (Some [0xDC]) (td_new Utf16le True False)))
     (Some [0x1F4D8])"
    using text_decoder_utf16_fatal [of Utf16le rfc_codecs "[[0xFF], [0xFE, 0x3D], [0xD8, 0xD8]]" "Some [0xDC]" False] d
    by (simp add: Let_def)
  then show ?thesis by (auto simp: answers_def split: res.splits)
qed

text \<open>A lossy UTF-16 \<open>TextDecoder\<close> loses nothing of well-formed text: if the bytes encode the
  text \<open>s\<close>, any way of cutting them into chunks decodes to \<open>s\<close>.\<close>

theorem text_decoder_utf16_text:
  assumes "e = Utf16le \<or> e = Utf16be" "list_all is_scalar s"
    and "concat cs @ opt_bytes final = concat (map (u16_bytes (utf16_endian e)) (utf16_units s))"
  shows "fst (session lib cs final (td_new e False True)) = Ok s"
proof -
  have "bom_whole e (utf16_payload (utf16_endian e)) True (concat cs @ opt_bytes final) = Some s"
    by (simp add: bom_whole_def utf16_payload_def assms length_units_bytes chunk_units_bytes utf16_strict_units)
  with session_utf16_fatal [OF assms(1), of lib cs final True]
  have "fst (session lib cs final (td_new e True True)) = Ok s"
    by (auto simp: answers_def split: res.splits)
  from session_lossy [OF _ _ this] assms(1) show ?thesis by (simp add: td_new_def)
qed

theorem text_decoder_utf16_text_witness:
  "fst (session rfc_codecs [[0xD8, 0x3D, 0xDC], [0xD8]] (Some [0x00, 0x61]) (td_new Utf16be False True)) = Ok [0x1F4D8, 0x61]"
proof -
  have "concat [[0xD8, 0x3D, 0xDC], [0xD8]] @ opt_bytes (Some [0x00, 0x61])
      = concat (map (u16_bytes (utf16_endian Utf16be)) (utf16_units [0x1F4D8, 0x61]))"
    by (simp add: decode_eval)
  from text_decoder_utf16_text [OF _ _ this, of rfc_codecs] show ?thesis by (simp add: is_scalar_def)
qed

text \<open>A final call that succeeds leaves the \<open>TextDecoder\<close> as it was constructed, whatever was
  streamed before, so the next text starts from a clean state.\<close>

theorem text_decoder_reusable:
  assumes "decode lib final None td = (Ok s, td')"
  shows "td' = td_new (encoder_of td) (fatal td) (ignore_bom td)"
proof -
  have chunk: "decode_chunk lib e bs lossy False ign d = (Ok x, d') \<Longrightarrow> d' = new_decoder" for e bs lossy ign d x d'
    by (auto simp: decode_chunk_def split: prod.splits res.splits)
  have fl: "flush lib e lossy ign d = (Ok x, d') \<Longrightarrow> d' = new_decoder" for e lossy ign d x d'
    by (auto simp: flush_def split: prod.splits res.splits if_splits option.splits)
  from assms show ?thesis
    by (cases td) (auto simp: decode_def td_new_def Let_def split: if_splits prod.splits res.splits dest!: chunk fl)
qed

theorem text_decoder_reusable_witness:
  "snd (decode rfc_codecs (Some [0x41]) None (td_new Utf8 False False)) = td_new Utf8 False False"
proof -
  have "decode rfc_codecs (Some [0x41]) None (td_new Utf8 False False)
      = (Ok [0x41], snd (decode rfc_codecs (Some [0x41]) None (td_new Utf8 False False)))"
    by (simp add: decode_eval)
  from text_decoder_reusable [OF this] show ?thesis by (simp add: td_new_def)
qed

text \<open>C4: \<open>encodeInto\<close> never panics and writes the longest prefix of the source, in whole
  characters, that fits: \<open>written\<close> is its size in bytes, \<open>read\<close> its size in UTF-16 code units, and
  the rest of the destination is left as it was.\<close>

theorem encode_into_longest_prefix:
  assumes "list_all is_scalar src"
  shows "\<exists>p q. src = p @ q
    \<and> encode_into src dst = Some (length (utf16_units p), length (utf8_bytes p),
        utf8_bytes p @ drop (length (utf8_bytes p)) dst)
    \<and> length (utf8_bytes p) \<le> length dst
    \<and> (q = [] \<or> length dst < length (utf8_bytes (p @ [hd q])))"
proof -
  obtain p q where pq: "src = p @ q" "fit (length dst) 0 src = length (utf8_bytes p)"
    "length (utf8_bytes p) \<le> length dst" "q = [] \<or> length (utf8_bytes (p @ [hd q])) > length dst"
    using fit_prefix [of src "length dst" 0] by auto
  have "utf8_check (utf8_bytes p) = (p, length (utf8_bytes p), None)"
    using assms pq(1) by (simp add: utf8_check_bytes)
  with pq(3) have "encode_into src dst = Some (length (utf16_units p), length (utf8_bytes p),
        utf8_bytes p @ drop (length (utf8_bytes p)) dst)"
    unfolding encode_into_def Let_def pq(2) by (simp add: pq(1) utf8_bytes_append sum_len_utf16)
  with pq show ?thesis by auto
qed

theorem encode_into_longest_prefix_witness:
  "\<exists>p q. [0x61, 0x1F4D8] = p @ q
    \<and> encode_into [0x61, 0x1F4D8] [0, 0, 0] = Some (length (utf16_units p), length (utf8_bytes p),
        utf8_bytes p @ drop (length (utf8_bytes p)) [0, 0, 0])
    \<and> length (utf8_bytes p) \<le> length [0 :: byte, 0, 0]
    \<and> (q = [] \<or> length [0 :: byte, 0, 0] < length (utf8_bytes (p @ [hd q])))"
  by (rule encode_into_longest_prefix) (simp add: is_scalar_def)

section \<open>Where lossy UTF-16 depends on the chunks\<close>

text \<open>
  An unpaired lead surrogate followed by a pair: the code units D83D D83D DCD8. Decoded as one
  chunk the pair is lost too (three replacement characters); cut behind the first unit it
  survives. Fatal decoding rejects both.
\<close>

lemma lossy_utf16_depends_on_chunks:
  "fst (session rfc_codecs [] (Some [0x3D, 0xD8, 0x3D, 0xD8, 0xD8, 0xDC]) (td_new Utf16le False True))
     = Ok [0xFFFD, 0xFFFD, 0xFFFD]"
  "fst (session rfc_codecs [[0x3D, 0xD8]] (Some [0x3D, 0xD8, 0xD8, 0xDC]) (td_new Utf16le False True))
     = Ok [0xFFFD, 0x1F4D8]"
  by (simp_all add: session_def decode_eval REPLACEMENT_def)

end
