(* ===== verification/String_Decoder.thy ===== *)
theory String_Decoder
  imports Incremental_Decoder
begin

text \<open>
  Model of src/modules/raster_runtime_string_decoder/src/string_decoder.rs, Node's
  \<open>StringDecoder\<close>: the tail of a chunk that may belong to an unfinished character is held back.
\<close>

unbundle bit_operations_syntax

section \<open>State and operations\<close>

record string_decoder =
  sd_encoder :: encoder
  buffer :: "byte list"
  buffered_bytes :: nat
  missing_bytes :: nat

definition new_string_decoder :: "string option \<Rightarrow> (string, string_decoder) res" where
  "new_string_decoder encoding =
     (let label = (case encoding of Some l \<Rightarrow> l | None \<Rightarrow> ''utf-8'')
      in case from_str label of
           Ok e \<Rightarrow> Ok \<lparr>sd_encoder = e, buffer = [], buffered_bytes = 0, missing_bytes = 0\<rparr>
         | Err m \<Rightarrow> Err (''Unknown encoding: '' @ label)
         | Panic \<Rightarrow> Panic)"

definition make_string :: "codecs \<Rightarrow> byte list \<Rightarrow> string_decoder \<Rightarrow> (string, rstring) res" where
  "make_string lib data sd =
     (case encode_to_string lib (sd_encoder sd) data True of
        Ok s \<Rightarrow> Ok s
      | Err m \<Rightarrow> Err ''Encoding error''
      | Panic \<Rightarrow> Panic)"

text \<open>The first of at most \<open>missing_bytes\<close> bytes that is no continuation byte.\<close>

fun first_noncont :: "nat \<Rightarrow> byte list \<Rightarrow> nat option" where
  "first_noncont (Suc m) (d # ds) =
     (if d AND 0xC0 \<noteq> 0x80 then Some 0 else map_option Suc (first_noncont m ds))"
| "first_noncont m ds = None"

text \<open>The alignment loops before the missing bytes are taken from the new chunk.\<close>

definition align_missing :: "byte list \<Rightarrow> string_decoder \<Rightarrow> string_decoder \<times> byte list" where
  "align_missing data sd =
     (if sd_encoder sd = Utf8 then
        (case first_noncont (missing_bytes sd) data of
           Some i \<Rightarrow> (sd\<lparr>missing_bytes := 0, buffer := buffer sd @ take i data,
                        buffered_bytes := buffered_bytes sd + i\<rparr>, drop i data)
         | None \<Rightarrow> (sd, data))
      else if sd_encoder sd = Utf16le then
        (if list_ex (\<lambda>d. d AND 0xFC = 0xD8) (take (missing_bytes sd) data)
         then (sd\<lparr>missing_bytes := 3\<rparr>, data) else (sd, data))
      else (sd, data))"

text \<open>Lines 39 to 86: finish the character of the previous chunk.\<close>

definition finish_previous ::
    "codecs \<Rightarrow> byte list \<Rightarrow> string_decoder \<Rightarrow> (string, rstring) res \<times> string_decoder \<times> byte list" where
  "finish_previous lib data sd =
     (if 0 < missing_bytes sd then
        let (sd1, data1) = align_missing data sd;
            found_bytes = min (length data1) (missing_bytes sd1);
            sd2 = sd1\<lparr>buffer := buffer sd1 @ take found_bytes data1,
                      missing_bytes := missing_bytes sd1 - found_bytes,
                      buffered_bytes := buffered_bytes sd1 + found_bytes\<rparr>;
            data2 = drop found_bytes data1
        in if missing_bytes sd2 = 0
           then case make_string lib (buffer sd2) sd2 of
                  Ok s \<Rightarrow> (Ok s, sd2\<lparr>buffer := [], buffered_bytes := 0\<rparr>, data2)
                | r \<Rightarrow> (r, sd2, data2)
           else (Ok [], sd2, data2)
      else (Ok [], sd, data))"

definition lead_len :: "byte \<Rightarrow> nat" where
  "lead_len d =
     (if d AND 0xE0 = 0xC0 then 2 else if d AND 0xF0 = 0xE0 then 3 else if d AND 0xF8 = 0xF0 then 4 else 0)"

text \<open>
  The \<open>loop\<close> that walks back from the end of the chunk; the first argument is the part of the
  chunk up to and including position \<open>i\<close>, reversed.
\<close>

fun utf8_scan :: "byte list \<Rightarrow> string_decoder \<Rightarrow> string_decoder" where
  "utf8_scan [] sd = sd"
| "utf8_scan (d # before) sd =
     (let n = buffered_bytes sd + 1
      in if d AND 0xC0 = 0x80 then
           if 4 \<le> n \<or> before = [] then sd\<lparr>buffer := [], buffered_bytes := 0\<rparr>
           else utf8_scan before (sd\<lparr>buffered_bytes := n\<rparr>)
         else if lead_len d = 0 then sd\<lparr>buffered_bytes := 0\<rparr>
         else if lead_len d \<le> n then sd\<lparr>missing_bytes := 0, buffered_bytes := 0\<rparr>
         else sd\<lparr>missing_bytes := lead_len d - n, buffered_bytes := n\<rparr>)"

text \<open>Lines 97 to 172: how many bytes at the end of a non-empty chunk to hold back.\<close>

definition cut_off :: "byte list \<Rightarrow> string_decoder \<Rightarrow> string_decoder" where
  "cut_off data sd =
     (let n = length data
      in if sd_encoder sd = Utf8 \<and> last data AND 0x80 \<noteq> 0 then utf8_scan (rev data) sd
         else if sd_encoder sd = Utf16le then
           if n mod 2 = 1 then
             if 3 \<le> n \<and> data ! (n - 2) AND 0xFC = 0xD8
             then sd\<lparr>buffered_bytes := 3, missing_bytes := 1\<rparr>
             else sd\<lparr>buffered_bytes := 1, missing_bytes := 1\<rparr>
           else if last data AND 0xFC = 0xD8 then sd\<lparr>buffered_bytes := 2, missing_bytes := 2\<rparr>
           else sd
         else if sd_encoder sd = Base64 then
           (let b = n mod 3
            in if 0 < b then sd\<lparr>buffered_bytes := b, missing_bytes := 3 - b\<rparr> else sd\<lparr>buffered_bytes := b\<rparr>)
         else sd)"

definition decode_data ::
    "codecs \<Rightarrow> byte list \<Rightarrow> string_decoder \<Rightarrow> (string, rstring) res \<times> string_decoder" where
  "decode_data lib data sd =
     (if sd_encoder sd \<in> {Utf8, Utf16le, Base64} then
        (case finish_previous lib data sd of
           (Ok result, sd1, data1) \<Rightarrow>
             if data1 = [] then (Ok result, sd1)
             else
               let sd2 = cut_off data1 sd1;
                   b = buffered_bytes sd2
               in if 0 < b then
                    (case usub (length data1) b of
                       None \<Rightarrow> (Panic, sd2)
                     | Some k \<Rightarrow>
                         let sd3 = sd2\<lparr>buffer := buffer sd2 @ drop k data1\<rparr>;
                             data2 = take k data1
                         in if data2 = [] then (Ok result, sd3)
                            else (rmap ((@) result) (make_string lib data2 sd3), sd3))
                  else (rmap ((@) result) (make_string lib data1 sd2), sd2)
         | (r, sd1, data1) \<Rightarrow> (r, sd1))
      else (make_string lib data sd, sd))"

definition flush_sd :: "codecs \<Rightarrow> string_decoder \<Rightarrow> (string, rstring) res \<times> string_decoder" where
  "flush_sd lib sd =
     (let odd_tail = (sd_encoder sd = Utf16le \<and> buffered_bytes sd mod 2 = 1)
      in case (if odd_tail then
                 (case (usub (missing_bytes sd) 1, usub (buffered_bytes sd) 1) of
                    (Some m, Some b) \<Rightarrow> Some (sd\<lparr>missing_bytes := m, buffered_bytes := b\<rparr>)
                  | _ \<Rightarrow> None)
               else Some sd) of
           None \<Rightarrow> (Panic, sd)
         | Some sd1 \<Rightarrow>
             if buffered_bytes sd1 = 0 then (Ok [], sd1)
             else (make_string lib (buffer sd1) sd1,
                   sd1\<lparr>missing_bytes := 0, buffered_bytes := 0, buffer := []\<rparr>))"

definition end_sd ::
    "codecs \<Rightarrow> byte list option \<Rightarrow> string_decoder \<Rightarrow> (string, rstring) res \<times> string_decoder" where
  "end_sd lib data sd =
     (case data of
        Some bs \<Rightarrow>
          (case decode_data lib bs sd of
             (Ok out, sd1) \<Rightarrow> (case flush_sd lib sd1 of (r, sd2) \<Rightarrow> (rmap ((@) out) r, sd2))
           | (r, sd1) \<Rightarrow> (r, sd1))
      | None \<Rightarrow> flush_sd lib sd)"

text \<open>\<open>write\<close> throws on a detached buffer (\<open>None\<close>).\<close>

definition write_sd ::
    "codecs \<Rightarrow> byte list option \<Rightarrow> string_decoder \<Rightarrow> (string, rstring) res \<times> string_decoder" where
  "write_sd lib data sd =
     (case data of
        Some bs \<Rightarrow> decode_data lib bs sd
      | None \<Rightarrow> (Err ''Buffer has already been used'', sd))"

section \<open>Lead and continuation bytes\<close>

lemma div_mult_eq_iff:
  fixes n k c :: nat
  assumes "0 < k"
  shows "n div k * k = k * c \<longleftrightarrow> k * c \<le> n \<and> n < k * c + k"
proof
  assume "n div k * k = k * c"
  then show "k * c \<le> n \<and> n < k * c + k"
    using div_mult_mod_eq [of n k] mod_less_divisor [OF assms, of n] by linarith
next
  assume "k * c \<le> n \<and> n < k * c + k"
  then have "n div k = c" by (intro div_nat_eqI) (simp_all add: ac_simps)
  then show "n div k * k = k * c" by simp
qed

lemma byte_masks:
  fixes d :: byte
  shows "d AND 0x80 = 0 \<longleftrightarrow> unat d < 128" "d AND 0xC0 = 0x80 \<longleftrightarrow> 128 \<le> unat d \<and> unat d < 192"
    "d AND 0xE0 = 0xC0 \<longleftrightarrow> 192 \<le> unat d \<and> unat d < 224"
    "d AND 0xF0 = 0xE0 \<longleftrightarrow> 224 \<le> unat d \<and> unat d < 240"
    "d AND 0xF8 = 0xF0 \<longleftrightarrow> 240 \<le> unat d \<and> unat d < 248"
  using div_mult_eq_iff [of 128 "unat d" 0] div_mult_eq_iff [of 64 "unat d" 2] div_mult_eq_iff [of 32 "unat d" 6]
    div_mult_eq_iff [of 16 "unat d" 14] div_mult_eq_iff [of 8 "unat d" 30]
  by (simp_all add: word_unat_eq_iff high_bits)

lemma cont_mask: "d AND 0xC0 = 0x80 \<longleftrightarrow> is_cont d"
  by (auto simp: byte_masks is_cont_def word_le_nat_alt)

lemma high_mask: "d AND 0x80 = 0 \<longleftrightarrow> d < (0x80 :: byte)"
  by (simp add: byte_masks word_less_nat_alt)

lemma lead_len_width: "1 < utf8_width d \<Longrightarrow> lead_len d = utf8_width d"
  by (auto simp: lead_len_def utf8_width_def byte_masks word_le_nat_alt word_less_nat_alt split: if_splits)

lemma lead_not_cont: "1 < utf8_width d \<Longrightarrow> \<not> is_cont d"
  by (auto simp: utf8_width_def is_cont_def word_le_nat_alt word_less_nat_alt split: if_splits)

text \<open>A suffix of \<open>xs\<close> that a decoder may have to hold back.\<close>

definition open_suffix :: "byte list \<Rightarrow> byte list \<Rightarrow> bool" where
  "open_suffix xs q \<longleftrightarrow>
     (\<exists>p b r. xs = p @ q \<and> q = b # r \<and> \<not> is_cont b \<and> list_all is_cont r \<and> length q < lead_len b)"

lemma tail_open_suffix: "utf8_tail xs \<noteq> [] \<Longrightarrow> open_suffix xs (utf8_tail xs)"
proof -
  assume "utf8_tail xs \<noteq> []"
  then obtain b r where t: "utf8_tail xs = b # r" by (cases "utf8_tail xs") auto
  from utf8_tail_shape [OF t] have s: "Suc (length r) < utf8_width b" "list_all is_cont r" "\<exists>p. xs = p @ b # r"
    by auto
  then have "1 < utf8_width b" by linarith
  with s t lead_len_width lead_not_cont show ?thesis by (auto simp: open_suffix_def)
qed

text \<open>The last byte that is no continuation byte decides.\<close>

lemma last_lead_unique:
  "p @ b # r = p' @ b' # r' \<Longrightarrow> \<not> is_cont b \<Longrightarrow> \<not> is_cont b' \<Longrightarrow> list_all is_cont r \<Longrightarrow> list_all is_cont r'
    \<Longrightarrow> b = b' \<and> r = r'"
proof (induction r arbitrary: r' rule: rev_induct)
  case Nil
  then show ?case by (cases r' rule: rev_cases) auto
next
  case (snoc x r)
  then show ?case by (cases r' rule: rev_cases) auto
qed

lemma complete_char:
  assumes "\<not> is_cont b" "list_all is_cont r" "lead_len b \<le> Suc (length r)"
  shows "utf8_tail (p @ b # r) = []"
proof (rule ccontr)
  assume "utf8_tail (p @ b # r) \<noteq> []"
  from tail_open_suffix [OF this] obtain p' b' r' where "p @ b # r = p' @ b' # r'" "\<not> is_cont b'"
    "list_all is_cont r'" "Suc (length r') < lead_len b'"
    unfolding open_suffix_def by (metis length_Cons)
  with last_lead_unique [of p b r p' b' r'] assms show False by auto
qed

section \<open>Where lossy decoding may be cut\<close>

text \<open>Behind a complete input, or before a byte that is no continuation byte.\<close>

definition splits :: "byte list \<Rightarrow> byte list \<Rightarrow> bool" where
  "splits p q \<longleftrightarrow> utf8_tail p = [] \<or> (q \<noteq> [] \<and> \<not> is_cont (hd q))"

lemma utf8_rest_stop:
  "utf8_rest w k r = Truncated \<Longrightarrow> \<not> is_cont x \<Longrightarrow> utf8_rest w k (r @ x # t) = Invalid (k + length r)"
proof (induction w k r rule: utf8_rest.induct)
  case (1 w k r)
  from "1.prems" have k: "\<not> w \<le> k" by (auto simp: utf8_rest.simps [of w k])
  show ?case
  proof (cases r)
    case Nil
    with k "1.prems" show ?thesis by (simp add: utf8_rest.simps [of w k])
  next
    case (Cons b r')
    with k "1.prems" have c: "is_cont b" "utf8_rest w (Suc k) r' = Truncated"
      by (auto simp: utf8_rest.simps [of w k] split: if_splits)
    from "1.IH" [OF k Cons c "1.prems"(2)] k c Cons show ?thesis by (simp add: utf8_rest.simps [of w k])
  qed
qed

lemma utf8_item_stop:
  assumes "utf8_item b r = Truncated" "\<not> is_cont x"
  shows "utf8_item b (r @ x # t) = Invalid (Suc (length r))"
proof (cases r)
  case Nil
  with assms show ?thesis using ok_second_cont by (auto simp: utf8_item_def Let_def split: if_splits)
next
  case (Cons b1 r')
  with assms have "utf8_rest (utf8_width b) 2 r' = Truncated" "ok_second b b1" "utf8_width b \<noteq> 0" "utf8_width b \<noteq> 1"
    by (auto simp: utf8_item_def Let_def split: if_splits)
  with utf8_rest_stop [of "utf8_width b" 2 r' x t] assms(2) Cons show ?thesis
    by (simp add: utf8_item_def Let_def)
qed

lemma lossy_splits:
  assumes "splits p q"
  shows "utf8_lossy (p @ q) = utf8_lossy p @ utf8_lossy q"
proof (cases "utf8_tail p = []")
  case True
  then show ?thesis by (rule utf8_complete_append)
next
  case False
  then obtain b r where t: "utf8_tail p = b # r" and i: "utf8_item b r = Truncated"
    using utf8_tail_truncated [of p] by auto
  obtain x q' where q: "q = x # q'" "\<not> is_cont x" using assms False by (cases q) (auto simp: splits_def)
  have "utf8_lossy (b # r @ x # q') = REPLACEMENT # utf8_lossy (x # q')"
    using utf8_item_stop [OF i q(2), of q'] by (subst utf8_lossy.simps(2)) simp
  with t q False show ?thesis by (simp add: utf8_lossy_append utf8_lossy_split [of p])
qed

section \<open>UTF-8: what is held back\<close>

lemma utf8_scan_spec:
  assumes "list_all is_cont c" "length c \<le> 3" "buffered_bytes sd = length c" "missing_bytes sd = 0" "buffer sd = []"
    and "ds \<noteq> []" "sd' = utf8_scan ds sd"
  shows "sd_encoder sd' = sd_encoder sd \<and> buffer sd' = [] \<and>
    (if buffered_bytes sd' = 0 then missing_bytes sd' = 0 \<and> (\<forall>q. \<not> open_suffix (rev ds @ c) q)
     else \<exists>b r. open_suffix (rev ds @ c) (b # r) \<and> buffered_bytes sd' = Suc (length r)
       \<and> missing_bytes sd' = lead_len b - Suc (length r))"
  using assms
proof (induction ds arbitrary: c sd)
  case (Cons d ds)
  have lead4: "lead_len b \<le> 4" for b by (simp add: lead_len_def)
  have noopen: "\<not> open_suffix (p @ c') q" if "list_all is_cont c'" "4 \<le> length c' \<or> p = []" for p c' q
  proof
    assume "open_suffix (p @ c') q"
    then obtain p' b r where o: "p @ c' = p' @ b # r" "\<not> is_cont b" "length (b # r) < lead_len b"
      by (auto simp: open_suffix_def)
    with that lead4 [of b] have len: "length (b # r) \<le> length c' \<or> p = []" by auto
    have "b \<in> set c'" if l: "length (b # r) \<le> length c'"
    proof -
      from arg_cong [OF o(1), of length] l have "length p \<le> length p'" by simp
      with arg_cong [OF o(1), of "drop (length p)"] have "c' = drop (length p) p' @ b # r" by simp
      then show ?thesis by simp
    qed
    moreover have "b \<in> set c'" if "p = []" using o(1) that by simp
    ultimately have "b \<in> set c'" using len by blast
    with \<open>list_all is_cont c'\<close> o(2) show False by (auto simp: list_all_iff)
  qed
  show ?case
  proof (cases "is_cont d")
    case True
    show ?thesis
    proof (cases "4 \<le> Suc (length c) \<or> ds = []")
      case stop: True
      then have "sd' = sd\<lparr>buffer := [], buffered_bytes := 0\<rparr>"
        using True Cons.prems(3,7) by (auto simp: Let_def cont_mask)
      moreover have "\<not> open_suffix (rev (d # ds) @ c) q" for q
        using noopen [of "d # c" "rev ds" q] stop True Cons.prems(1) by auto
      ultimately show ?thesis using Cons.prems(4) by simp
    next
      case False
      let ?sd = "sd\<lparr>buffered_bytes := Suc (length c)\<rparr>"
      have "sd' = utf8_scan ds ?sd"
        using False True Cons.prems(3,7) by (simp add: Let_def cont_mask)
      from Cons.IH [of "d # c" ?sd, OF _ _ _ _ _ _ this] False True Cons.prems(1-6) show ?thesis by simp
    qed
  next
    case False
    have op: "open_suffix (rev (d # ds) @ c) q \<longleftrightarrow> q = d # c \<and> Suc (length c) < lead_len d" for q
    proof
      assume "open_suffix (rev (d # ds) @ c) q"
      then obtain p b r where "rev ds @ d # c = p @ b # r" "q = b # r" "\<not> is_cont b" "list_all is_cont r"
        "length q < lead_len b"
        by (auto simp: open_suffix_def)
      with last_lead_unique [of "rev ds" d c p b r] False Cons.prems(1)
      show "q = d # c \<and> Suc (length c) < lead_len d" by auto
    next
      assume "q = d # c \<and> Suc (length c) < lead_len d"
      with False Cons.prems(1) show "open_suffix (rev (d # ds) @ c) q" by (auto simp: open_suffix_def)
    qed
    show ?thesis
      using False Cons.prems(3,4,5,7) by (simp only: op) (simp add: Let_def cont_mask)
  qed
qed simp

lemma no_open_suffix_complete:
  assumes "splits p data" "\<forall>q. \<not> open_suffix data q"
  shows "utf8_tail (p @ data) = []"
proof (rule ccontr)
  assume n: "utf8_tail (p @ data) \<noteq> []"
  show False
  proof (cases "utf8_tail p = []")
    case True
    with n have "utf8_tail data \<noteq> []" using utf8_tail_append [of p data] by simp
    from tail_open_suffix [OF this] assms(2) show False by blast
  next
    case False
    with assms(1) obtain x d where d: "data = x # d" "\<not> is_cont x" by (cases data) (auto simp: splits_def)
    from tail_open_suffix [OF n] obtain p' b r where o: "p @ data = p' @ b # r" "\<not> is_cont b" "list_all is_cont r"
      "length (b # r) < lead_len b" unfolding open_suffix_def by metis
    show False
    proof (cases "length p \<le> length p'")
      case True
      from arg_cong [OF o(1), of "drop (length p)"] True have "data = drop (length p) p' @ b # r" by simp
      with o(2-4) have "open_suffix data (b # r)" unfolding open_suffix_def by blast
      with assms(2) show False by blast
    next
      case False
      from arg_cong [OF o(1), of "drop (Suc (length p'))"] False have "r = drop (Suc (length p')) p @ x # d"
        by (simp add: d)
      with o(3) d(2) show False by simp
    qed
  qed
qed

lemma cut_off_utf8:
  assumes "data \<noteq> []" "sd_encoder sd = Utf8" "buffer sd = []" "buffered_bytes sd = 0" "missing_bytes sd = 0"
    and "sd' = cut_off data sd"
  shows "sd_encoder sd' = Utf8 \<and> buffer sd' = [] \<and>
    (if buffered_bytes sd' = 0 then missing_bytes sd' = 0 \<and> (\<forall>q. \<not> open_suffix data q)
     else \<exists>b r. open_suffix data (b # r) \<and> buffered_bytes sd' = Suc (length r)
       \<and> missing_bytes sd' = lead_len b - Suc (length r))"
proof (cases "last data AND 0x80 = 0")
  case True
  have "\<not> open_suffix data q" for q
  proof
    assume "open_suffix data q"
    then obtain p b r where o: "data = p @ b # r" "list_all is_cont r" "Suc (length r) < lead_len b"
      by (auto simp: open_suffix_def)
    then have "192 \<le> unat b" by (auto simp: lead_len_def byte_masks split: if_splits)
    moreover have "128 \<le> unat x" if "x \<in> set r" for x
      using o(2) that by (auto simp: list_all_iff is_cont_def word_le_nat_alt)
    ultimately have "128 \<le> unat (last data)" using o(1) by (cases r rule: rev_cases) auto
    with True show False by (simp add: byte_masks)
  qed
  with True assms show ?thesis by (simp add: cut_off_def)
next
  case False
  with assms have "sd' = utf8_scan (rev data) sd" by (simp add: cut_off_def)
  from utf8_scan_spec [of "[]" sd "rev data", OF _ _ _ _ _ _ this, unfolded rev_rev_ident append_Nil2] assms(1-5)
  show ?thesis by simp
qed

section \<open>UTF-8: the chunked decoder\<close>

definition held_char :: "byte list \<Rightarrow> nat \<Rightarrow> bool" where
  "held_char buf missing \<longleftrightarrow>
     (\<exists>b r. buf = b # r \<and> \<not> is_cont b \<and> list_all is_cont r \<and> 0 < missing \<and> length buf + missing = lead_len b)"

definition sd_rep :: "byte list \<Rightarrow> rstring \<Rightarrow> string_decoder \<Rightarrow> bool" where
  "sd_rep a out sd \<longleftrightarrow>
     sd_encoder sd = Utf8 \<and> buffered_bytes sd = length (buffer sd)
     \<and> (\<exists>p. a = p @ buffer sd \<and> out = utf8_lossy p
         \<and> (buffer sd = [] \<and> missing_bytes sd = 0 \<and> utf8_tail p = [] \<or> held_char (buffer sd) (missing_bytes sd)))"

definition sd_idle :: "string_decoder \<Rightarrow> bool" where
  "sd_idle sd \<longleftrightarrow> sd_encoder sd = Utf8 \<and> buffer sd = [] \<and> buffered_bytes sd = 0 \<and> missing_bytes sd = 0"

lemma first_noncont_Some:
  "first_noncont m ds = Some i \<Longrightarrow> i < m \<and> i < length ds \<and> \<not> is_cont (ds ! i) \<and> list_all is_cont (take i ds)"
  by (induction m ds arbitrary: i rule: first_noncont.induct) (auto simp: cont_mask split: if_splits)

lemma first_noncont_None: "first_noncont m ds = None \<Longrightarrow> list_all is_cont (take m ds)"
  by (induction m ds rule: first_noncont.induct) (auto simp: cont_mask split: if_splits)

lemma make_string_utf8: "sd_encoder sd = Utf8 \<Longrightarrow> make_string lib bs sd = Ok (utf8_lossy bs)"
  by (simp add: make_string_def)

lemma finish_previous_utf8:
  assumes rep: "sd_rep a out sd" and f: "finish_previous lib c sd = (r, sd1, data)"
  shows "\<exists>res. r = Ok res \<and>
    (data = [] \<and> sd_rep (a @ c) (out @ res) sd1
     \<or> data \<noteq> [] \<and> sd_idle sd1 \<and> (\<exists>p. a @ c = p @ data \<and> out @ res = utf8_lossy p \<and> splits p data))"
proof -
  obtain p where p: "sd_encoder sd = Utf8" "buffered_bytes sd = length (buffer sd)" "a = p @ buffer sd" "out = utf8_lossy p"
    "buffer sd = [] \<and> missing_bytes sd = 0 \<and> utf8_tail p = [] \<or> held_char (buffer sd) (missing_bytes sd)"
    using rep by (auto simp: sd_rep_def)
  show ?thesis
  proof (cases "missing_bytes sd = 0")
    case True
    with p(5) have "buffer sd = []" "utf8_tail p = []" by (auto simp: held_char_def)
    with True f p show ?thesis
      by (cases "c = []") (auto simp: finish_previous_def sd_idle_def sd_rep_def splits_def)
  next
    case False
    with p(5) have "held_char (buffer sd) (missing_bytes sd)" by simp
    then obtain b r0 where h: "buffer sd = b # r0" "\<not> is_cont b" "list_all is_cont r0"
      "length (buffer sd) + missing_bytes sd = lead_len b" by (auto simp: held_char_def)
    have cut: "utf8_lossy (p @ b # t) = utf8_lossy p @ utf8_lossy (b # t)" for t
      by (rule lossy_splits) (simp add: splits_def h(2))
    show ?thesis
    proof (cases "first_noncont (missing_bytes sd) c")
      case (Some i)
      note i = first_noncont_Some [OF Some]
      then have "drop i c \<noteq> []" "\<not> is_cont (hd (drop i c))" by (auto simp: hd_drop_conv_nth)
      moreover have "r = Ok (utf8_lossy (buffer sd @ take i c))" "data = drop i c" "sd_idle sd1"
        using f False Some p(1) by (auto simp: finish_previous_def align_missing_def Let_def make_string_utf8 sd_idle_def)
      moreover have "a @ c = (p @ b # r0 @ take i c) @ drop i c" by (simp add: p(3) h(1))
      ultimately show ?thesis
        using cut [of "r0 @ take i c"] h(1) p(4)
        by (intro exI [of _ "utf8_lossy (buffer sd @ take i c)"] conjI disjI2 exI [of _ "p @ b # r0 @ take i c"])
          (simp_all add: splits_def)
    next
      case None
      note conts = first_noncont_None [OF None]
      let ?k = "min (length c) (missing_bytes sd)"
      show ?thesis
      proof (cases "length c < missing_bytes sd")
        case True
        then have "r = Ok []" "data = []" "sd1 = sd\<lparr>buffer := buffer sd @ c, missing_bytes := missing_bytes sd - length c,
            buffered_bytes := buffered_bytes sd + length c\<rparr>"
          using f False None p(1) by (auto simp: finish_previous_def align_missing_def Let_def)
        moreover have "held_char (buffer sd @ c) (missing_bytes sd - length c)"
          using True h conts by (auto simp: held_char_def)
        ultimately show ?thesis using p by (auto simp: sd_rep_def)
      next
        case full: False
        let ?m = "missing_bytes sd"
        have r: "r = Ok (utf8_lossy (buffer sd @ take ?m c))" "data = drop ?m c" "sd_idle sd1"
          using f False None p(1) full
          by (auto simp: finish_previous_def align_missing_def Let_def make_string_utf8 sd_idle_def)
        have t: "utf8_tail (p @ b # r0 @ take ?m c) = []"
          using complete_char [of b "r0 @ take ?m c" p] h conts full by simp
        have "a @ c = (p @ b # r0 @ take ?m c) @ drop ?m c" by (simp add: p(3) h(1))
        with r t cut [of "r0 @ take ?m c"] h(1) p(4)
        have "sd_rep (a @ c) (out @ utf8_lossy (buffer sd @ take ?m c)) sd1" if "drop ?m c = []"
          using that unfolding sd_rep_def sd_idle_def by (intro conjI exI [of _ "a @ c"]) auto
        moreover have "\<exists>q. a @ c = q @ data \<and> out @ utf8_lossy (buffer sd @ take ?m c) = utf8_lossy q \<and> splits q data"
          using \<open>a @ c = _\<close> r t cut [of "r0 @ take ?m c"] h(1) p(4)
          by (intro exI [of _ "p @ b # r0 @ take ?m c"]) (simp add: splits_def)
        ultimately show ?thesis using r by blast
      qed
    qed
  qed
qed

lemma sd_feed_utf8:
  assumes "sd_rep a out sd"
  shows "\<exists>x sd'. write_sd lib (Some c) sd = (Ok x, sd') \<and> sd_rep (a @ c) (out @ x) sd'"
proof -
  have enc: "sd_encoder sd = Utf8" using assms by (simp add: sd_rep_def)
  obtain r sd1 data where f: "finish_previous lib c sd = (r, sd1, data)" by (metis surj_pair)
  from finish_previous_utf8 [OF assms f] obtain res where r: "r = Ok res"
    and cases: "data = [] \<and> sd_rep (a @ c) (out @ res) sd1
     \<or> data \<noteq> [] \<and> sd_idle sd1 \<and> (\<exists>p. a @ c = p @ data \<and> out @ res = utf8_lossy p \<and> splits p data)" by blast
  show ?thesis
  proof (cases "data = []")
    case True
    with cases f r enc show ?thesis by (simp add: write_sd_def decode_data_def)
  next
    case False
    with cases obtain p where p: "sd_idle sd1" "a @ c = p @ data" "out @ res = utf8_lossy p" "splits p data" by blast
    let ?sd2 = "cut_off data sd1"
    have spec: "sd_encoder ?sd2 = Utf8 \<and> buffer ?sd2 = [] \<and>
      (if buffered_bytes ?sd2 = 0 then missing_bytes ?sd2 = 0 \<and> (\<forall>q. \<not> open_suffix data q)
       else \<exists>b r. open_suffix data (b # r) \<and> buffered_bytes ?sd2 = Suc (length r)
         \<and> missing_bytes ?sd2 = lead_len b - Suc (length r))"
      using cut_off_utf8 [OF False _ _ _ _ refl, of sd1] p(1) by (simp add: sd_idle_def)
    show ?thesis
    proof (cases "buffered_bytes ?sd2 = 0")
      case True
      with spec have s2: "missing_bytes ?sd2 = 0" "\<forall>q. \<not> open_suffix data q" by simp_all
      have "utf8_lossy (p @ data) = out @ res @ utf8_lossy data" using lossy_splits [OF p(4)] p(3) by simp
      moreover have "utf8_tail (p @ data) = []" by (rule no_open_suffix_complete [OF p(4) s2(2)])
      ultimately have "sd_rep (a @ c) (out @ res @ utf8_lossy data) ?sd2"
        using spec True s2(1) p(2) unfolding sd_rep_def by (intro conjI exI [of _ "p @ data"]) simp_all
      with True False spec f r enc show ?thesis
        by (simp add: write_sd_def decode_data_def Let_def make_string_utf8)
    next
      case held: False
      with spec obtain b t where o: "open_suffix data (b # t)" "buffered_bytes ?sd2 = Suc (length t)"
        "missing_bytes ?sd2 = lead_len b - Suc (length t)" by auto
      then obtain d0 where d0: "data = d0 @ b # t" "\<not> is_cont b" "list_all is_cont t" "Suc (length t) < lead_len b"
        by (auto simp: open_suffix_def)
      let ?sd3 = "?sd2\<lparr>buffer := b # t\<rparr>"
      have k: "usub (length data) (Suc (length t)) = Some (length d0)" by (simp add: d0(1))
      have run: "write_sd lib (Some c) sd = (Ok (res @ utf8_lossy d0), ?sd3)"
        using False held f r enc spec o(2) k
        by (simp add: write_sd_def decode_data_def Let_def make_string_utf8 d0(1))
      have "splits p d0" if "d0 \<noteq> []" using p(4) that by (auto simp: splits_def d0(1))
      then have "utf8_lossy (p @ d0) = utf8_lossy p @ utf8_lossy d0" using lossy_splits by (cases "d0 = []") auto
      then have "sd_rep (a @ c) (out @ res @ utf8_lossy d0) ?sd3"
        using spec o d0 p(2,3) unfolding sd_rep_def held_char_def
        by (intro conjI exI [of _ "p @ d0"]) (auto simp: append_assoc [symmetric] simp del: append_assoc)
      with run show ?thesis by blast
    qed
  qed
qed

lemma sd_fin_utf8:
  assumes "sd_rep a out sd"
  shows "answers (rmap ((@) out) (fst (end_sd lib None sd))) (Some (utf8_lossy a))"
proof -
  obtain p where p: "sd_encoder sd = Utf8" "buffered_bytes sd = length (buffer sd)" "a = p @ buffer sd" "out = utf8_lossy p"
    "buffer sd = [] \<or> held_char (buffer sd) (missing_bytes sd)"
    using assms by (auto simp: sd_rep_def)
  have "splits p (buffer sd)" if "buffer sd \<noteq> []" using p(5) that by (auto simp: splits_def held_char_def)
  with p lossy_splits [of p "buffer sd"] show ?thesis
    by (cases "buffer sd = []") (auto simp: end_sd_def flush_sd_def make_string_utf8)
qed

interpretation sd_utf8: chunked_decoder "\<lambda>c. write_sd lib (Some c)" "end_sd lib None" "\<lambda>a. Some (utf8_lossy a)" sd_rep
  for lib
proof (unfold_locales, goal_cases)
  case (1 a out sd c x sd')
  with sd_feed_utf8 [OF 1(1), of lib c] show ?case by auto
next
  case (2 a out sd c m sd' b)
  with sd_feed_utf8 [OF 2(1), of lib c] show ?case by auto
next
  case (3 a out sd c)
  with sd_feed_utf8 [OF 3, of lib c] show ?case by auto
next
  case (4 a out sd)
  then show ?case by (rule sd_fin_utf8)
qed

section \<open>Base64: the chunked decoder\<close>

text \<open>What is used of the base64 encoder: whole groups of three bytes are encoded independently.\<close>

definition b64_groups :: "codecs \<Rightarrow> bool" where
  "b64_groups lib \<longleftrightarrow>
     b64_encode_to_string lib [] = []
     \<and> (\<forall>a b. length a mod 3 = 0 \<longrightarrow>
          b64_encode_to_string lib (a @ b) = b64_encode_to_string lib a @ b64_encode_to_string lib b)"

definition b64_rep :: "codecs \<Rightarrow> byte list \<Rightarrow> rstring \<Rightarrow> string_decoder \<Rightarrow> bool" where
  "b64_rep lib a out sd \<longleftrightarrow>
     sd_encoder sd = Base64 \<and> buffered_bytes sd = length (buffer sd) \<and> length (buffer sd) < 3
     \<and> missing_bytes sd = (if buffer sd = [] then 0 else 3 - length (buffer sd))
     \<and> (\<exists>p. a = p @ buffer sd \<and> length p mod 3 = 0 \<and> out = b64_encode_to_string lib p)"

lemma make_string_b64: "sd_encoder sd = Base64 \<Longrightarrow> make_string lib bs sd = Ok (b64_encode_to_string lib bs)"
  by (simp add: make_string_def)

text \<open>A chunk that meets an empty buffer.\<close>

lemma b64_fresh:
  assumes g: "b64_groups lib" and sd: "sd_encoder sd = Base64" "buffer sd = []" "buffered_bytes sd = 0" "missing_bytes sd = 0"
    and p: "length p mod 3 = 0" and c: "c \<noteq> []"
  shows "\<exists>x sd'. decode_data lib c sd = (Ok x, sd') \<and> b64_rep lib (p @ c) (b64_encode_to_string lib p @ x) sd'"
proof -
  let ?b = "length c mod 3" and ?k = "length c - length c mod 3"
  have k: "?k mod 3 = 0" "?k \<le> length c" "usub (length c) ?b = Some ?k"
    by (simp_all add: usub_def)
  have b: "?b < 3" by simp
  have enc: "b64_encode_to_string lib (p @ y) = b64_encode_to_string lib p @ b64_encode_to_string lib y" for y
    using g p by (simp add: b64_groups_def)
  have nil: "b64_encode_to_string lib [] = []" using g by (simp add: b64_groups_def)
  have fin: "finish_previous lib c sd = (Ok [], sd, c)" using sd by (simp add: finish_previous_def)
  show ?thesis
  proof (cases "?b = 0")
    case True
    then have "decode_data lib c sd = (Ok (b64_encode_to_string lib c), sd\<lparr>buffered_bytes := 0\<rparr>)"
      using sd c fin by (simp add: decode_data_def cut_off_def make_string_b64)
    moreover have "b64_rep lib (p @ c) (b64_encode_to_string lib p @ b64_encode_to_string lib c) (sd\<lparr>buffered_bytes := 0\<rparr>)"
      using sd p True enc unfolding b64_rep_def by (auto intro!: exI [of _ "p @ c"] simp: mod_add_eq [symmetric])
    ultimately show ?thesis by blast
  next
    case False
    let ?sd = "sd\<lparr>buffered_bytes := ?b, missing_bytes := 3 - ?b, buffer := drop ?k c\<rparr>"
    have run: "decode_data lib c sd = (Ok (b64_encode_to_string lib (take ?k c)), ?sd)"
      using sd c fin False k(3) nil by (auto simp: decode_data_def cut_off_def make_string_b64 Let_def)
    have len: "length (drop ?k c) = ?b" by simp
    have "p @ c = (p @ take ?k c) @ drop ?k c" by simp
    moreover have "3 dvd length p + ?k" using p k(1) by (intro dvd_add) (simp_all only: dvd_eq_mod_eq_0)
    then have "length (p @ take ?k c) mod 3 = 0" by (simp add: dvd_eq_mod_eq_0)
    moreover have "drop ?k c \<noteq> []" using len False by (metis list.size(3))
    ultimately have "b64_rep lib (p @ c) (b64_encode_to_string lib p @ b64_encode_to_string lib (take ?k c)) ?sd"
      using sd b len enc unfolding b64_rep_def by (intro conjI exI [of _ "p @ take ?k c"]) (simp_all del: length_drop append_take_drop_id)
    with run show ?thesis by blast
  qed
qed

text \<open>Once the previous character is finished, the rest of the chunk is decoded like a chunk of its own.\<close>

lemma decode_data_after:
  assumes "sd_encoder sd \<in> {Utf8, Utf16le, Base64}" "sd_encoder sd1 = sd_encoder sd"
    "finish_previous lib c sd = (Ok res, sd1, d)" "d \<noteq> []" "finish_previous lib d sd1 = (Ok [], sd1, d)"
    "decode_data lib d sd1 = (Ok x, sd')"
  shows "decode_data lib c sd = (Ok (res @ x), sd')"
  using assms(6) unfolding decode_data_def assms(2,3,5)
  using assms(1,4) by (auto simp: Let_def split: if_splits option.splits)

lemma sd_feed_b64:
  assumes g: "b64_groups lib" and rep: "b64_rep lib a out sd"
  shows "\<exists>x sd'. write_sd lib (Some c) sd = (Ok x, sd') \<and> b64_rep lib (a @ c) (out @ x) sd'"
proof -
  obtain p where p: "a = p @ buffer sd" "length p mod 3 = 0" "out = b64_encode_to_string lib p"
    and sd: "sd_encoder sd = Base64" "buffered_bytes sd = length (buffer sd)" "length (buffer sd) < 3"
      "missing_bytes sd = (if buffer sd = [] then 0 else 3 - length (buffer sd))"
    using rep by (auto simp: b64_rep_def)
  have enc: "b64_encode_to_string lib (p @ y) = b64_encode_to_string lib p @ b64_encode_to_string lib y" for y
    using g p(2) by (simp add: b64_groups_def)
  let ?m = "missing_bytes sd"
  show ?thesis
  proof (cases "buffer sd = []")
    case True
    show ?thesis
    proof (cases "c = []")
      case nil: True
      with True sd rep show ?thesis by (simp add: write_sd_def decode_data_def finish_previous_def)
    next
      case False
      with b64_fresh [OF g, of sd p c] True sd p show ?thesis by (simp add: write_sd_def)
    qed
  next
    case False
    show ?thesis
    proof (cases "length c < ?m")
      case True
      then have "write_sd lib (Some c) sd = (Ok [], sd\<lparr>buffer := buffer sd @ c, missing_bytes := ?m - length c,
          buffered_bytes := buffered_bytes sd + length c\<rparr>)"
        using False sd by (simp add: write_sd_def decode_data_def finish_previous_def align_missing_def Let_def)
      then show ?thesis using True False sd p by (auto simp: b64_rep_def)
    next
      case full: False
      let ?q = "buffer sd @ take ?m c" and ?sd = "sd\<lparr>buffer := [], missing_bytes := 0, buffered_bytes := 0\<rparr>"
      have q: "length ?q = 3" using False sd full by simp
      have fin: "finish_previous lib c sd = (Ok (b64_encode_to_string lib ?q), ?sd, drop ?m c)"
        using False sd full
        by (simp add: finish_previous_def align_missing_def Let_def make_string_b64)
      have pq: "length (p @ ?q) mod 3 = 0" "a @ c = (p @ ?q) @ drop ?m c"
        using p q by (simp_all del: length_append add: length_append [of p])
      show ?thesis
      proof (cases "drop ?m c = []")
        case True
        then have "write_sd lib (Some c) sd = (Ok (b64_encode_to_string lib ?q), ?sd)"
          using sd fin by (simp add: write_sd_def decode_data_def)
        moreover have "b64_rep lib (a @ c) (out @ b64_encode_to_string lib ?q) ?sd"
          using True pq sd p(3) enc [of ?q] unfolding b64_rep_def by (auto intro!: exI [of _ "p @ ?q"])
        ultimately show ?thesis by blast
      next
        case rest: False
        obtain x sd' where x: "decode_data lib (drop ?m c) ?sd = (Ok x, sd')"
          "b64_rep lib ((p @ ?q) @ drop ?m c) (b64_encode_to_string lib (p @ ?q) @ x) sd'"
          using b64_fresh [OF g, of ?sd "p @ ?q" "drop ?m c"] pq(1) rest sd(1) by auto
        have "finish_previous lib (drop ?m c) ?sd = (Ok [], ?sd, drop ?m c)" by (simp add: finish_previous_def)
        from decode_data_after [OF _ _ fin rest this x(1)] sd(1)
        have "write_sd lib (Some c) sd = (Ok (b64_encode_to_string lib ?q @ x), sd')" by (simp add: write_sd_def)
        with x(2) pq(2) p(3) enc [of ?q] show ?thesis by simp
      qed
    qed
  qed
qed

lemma sd_b64_chunked:
  assumes g: "b64_groups lib"
  shows "chunked_decoder (\<lambda>c. write_sd lib (Some c)) (end_sd lib None)
    (\<lambda>a. Some (b64_encode_to_string lib a)) (b64_rep lib)"
proof (unfold_locales, goal_cases)
  case (1 a out sd c x sd')
  with sd_feed_b64 [OF g 1(1), of c] show ?case by auto
next
  case (2 a out sd c m sd' b)
  with sd_feed_b64 [OF g 2(1), of c] show ?case by auto
next
  case (3 a out sd c)
  with sd_feed_b64 [OF g 3, of c] show ?case by auto
next
  case (4 a out sd)
  then show ?case
    using g by (auto simp: b64_rep_def b64_groups_def end_sd_def flush_sd_def make_string_b64)
qed

lemma rfc_b64_groups: "length a mod 3 = 0 \<Longrightarrow> rfc_b64 (a @ b) = rfc_b64 a @ rfc_b64 b"
  by (induction a rule: rfc_b64.induct) simp_all

lemma b64_groups_rfc: "b64_groups rfc_codecs"
  by (simp add: b64_groups_def rfc_codecs_def rfc_b64_groups)

lemma answers_Some: "answers r (Some x) \<longleftrightarrow> r = Ok x"
  by (cases r) auto

section \<open>Properties\<close>

text \<open>C5: a UTF-8 \<open>StringDecoder\<close> returns the same text however the input is cut: the outputs of the
  writes and of the closing \<open>end\<close>, concatenated, are the lossy decoding of the concatenated input.
  This holds for every input, invalid sequences included, and nothing panics.\<close>

theorem string_decoder_utf8:
  assumes "new_string_decoder label = Ok sd" "sd_encoder sd = Utf8"
  shows "fst (decode_all (\<lambda>c. write_sd lib (Some c)) (end_sd lib None) cs sd) = Ok (utf8_lossy (concat cs))"
proof -
  from assms have "sd_rep [] [] sd"
    by (auto simp: new_string_decoder_def sd_rep_def Let_def split: res.splits)
  from sd_utf8.decode_all_whole [OF this, of lib cs] show ?thesis by (simp add: answers_Some)
qed

theorem string_decoder_utf8_witness:
  "fst (decode_all (\<lambda>c. write_sd rfc_codecs (Some c)) (end_sd rfc_codecs None) [[0xE2], [0x82, 0xE2], [0x82, 0xAC]]
     \<lparr>sd_encoder = Utf8, buffer = [], buffered_bytes = 0, missing_bytes = 0\<rparr>)
   = Ok (utf8_lossy [0xE2, 0x82, 0xE2, 0x82, 0xAC])"
proof -
  have "from_str ''utf-8'' = Ok Utf8" by code_simp
  then have "new_string_decoder None = Ok \<lparr>sd_encoder = Utf8, buffer = [], buffered_bytes = 0, missing_bytes = 0\<rparr>"
    by (simp add: new_string_decoder_def)
  from string_decoder_utf8 [OF this, of rfc_codecs "[[0xE2], [0x82, 0xE2], [0x82, 0xAC]]"] show ?thesis by simp
qed

text \<open>C6: a base64 \<open>StringDecoder\<close> holds back incomplete groups of three bytes, so the concatenated
  output is the base64 text of the concatenated input, with padding at most at the very end; the
  encoder is only assumed to encode whole groups independently.\<close>

theorem string_decoder_base64:
  assumes "b64_groups lib" "new_string_decoder label = Ok sd" "sd_encoder sd = Base64"
  shows "fst (decode_all (\<lambda>c. write_sd lib (Some c)) (end_sd lib None) cs sd)
    = Ok (b64_encode_to_string lib (concat cs))"
proof -
  from assms have "b64_rep lib [] [] sd"
    by (auto simp: new_string_decoder_def b64_rep_def b64_groups_def Let_def split: res.splits)
  from chunked_decoder.decode_all_whole [OF sd_b64_chunked [OF assms(1)] this, of cs]
  show ?thesis by (simp add: answers_Some)
qed

theorem string_decoder_base64_witness:
  "fst (decode_all (\<lambda>c. write_sd rfc_codecs (Some c)) (end_sd rfc_codecs None) [[77], [97, 110, 77]]
     \<lparr>sd_encoder = Base64, buffer = [], buffered_bytes = 0, missing_bytes = 0\<rparr>)
   = Ok (rfc_b64 [77, 97, 110, 77])"
proof -
  have "from_str ''base64'' = Ok Base64" by code_simp
  then have "new_string_decoder (Some ''base64'') = Ok \<lparr>sd_encoder = Base64, buffer = [], buffered_bytes = 0, missing_bytes = 0\<rparr>"
    by (simp add: new_string_decoder_def)
  from string_decoder_base64 [OF b64_groups_rfc this, of "[[77], [97, 110, 77]]"] show ?thesis
    by (simp add: rfc_codecs_def)
qed

section \<open>Where UTF-16LE goes wrong\<close>

lemmas sd_eval = write_sd_def end_sd_def decode_data_def finish_previous_def align_missing_def cut_off_def
  flush_sd_def make_string_def bytes_to_utf16_string_def u16_of_def is_lead_def is_trail_def utf16_pair_def
  usub_def Let_def

text \<open>
  \<open>end\<close> after a single odd byte leaves that byte in the buffer although the counters are reset, so
  a later odd byte is decoded together with it.
\<close>

lemma utf16_end_keeps_odd_byte:
  "buffer (snd (end_sd rfc_codecs (Some [0x41])
     \<lparr>sd_encoder = Utf16le, buffer = [], buffered_bytes = 0, missing_bytes = 0\<rparr>)) = [0x41]"
  by (simp add: sd_eval)

text \<open>
  U+1F4D8 (3D D8 D8 DC) cut behind its lead surrogate and followed by \<open>'a'\<close>: the low byte D8 of the
  trail surrogate is taken for the high byte of a lead, one more byte is awaited, and the byte of
  the next character is swallowed.
\<close>

lemma utf16_trail_taken_for_lead:
  "let sd0 = \<lparr>sd_encoder = Utf16le, buffer = [], buffered_bytes = 0, missing_bytes = 0\<rparr>;
       sd1 = snd (write_sd rfc_codecs (Some [0x3D, 0xD8]) sd0)
   in fst (write_sd rfc_codecs (Some [0xD8, 0xDC, 0x61, 0x00]) sd1) = Ok [0x1F4D8]"
  by (simp add: sd_eval)

end
