(* ===== verification/Json_Escape.thy ===== *)
theory Json_Escape
  imports Rust_Text
begin

text \<open>
  Model of src/libs/raster_runtime_json/src/escape.rs: escaping the bytes of a string for JSON.
  The output \<open>String\<close> is a byte list, since the code appends to it unchecked; \<open>None\<close> is a panic.
\<close>

unbundle bit_operations_syntax

section \<open>Tables\<close>

definition JSON_ESCAPE_CHARS :: "byte \<Rightarrow> nat" where
  "JSON_ESCAPE_CHARS b =
     (if unat b < 32 then unat b else if b = 34 then 32 else if b = 92 then 33 else 34)"

definition hex_lower :: "nat \<Rightarrow> byte" where
  "hex_lower h = (if h < 10 then 48 + word_of_nat h else 97 + word_of_nat h - 10)"

definition JSON_ESCAPE_QUOTES :: "nat \<Rightarrow> byte list" where
  "JSON_ESCAPE_QUOTES c =
     (if c = 8 then [92, 98] else if c = 9 then [92, 116] else if c = 10 then [92, 110]
      else if c = 12 then [92, 102] else if c = 13 then [92, 114]
      else if c = 32 then [92, 34] else if c = 33 then [92, 92]
      else [92, 117, 48, 48, hex_lower (c div 16), hex_lower (c mod 16)])"

definition ESCAPE_LEN :: nat where
  "ESCAPE_LEN = 34"

section \<open>Escaping\<close>

text \<open>The six-byte escape of the three-byte (WTF-8) surrogate at \<open>i\<close>, and how far to advance.\<close>

definition write_surrogate_escape :: "byte list \<Rightarrow> nat \<Rightarrow> (byte list \<times> nat) option" where
  "write_surrogate_escape bytes i = do {
     b0 \<leftarrow> vec_get bytes i;
     b1 \<leftarrow> vec_get bytes (i + 1);
     b2 \<leftarrow> vec_get bytes (i + 2);
     let code_point = push_bit 12 (ucast b0 AND 0x0F :: u16) OR push_bit 6 (ucast b1 AND 0x3F) OR (ucast b2 AND 0x3F);
     Some ([92, 117] @ map (\<lambda>h. hex_lower (unat h))
             [drop_bit 12 code_point, drop_bit 8 code_point AND 0xF, drop_bit 4 code_point AND 0xF, code_point AND 0xF],
           3)
   }"

record esc_state =
  result :: "byte list"
  pos :: nat
  start :: nat

definition process_byte :: "byte list \<Rightarrow> nat \<Rightarrow> byte \<Rightarrow> esc_state \<Rightarrow> esc_state option" where
  "process_byte bytes len byte st =
     (let i = pos st;
          pre = (if start st < i then slice bytes (start st) i else Some [])
      in if i + 2 < len \<and> byte = 0xED \<and> i + 1 < len \<and> 0xA0 \<le> bytes ! (i + 1) AND 0xF0 then do {
           p \<leftarrow> pre;
           (esc, n) \<leftarrow> write_surrogate_escape bytes i;
           Some \<lparr>result = result st @ p @ esc, pos = i + n, start = i + n\<rparr>
         }
         else
           let c = JSON_ESCAPE_CHARS byte
           in if c < ESCAPE_LEN then do {
                p \<leftarrow> pre;
                Some \<lparr>result = result st @ p @ JSON_ESCAPE_QUOTES c, pos = i + 1, start = i + 1\<rparr>
              }
              else Some (st\<lparr>pos := i + 1\<rparr>))"

text \<open>\<open>as_chunks::<8>\<close>: whole chunks of eight and what is left.\<close>

fun as_chunks8 :: "byte list \<Rightarrow> byte list list \<times> byte list" where
  "as_chunks8 bytes =
     (if length bytes < 8 then ([], bytes)
      else case as_chunks8 (drop 8 bytes) of (cs, t) \<Rightarrow> (take 8 bytes # cs, t))"

declare as_chunks8.simps [simp del]

fun process_bytes :: "byte list \<Rightarrow> nat \<Rightarrow> byte list \<Rightarrow> esc_state \<Rightarrow> esc_state option" where
  "process_bytes bytes len [] st = Some st"
| "process_bytes bytes len (b # bs) st = Option.bind (process_byte bytes len b st) (process_bytes bytes len bs)"

definition special_byte :: "byte \<Rightarrow> bool" where
  "special_byte b \<longleftrightarrow> b < 32 \<or> b = 34 \<or> b = 92"

fun process_chunks :: "byte list \<Rightarrow> nat \<Rightarrow> byte list list \<Rightarrow> esc_state \<Rightarrow> esc_state option" where
  "process_chunks bytes len [] st = Some st"
| "process_chunks bytes len (c # cs) st =
     Option.bind (if list_ex special_byte c then process_bytes bytes len c st else Some (st\<lparr>pos := pos st + 8\<rparr>))
       (process_chunks bytes len cs)"

definition escape_json_string_simple :: "byte list \<Rightarrow> byte list \<Rightarrow> byte list option" where
  "escape_json_string_simple res bytes =
     (let len = length bytes;
          (chunks, tl_bytes) = as_chunks8 bytes
      in do {
        st \<leftarrow> process_chunks bytes len chunks \<lparr>result = res, pos = 0, start = 0\<rparr>;
        st' \<leftarrow> process_bytes bytes len tl_bytes st;
        if start st' < len then Some (result st' @ drop (start st') bytes) else Some (result st')
      })"

definition escape_json_string :: "byte list \<Rightarrow> byte list \<Rightarrow> byte list option" where
  "escape_json_string res bytes = escape_json_string_simple res bytes"

definition escape_json :: "byte list \<Rightarrow> byte list option" where
  "escape_json bytes = escape_json_string [] bytes"

section \<open>Reference escaping\<close>

definition esc_byte :: "byte \<Rightarrow> byte list" where
  "esc_byte b = (if special_byte b then JSON_ESCAPE_QUOTES (JSON_ESCAPE_CHARS b) else [b])"

definition esc_ref :: "byte list \<Rightarrow> byte list" where
  "esc_ref bytes = concat (map esc_byte bytes)"

text \<open>No three-byte sequence that encodes a surrogate.\<close>

definition no_surrogate :: "byte list \<Rightarrow> bool" where
  "no_surrogate bytes \<longleftrightarrow>
     (\<forall>i. i + 2 < length bytes \<longrightarrow> bytes ! i = 0xED \<longrightarrow> \<not> 0xA0 \<le> bytes ! (i + 1) AND 0xF0)"

lemma special_byte_table: "JSON_ESCAPE_CHARS b < ESCAPE_LEN \<longleftrightarrow> special_byte b"
  by (auto simp: JSON_ESCAPE_CHARS_def ESCAPE_LEN_def special_byte_def word_less_nat_alt)

lemma esc_ref_simps [simp]:
  "esc_ref [] = []" "esc_ref (xs @ ys) = esc_ref xs @ esc_ref ys" "esc_ref [b] = esc_byte b"
  by (simp_all add: esc_ref_def)

lemma esc_ref_plain: "\<not> list_ex special_byte c \<Longrightarrow> esc_ref c = c"
  by (induction c) (simp_all add: esc_ref_def esc_byte_def)

text \<open>What has been written and what is still to be copied make up the escape of the input read so far.\<close>

definition esc_inv :: "byte list \<Rightarrow> byte list \<Rightarrow> esc_state \<Rightarrow> bool" where
  "esc_inv res bytes st \<longleftrightarrow>
     start st \<le> pos st \<and> pos st \<le> length bytes
     \<and> result st @ take (pos st - start st) (drop (start st) bytes) = res @ esc_ref (take (pos st) bytes)"

lemma esc_take_Suc: "i < length bytes \<Longrightarrow> esc_ref (take (Suc i) bytes) = esc_ref (take i bytes) @ esc_byte (bytes ! i)"
  by (simp add: take_Suc_conv_app_nth)

lemma take_drop_Suc:
  "s \<le> i \<Longrightarrow> i < length xs \<Longrightarrow> take (Suc i - s) (drop s xs) = take (i - s) (drop s xs) @ [xs ! i]"
  by (simp add: Suc_diff_le take_Suc_conv_app_nth)

lemma process_byte_inv:
  assumes ns: "no_surrogate bytes" and inv: "esc_inv res bytes st" and i: "pos st < length bytes"
  obtains st' where "process_byte bytes (length bytes) (bytes ! pos st) st = Some st'" "esc_inv res bytes st'"
    "pos st' = Suc (pos st)"
proof -
  let ?i = "pos st" and ?b = "bytes ! pos st"
  have not_surr: "\<not> (?i + 2 < length bytes \<and> ?b = 0xED \<and> ?i + 1 < length bytes \<and> 0xA0 \<le> bytes ! (?i + 1) AND 0xF0)"
    using ns by (auto simp: no_surrogate_def)
  have le: "start st \<le> ?i" using inv by (simp add: esc_inv_def)
  have pre: "(if start st < ?i then slice bytes (start st) ?i else Some []) = Some (take (?i - start st) (drop (start st) bytes))"
    using le i by simp
  show thesis
  proof (cases "special_byte ?b")
    case True
    let ?st = "\<lparr>result = result st @ take (?i - start st) (drop (start st) bytes) @ JSON_ESCAPE_QUOTES (JSON_ESCAPE_CHARS ?b),
      pos = ?i + 1, start = ?i + 1\<rparr>"
    have "process_byte bytes (length bytes) ?b st = Some ?st"
      unfolding process_byte_def Let_def if_not_P [OF not_surr] pre using True by (simp add: special_byte_table)
    moreover have "esc_inv res bytes ?st"
      using inv i True by (simp add: esc_inv_def esc_take_Suc esc_byte_def append_assoc [symmetric] del: append_assoc)
    ultimately show thesis by (rule that) simp
  next
    case False
    have "process_byte bytes (length bytes) ?b st = Some (st\<lparr>pos := ?i + 1\<rparr>)"
      unfolding process_byte_def Let_def if_not_P [OF not_surr] using False by (simp add: special_byte_table)
    moreover have "esc_inv res bytes (st\<lparr>pos := ?i + 1\<rparr>)"
      using inv i False le
      by (simp add: esc_inv_def esc_take_Suc esc_byte_def take_drop_Suc append_assoc [symmetric] del: append_assoc)
    ultimately show thesis by (rule that) simp
  qed
qed

lemma process_bytes_inv:
  assumes ns: "no_surrogate bytes"
  shows "esc_inv res bytes st \<Longrightarrow> pos st + length c \<le> length bytes \<Longrightarrow> c = take (length c) (drop (pos st) bytes) \<Longrightarrow>
    \<exists>st'. process_bytes bytes (length bytes) c st = Some st' \<and> esc_inv res bytes st' \<and> pos st' = pos st + length c"
proof (induction c arbitrary: st)
  case (Cons b c)
  have i: "pos st < length bytes" using Cons.prems(2) by simp
  have d: "drop (pos st) bytes = bytes ! pos st # drop (Suc (pos st)) bytes" using i by (simp add: Cons_nth_drop_Suc)
  with Cons.prems(3) have b: "b = bytes ! pos st" "c = take (length c) (drop (Suc (pos st)) bytes)" by simp_all
  obtain st1 where st1: "process_byte bytes (length bytes) (bytes ! pos st) st = Some st1" "esc_inv res bytes st1"
    "pos st1 = Suc (pos st)"
    by (rule process_byte_inv [OF ns Cons.prems(1) i])
  with Cons.IH [of st1] Cons.prems(2) b show ?case by auto
qed simp

lemma as_chunks8_spec:
  "as_chunks8 bytes = (cs, t) \<Longrightarrow> bytes = concat cs @ t \<and> (\<forall>c\<in>set cs. length c = 8)"
proof (induction bytes arbitrary: cs t rule: as_chunks8.induct)
  case (1 bytes)
  show ?case
  proof (cases "length bytes < 8")
    case True
    with "1.prems" show ?thesis by (simp add: as_chunks8.simps [of bytes])
  next
    case False
    obtain cs' where c: "as_chunks8 (drop 8 bytes) = (cs', t)" "cs = take 8 bytes # cs'"
      using "1.prems" False by (auto simp: as_chunks8.simps [of bytes] split: prod.splits)
    from "1.IH" [OF False c(1)] c(2) False append_take_drop_id [of 8 bytes] show ?thesis by auto
  qed
qed

lemma process_chunks_inv:
  assumes ns: "no_surrogate bytes"
  shows "esc_inv res bytes st \<Longrightarrow> drop (pos st) bytes = concat cs @ t \<Longrightarrow> \<forall>c\<in>set cs. length c = 8 \<Longrightarrow>
    \<exists>st'. process_chunks bytes (length bytes) cs st = Some st' \<and> esc_inv res bytes st'
      \<and> pos st' = pos st + length (concat cs)"
proof (induction cs arbitrary: st)
  case (Cons c cs)
  have c8: "length c = 8" using Cons.prems(3) by simp
  have le: "pos st \<le> length bytes" using Cons.prems(1) by (simp add: esc_inv_def)
  have len: "pos st + length c \<le> length bytes"
    using arg_cong [OF Cons.prems(2), of length] le by simp
  have c: "c = take (length c) (drop (pos st) bytes)" using Cons.prems(2) by simp
  have rest: "drop (pos st + length c) bytes = concat cs @ t"
    using arg_cong [OF Cons.prems(2), of "drop (length c)"] by (simp add: add.commute)
  obtain st1 where st1: "(if list_ex special_byte c then process_bytes bytes (length bytes) c st
      else Some (st\<lparr>pos := pos st + 8\<rparr>)) = Some st1" "esc_inv res bytes st1" "pos st1 = pos st + length c"
  proof (cases "list_ex special_byte c")
    case True
    with process_bytes_inv [OF ns Cons.prems(1) len c] show thesis using that by auto
  next
    case False
    have "esc_inv res bytes (st\<lparr>pos := pos st + 8\<rparr>)"
    proof -
      have s: "start st \<le> pos st" using Cons.prems(1) by (simp add: esc_inv_def)
      have "take (pos st + 8) bytes = take (pos st) bytes @ c" using c c8 by (simp add: take_add)
      moreover have "take (pos st + 8 - start st) (drop (start st) bytes)
          = take (pos st - start st) (drop (start st) bytes) @ c"
      proof -
        have "pos st + 8 - start st = (pos st - start st) + 8" using s by simp
        then have "take (pos st + 8 - start st) (drop (start st) bytes)
            = take (pos st - start st) (drop (start st) bytes) @ take 8 (drop (pos st - start st) (drop (start st) bytes))"
          by (simp only: take_add)
        with c c8 s show ?thesis by simp
      qed
      ultimately show ?thesis
        using Cons.prems(1) len c8 esc_ref_plain [OF False]
        by (simp add: esc_inv_def append_assoc [symmetric] del: append_assoc)
    qed
    with False c8 that show thesis by auto
  qed
  with Cons.IH [of st1] rest Cons.prems(3) show ?case by auto
qed simp

lemma escape_json_string_ref:
  assumes ns: "no_surrogate bytes"
  shows "escape_json_string res bytes = Some (res @ esc_ref bytes)"
proof -
  obtain cs t where ct: "as_chunks8 bytes = (cs, t)" by (cases "as_chunks8 bytes")
  note spec = as_chunks8_spec [OF ct]
  let ?st = "\<lparr>result = res, pos = 0, start = 0\<rparr>"
  have "esc_inv res bytes ?st" by (simp add: esc_inv_def)
  from process_chunks_inv [OF ns this, of cs t] spec obtain st1 where st1:
    "process_chunks bytes (length bytes) cs ?st = Some st1" "esc_inv res bytes st1" "pos st1 = length (concat cs)"
    by auto
  from process_bytes_inv [OF ns st1(2), of t] spec st1(3) obtain st2 where st2:
    "process_bytes bytes (length bytes) t st1 = Some st2" "esc_inv res bytes st2" "pos st2 = length bytes"
    by (auto simp: add.commute)
  have "result st2 @ drop (start st2) bytes = res @ esc_ref bytes"
    using st2(2,3) by (simp add: esc_inv_def)
  with st1(1) st2(1) ct show ?thesis
    by (auto simp: escape_json_string_def escape_json_string_simple_def Let_def)
qed

section \<open>Reading a JSON string\<close>

text \<open>The body of a JSON string literal as RFC 8259 reads it (surrogate escapes left out).\<close>

definition hex_digit_value :: "byte \<Rightarrow> nat option" where
  "hex_digit_value b =
     (let n = unat b
      in if 48 \<le> n \<and> n \<le> 57 then Some (n - 48)
         else if 97 \<le> n \<and> n \<le> 102 then Some (n - 87)
         else if 65 \<le> n \<and> n \<le> 70 then Some (n - 55) else None)"

definition hex4 :: "byte \<Rightarrow> byte \<Rightarrow> byte \<Rightarrow> byte \<Rightarrow> nat option" where
  "hex4 a b c d = do {
     w \<leftarrow> hex_digit_value a; x \<leftarrow> hex_digit_value b; y \<leftarrow> hex_digit_value c; z \<leftarrow> hex_digit_value d;
     Some (4096 * w + 256 * x + 16 * y + z)
   }"

definition short_escape :: "byte \<Rightarrow> byte option" where
  "short_escape e =
     (if e = 98 then Some 8 else if e = 116 then Some 9 else if e = 110 then Some 10 else if e = 102 then Some 12
      else if e = 114 then Some 13 else if e = 34 \<or> e = 92 \<or> e = 47 then Some e else None)"

fun json_unescape :: "byte list \<Rightarrow> byte list option" where
  "json_unescape [] = Some []"
| "json_unescape (b # r) =
     (if b = 92 then
        (case r of
           e # r1 \<Rightarrow>
             if e = 117 then
               (case r1 of
                  w # x # y # z # r2 \<Rightarrow> do {
                    n \<leftarrow> hex4 w x y z;
                    if is_scalar n then map_option ((@) (utf8_encode n)) (json_unescape r2) else None
                  }
                | _ \<Rightarrow> None)
             else do { c \<leftarrow> short_escape e; map_option ((#) c) (json_unescape r1) }
         | [] \<Rightarrow> None)
      else if b < 32 \<or> b = 34 then None
      else map_option ((#) b) (json_unescape r))"

declare json_unescape.simps(2) [simp del]

lemma byte_small_cases:
  fixes b :: byte
  assumes "unat b < 32"
  shows "b \<in> {31, 30, 29, 28, 27, 26, 25, 24, 23, 22, 21, 20, 19, 18, 17, 16,
    15, 14, 13, 12, 11, 10, 9, 8, 7, 6, 5, 4, 3, 2, 1, 0}"
proof -
  have "unat b \<in> {0..<32}" using assms by simp
  also have "{0..<32} = {31, 30, 29, 28, 27, 26, 25, 24, 23, 22, 21, 20, 19, 18, 17, 16,
    15, 14, 13, 12, 11, 10, 9, 8, 7, 6, 5, 4, 3, 2, 1, 0 :: nat}" by (simp add: atLeastLessThan_nat_numeral)
  finally show ?thesis by (simp add: word_unat_eq_iff)
qed

lemma map_option_single: "map_option ((@) [x]) m = map_option ((#) x) m"
  by (cases m) simp_all

lemma unescape_esc_byte: "json_unescape (esc_byte b @ r) = map_option ((#) b) (json_unescape r)"
proof (cases "unat b < 32")
  case True
  from byte_small_cases [OF this] show ?thesis
    by (elim insertE emptyE)
      (simp_all add: esc_byte_def special_byte_def JSON_ESCAPE_CHARS_def JSON_ESCAPE_QUOTES_def hex_lower_def
        json_unescape.simps(2) hex4_def hex_digit_value_def short_escape_def utf8_encode_def is_scalar_def
        map_option_single)
next
  case False
  then show ?thesis
    by (auto simp: esc_byte_def special_byte_def JSON_ESCAPE_CHARS_def JSON_ESCAPE_QUOTES_def
        json_unescape.simps(2) short_escape_def word_less_nat_alt)
qed

lemma unescape_esc_ref: "json_unescape (esc_ref bytes) = Some bytes"
proof (induction bytes)
  case (Cons b bytes)
  then show ?case using unescape_esc_byte [of b "esc_ref bytes"] by (simp add: esc_ref_def)
qed simp

lemma no_surrogate_Cons:
  "no_surrogate (x # xs) \<longleftrightarrow>
     \<not> (2 \<le> length xs \<and> x = 0xED \<and> 0xA0 \<le> hd xs AND 0xF0) \<and> no_surrogate xs"
proof -
  have all: "All good = (good 0 \<and> (\<forall>n. good (Suc n)))" for good :: "nat \<Rightarrow> bool"
    by (metis nat.exhaust)
  show ?thesis
    unfolding no_surrogate_def by (subst all) (cases xs; auto simp: Suc_le_eq)
qed

lemma no_surrogate_high: "no_surrogate (x # xs) = no_surrogate xs" if "x \<noteq> 0xED"
  using that by (simp add: no_surrogate_Cons)

lemma no_surrogate_conts: "list_all is_cont c \<Longrightarrow> no_surrogate (c @ t) = no_surrogate t"
proof (induction c)
  case (Cons x c)
  then have "x \<noteq> 0xED" by (auto simp: is_cont_def word_le_nat_alt)
  with Cons show ?case by (simp add: no_surrogate_high)
qed simp

lemma cont_of_nat: "n < 64 \<Longrightarrow> is_cont (word_of_nat (0x80 + n))"
  by (simp add: is_cont_def word_le_nat_alt unat_byte_of_nat del: of_nat_add)

text \<open>The UTF-8 encoding of a scalar contains no surrogate sequence.\<close>

lemma no_surrogate_encode:
  assumes "is_scalar c"
  shows "no_surrogate (utf8_encode c @ t) = no_surrogate t"
proof -
  have cont: "is_cont (word_of_nat (0x80 + n mod 64))" for n by (rule cont_of_nat) simp
  consider "c < 0x80" | "0x80 \<le> c" "c < 0x800" | "0x800 \<le> c" "c < 0x10000" | "0x10000 \<le> c" "c < 0x110000"
    using assms by (force simp: is_scalar_def)
  then show ?thesis
  proof cases
    case 1
    then have "(word_of_nat c :: byte) \<noteq> 0xED" by (simp add: word_unat_eq_iff unat_byte_of_nat)
    with 1 show ?thesis by (simp add: utf8_encode_def no_surrogate_high)
  next
    case 2
    then have "0xC0 + c div 64 < 0xE0" by auto
    then have "(word_of_nat (0xC0 + c div 64) :: byte) \<noteq> 0xED"
      by (simp add: word_unat_eq_iff unat_byte_of_nat del: of_nat_add)
    with 2 no_surrogate_conts [of "[word_of_nat (0x80 + c mod 64)]" t] cont [of c] show ?thesis
      by (simp add: utf8_encode_def no_surrogate_high del: of_nat_add)
  next
    case 4
    then have "0xF0 + c div 262144 < 0x100" by auto
    then have "(word_of_nat (0xF0 + c div 262144) :: byte) \<noteq> 0xED"
      by (simp add: word_unat_eq_iff unat_byte_of_nat del: of_nat_add)
    with 4 no_surrogate_conts [of "[word_of_nat (0x80 + c div 4096 mod 64), word_of_nat (0x80 + c div 64 mod 64),
        word_of_nat (0x80 + c mod 64)]" t] cont [of c] cont [of "c div 64"] cont [of "c div 4096"] show ?thesis
      by (simp add: utf8_encode_def no_surrogate_high del: of_nat_add)
  next
    case 3
    let ?b1 = "word_of_nat (0x80 + c div 64 mod 64) :: byte" and ?b2 = "word_of_nat (0x80 + c mod 64) :: byte"
    have conts: "no_surrogate (?b1 # ?b2 # t) = no_surrogate t"
      using no_surrogate_conts [of "[?b1, ?b2]" t] cont [of c] cont [of "c div 64"] by (simp del: of_nat_add)
    have "\<not> 0xA0 \<le> ?b1 AND 0xF0" if l: "(word_of_nat (0xE0 + c div 4096) :: byte) = 0xED"
    proof -
      have "c div 4096 < 16" using 3 by auto
      with l have "c div 4096 = 13"
        by (simp add: word_unat_eq_iff unat_byte_of_nat del: of_nat_add)
      then have "0xD000 \<le> c" "c < 0xE000" by auto
      with assms have "c < 0xD800" by (auto simp: is_scalar_def)
      with \<open>0xD000 \<le> c\<close> have "832 \<le> c div 64" "c div 64 < 864" by auto
      then obtain k where k: "c div 64 = 64 * 13 + k" "k < 32"
        using that [of "c div 64 - 832"] by simp
      then have "c div 64 mod 64 < 32" by (simp only: mod_mult_self4)
      then have "unat ?b1 < 0xA0" by (simp add: unat_byte_of_nat del: of_nat_add)
      then have "unat (?b1 AND 0xF0) < 0xA0" by (simp add: high_bits del: of_nat_add)
      then show ?thesis by (simp add: word_le_nat_alt)
    qed
    with 3 conts show ?thesis by (simp add: utf8_encode_def no_surrogate_Cons [of "word_of_nat (0xE0 + c div 4096)"] del: of_nat_add)
  qed
qed

lemma no_surrogate_bytes: "list_all is_scalar s \<Longrightarrow> no_surrogate (utf8_bytes s)"
proof (induction s)
  case Nil
  then show ?case by (simp add: utf8_bytes_def no_surrogate_def)
next
  case (Cons c s)
  then show ?case by (simp add: utf8_bytes_def no_surrogate_encode)
qed

section \<open>Properties\<close>

text \<open>C7: escaping a Rust string never panics, appends to what was written before, replaces each byte
  by itself or by its escape regardless of how the bytes fall into chunks of eight, and reading the
  result back as the body of a JSON string gives the bytes of the string.\<close>

theorem escape_json_string_roundtrip:
  assumes "list_all is_scalar s"
  shows "\<exists>body. escape_json_string res (utf8_bytes s) = Some (res @ body)
    \<and> body = concat (map esc_byte (utf8_bytes s)) \<and> json_unescape body = Some (utf8_bytes s)"
  using escape_json_string_ref [OF no_surrogate_bytes [OF assms]] unescape_esc_ref [of "utf8_bytes s"]
  by (simp add: esc_ref_def)

theorem escape_json_string_roundtrip_witness:
  "\<exists>body. escape_json_string [34] (utf8_bytes [34, 10, 0xE9]) = Some ([34] @ body)
    \<and> body = concat (map esc_byte (utf8_bytes [34, 10, 0xE9])) \<and> json_unescape body = Some (utf8_bytes [34, 10, 0xE9])"
  by (rule escape_json_string_roundtrip) (simp add: is_scalar_def)

section \<open>Surrogates\<close>

lemmas escape_eval = escape_json_def escape_json_string_def escape_json_string_simple_def process_byte_def
  write_surrogate_escape_def JSON_ESCAPE_CHARS_def JSON_ESCAPE_QUOTES_def ESCAPE_LEN_def as_chunks8.simps slice_def

text \<open>
  A surrogate advances \<open>pos\<close> by three while the byte iterator advances by one, so the escape of a
  quote behind it is written for the wrong position and the copy of the rest runs past it: the
  quote comes out twice or the code panics.
\<close>

lemma surrogate_misaligned: "escape_json [0xED, 0xA0, 0x80, 0x22] = None"
  by (simp add: escape_eval)

text \<open>A surrogate in a chunk of eight without special bytes is not escaped at all.\<close>

lemma surrogate_in_plain_chunk:
  "escape_json [0x61, 0x61, 0x61, 0x61, 0x61, 0xED, 0xA0, 0x80] = Some [0x61, 0x61, 0x61, 0x61, 0x61, 0xED, 0xA0, 0x80]"
  by (simp add: escape_eval special_byte_def)

end
