(* ===== verification/Json_Stringify.thy ===== *)
theory Json_Stringify
  imports Json_Escape
begin

text \<open>
  Model of src/libs/raster_runtime_json/src/stringify.rs, \<open>JSON.stringify\<close>. The JavaScript engine
  is a parameter: a record of the calls the code makes on values and objects. Objects are
  pointers into the engine's heap, so cycles and sharing are visible. The recursion of the code
  runs on fuel; \<open>None\<close> is "not returned within the fuel".
\<close>

section \<open>Values and the engine\<close>

datatype jval =
    JUndefined | JNull | JBool bool | JInt int | JFloat "64 word" | JString "byte list"
  | JSymbol | JFunction | JBigInt | JRef nat

datatype jkind = KObject | KArray | KOther

text \<open>
  \<open>own_keys\<close> is \<open>keys()\<close> with failing entries dropped and \<open>object_keys\<close> the \<open>Object.keys\<close>
  fallback; \<open>to_json p\<close> is \<open>None\<close> when there is no \<open>toJSON\<close> key and otherwise the outcome of
  reading and calling it; \<open>itoa\<close> and \<open>ryu_format_finite\<close> are the number formatting crates.
\<close>

record js_env =
  kind :: "nat \<Rightarrow> jkind"
  own_keys :: "nat \<Rightarrow> byte list list"
  object_keys :: "nat \<Rightarrow> byte list list"
  get_prop :: "nat \<Rightarrow> byte list \<Rightarrow> (byte list, jval) res"
  arr_items :: "nat \<Rightarrow> (byte list, jval) res list"
  to_json :: "nat \<Rightarrow> (byte list, jval) res option"
  itoa :: "int \<Rightarrow> byte list"
  ryu_format_finite :: "64 word \<Rightarrow> byte list"
  ryu_format :: "64 word \<Rightarrow> byte list"

text \<open>A replacer: none, a function of the holder, the key and the value, or an array of values.\<close>

datatype replacer_arg =
    No_Replacer
  | Replacer_Fn "nat option \<Rightarrow> byte list \<Rightarrow> jval \<Rightarrow> (byte list, jval) res"
  | Replacer_Array "jval list"

type_synonym replacer_fn = "nat option \<Rightarrow> byte list \<Rightarrow> jval \<Rightarrow> (byte list, jval) res"

record js_opts =
  replacer_fn :: "replacer_fn option"
  include_keys_replacer :: "byte list set option"

record sctx =
  value_of :: jval
  depth :: nat
  indentation :: "byte list option"
  key :: "byte list option"
  index :: "nat option"
  parent :: "nat option"

type_synonym ancestors = "(nat \<times> byte list) list"
type_synonym sstate = "byte list \<times> ancestors"

datatype primitive_status = Written | Ignored | Iterate "jval option"

section \<open>Writing\<close>

definition write_indentation :: "byte list option \<Rightarrow> nat \<Rightarrow> byte list \<Rightarrow> byte list" where
  "write_indentation ind d out =
     (case ind of Some i \<Rightarrow> out @ [10] @ concat (replicate (d - 1) i) | None \<Rightarrow> out)"

definition write_sep :: "bool \<Rightarrow> bool \<Rightarrow> byte list \<Rightarrow> byte list" where
  "write_sep add_comma has_indentation out =
     out @ (if add_comma then [44] else []) @ (if has_indentation then [10] else [])"

definition write_key :: "byte list \<Rightarrow> bool \<Rightarrow> byte list \<Rightarrow> byte list option" where
  "write_key k indent out =
     map_option (\<lambda>o1. o1 @ [34, 58] @ (if indent then [32] else [])) (escape_json_string (out @ [34]) k)"

definition write_string :: "byte list \<Rightarrow> byte list \<Rightarrow> byte list option" where
  "write_string s out = map_option (\<lambda>o1. o1 @ [34]) (escape_json_string (out @ [34]) s)"

definition write_indented_separator ::
    "byte list option \<Rightarrow> bool \<Rightarrow> byte list \<Rightarrow> nat \<Rightarrow> byte list \<Rightarrow> byte list option" where
  "write_indented_separator k add_comma ind d out =
     (let o1 = write_sep add_comma True out @ concat (replicate d ind)
      in case k of Some k' \<Rightarrow> write_key k' True o1 | None \<Rightarrow> Some o1)"

definition get_key_or_index :: "js_env \<Rightarrow> byte list option \<Rightarrow> nat option \<Rightarrow> byte list" where
  "get_key_or_index env k i =
     (case k of Some k' \<Rightarrow> k' | None \<Rightarrow> itoa env (int (case i of Some n \<Rightarrow> n | None \<Rightarrow> 0)))"

definition EXP_MASK :: "64 word" where
  "EXP_MASK = 0x7FF0000000000000"

text \<open>The text of a number; \<open>None\<close> is the panic of slicing a string shorter than two bytes.\<close>

definition float_text :: "js_env \<Rightarrow> 64 word \<Rightarrow> byte list option" where
  "float_text env bits =
     (if bits AND EXP_MASK = EXP_MASK then Some [110, 117, 108, 108]
      else do {
        let s = ryu_format_finite env bits;
        k \<leftarrow> usub (length s) 2;
        Some (if drop k s = [46, 48] then take k s else s)
      })"

definition null_text :: "byte list" where "null_text = [110, 117, 108, 108]"
definition true_text :: "byte list" where "true_text = [116, 114, 117, 101]"
definition false_text :: "byte list" where "false_text = [102, 97, 108, 115, 101]"

definition bigint_error :: "byte list" where
  "bigint_error = map of_char ''Do not know how to serialize a BigInt''"

definition write_primitive2 ::
    "js_env \<Rightarrow> js_opts \<Rightarrow> sctx \<Rightarrow> bool \<Rightarrow> jval option \<Rightarrow> byte list
      \<Rightarrow> (byte list, primitive_status) res \<times> byte list" where
  "write_primitive2 env opts cx add_comma new_value out =
     (let v = (case new_value of Some x \<Rightarrow> x | None \<Rightarrow> value_of cx)
      in if index cx = None \<and> v \<in> {JSymbol, JUndefined, JFunction} then (Ok Ignored, out)
         else if v = JBigInt then (Err bigint_error, out)
         else if (case include_keys_replacer opts of
                    Some ks \<Rightarrow> get_key_or_index env (key cx) (index cx) \<notin> ks
                  | None \<Rightarrow> False) then (Ok Ignored, out)
         else
           (case (case indentation cx of
                    Some ind \<Rightarrow> write_indented_separator (key cx) add_comma ind (depth cx) out
                  | None \<Rightarrow>
                      (let o1 = write_sep add_comma False out
                       in case key cx of Some k \<Rightarrow> write_key k False o1 | None \<Rightarrow> Some o1)) of
              None \<Rightarrow> (Panic, out)
            | Some o1 \<Rightarrow>
                (case v of
                   JNull \<Rightarrow> (Ok Written, o1 @ null_text)
                 | JUndefined \<Rightarrow> (Ok Written, o1 @ null_text)
                 | JBool b \<Rightarrow> (Ok Written, o1 @ (if b then true_text else false_text))
                 | JInt n \<Rightarrow> (Ok Written, o1 @ itoa env n)
                 | JFloat w \<Rightarrow> (case float_text env w of None \<Rightarrow> (Panic, o1) | Some t \<Rightarrow> (Ok Written, o1 @ t))
                 | JString s \<Rightarrow> (case write_string s o1 of None \<Rightarrow> (Panic, o1) | Some o2 \<Rightarrow> (Ok Written, o2))
                 | _ \<Rightarrow> (Ok (Iterate new_value), o1))))"

text \<open>A replacer function is called on the holder (a fresh wrapper object when there is none).\<close>

definition run_replacer ::
    "js_env \<Rightarrow> js_opts \<Rightarrow> replacer_fn \<Rightarrow> sctx \<Rightarrow> bool \<Rightarrow> byte list
      \<Rightarrow> (byte list, primitive_status) res \<times> byte list" where
  "run_replacer env opts f cx add_comma out =
     (case f (parent cx) (get_key_or_index env (key cx) (index cx)) (value_of cx) of
        Ok nv \<Rightarrow> write_primitive2 env opts cx add_comma (Some nv) out
      | Err e \<Rightarrow> (Err e, out)
      | Panic \<Rightarrow> (Panic, out))"

definition write_primitive ::
    "js_env \<Rightarrow> js_opts \<Rightarrow> sctx \<Rightarrow> bool \<Rightarrow> byte list \<Rightarrow> (byte list, primitive_status) res \<times> byte list" where
  "write_primitive env opts cx add_comma out =
     (case replacer_fn opts of
        Some f \<Rightarrow> run_replacer env opts f cx add_comma out
      | None \<Rightarrow> write_primitive2 env opts cx add_comma None out)"

section \<open>Circular references\<close>

definition CIRCULAR_REF_DETECTION_DEPTH :: nat where
  "CIRCULAR_REF_DETECTION_DEPTH = 20"

text \<open>The \<open>while\<close> loop that pops the ancestors behind the parent, from the end of the vector.\<close>

fun pop_rev :: "nat \<Rightarrow> ancestors \<Rightarrow> ancestors" where
  "pop_rev p [] = []"
| "pop_rev p ((q, k) # r) = (if q \<noteq> p then pop_rev p r else (q, k) # r)"

definition pop_to_parent :: "nat \<Rightarrow> ancestors \<Rightarrow> ancestors" where
  "pop_to_parent p anc = rev (pop_rev p (rev anc))"

definition key_part :: "byte list \<Rightarrow> byte list" where
  "key_part k = (if k \<noteq> [] \<and> hd k = 91 then k else 46 # k)"

definition circular_message :: "ancestors \<Rightarrow> byte list" where
  "circular_message anc =
     map of_char ''Circular reference detected at: '' @ [34, 46, 46]
     @ concat (map (key_part \<circ> snd) (drop (length (tl anc) - 4) (tl anc)))
     @ key_part (snd (hd anc)) @ [34]"

text \<open>\<open>None\<close> for the parent is undefined behaviour in the source (\<open>unwrap_unchecked\<close>).\<close>

definition detect_circular_reference ::
    "js_env \<Rightarrow> nat \<Rightarrow> byte list option \<Rightarrow> nat option \<Rightarrow> nat option \<Rightarrow> ancestors
      \<Rightarrow> (byte list, unit) res \<times> ancestors" where
  "detect_circular_reference env current k i par anc =
     (case par of
        None \<Rightarrow> (Panic, anc)
      | Some p \<Rightarrow>
          let anc1 = pop_to_parent p anc
          in if current \<in> fst ` set anc1 then (Err (circular_message anc1), anc1)
             else (Ok (), anc1 @ [(current, case k of
                     Some k' \<Rightarrow> k'
                   | None \<Rightarrow> [91] @ itoa env (int (case i of Some n \<Rightarrow> n | None \<Rightarrow> 0)) @ [93])]))"

section \<open>Iteration\<close>

type_synonym iter_fn = "sctx \<Rightarrow> jval option \<Rightarrow> sstate \<Rightarrow> ((byte list, unit) res \<times> sstate) option"

definition append_value ::
    "iter_fn \<Rightarrow> js_env \<Rightarrow> js_opts \<Rightarrow> sctx \<Rightarrow> bool \<Rightarrow> sstate \<Rightarrow> ((byte list, bool) res \<times> sstate) option" where
  "append_value it env opts cx add_comma st =
     (case st of (out, anc) \<Rightarrow>
        (case write_primitive env opts cx add_comma out of
           (Ok Written, o1) \<Rightarrow> Some (Ok True, o1, anc)
         | (Ok Ignored, o1) \<Rightarrow> Some (Ok False, o1, anc)
         | (Ok (Iterate nv), o1) \<Rightarrow>
             (case it (cx\<lparr>depth := depth cx + 1\<rparr>) nv (o1, anc) of
                None \<Rightarrow> None
              | Some (r, st') \<Rightarrow> Some (rmap (\<lambda>_. True) r, st'))
         | (Err e, o1) \<Rightarrow> Some (Err e, o1, anc)
         | (Panic, o1) \<Rightarrow> Some (Panic, o1, anc)))"

definition run_to_json ::
    "iter_fn \<Rightarrow> js_env \<Rightarrow> js_opts \<Rightarrow> sctx \<Rightarrow> nat \<Rightarrow> (byte list, jval) res \<Rightarrow> sstate
      \<Rightarrow> ((byte list, unit) res \<times> sstate) option" where
  "run_to_json it env opts cx obj called st =
     (case called of
        Ok v \<Rightarrow>
          let nested = (case v of JRef p \<Rightarrow> kind env p \<in> {KObject, KArray} | _ \<Rightarrow> False);
              cx' = \<lparr>value_of = v, depth = depth cx, indentation = (if nested then indentation cx else None),
                     key = None, index = None, parent = Some obj\<rparr>
          in map_option (\<lambda>(r, st'). (rmap (\<lambda>_. ()) r, st')) (append_value it env opts cx' False st)
      | Err e \<Rightarrow> Some (Err e, st)
      | Panic \<Rightarrow> Some (Panic, st))"

fun object_loop ::
    "iter_fn \<Rightarrow> js_env \<Rightarrow> js_opts \<Rightarrow> sctx \<Rightarrow> nat \<Rightarrow> byte list list \<Rightarrow> bool \<Rightarrow> sstate
      \<Rightarrow> ((byte list, bool) res \<times> sstate) option" where
  "object_loop it env opts cx obj [] value_written st = Some (Ok value_written, st)"
| "object_loop it env opts cx obj (k # ks) value_written st =
     (case get_prop env obj k of
        Ok v \<Rightarrow>
          (case append_value it env opts
                  \<lparr>value_of = v, depth = depth cx, indentation = indentation cx, key = Some k, index = None, parent = Some obj\<rparr>
                  value_written st of
             None \<Rightarrow> None
           | Some (Ok add_comma, st') \<Rightarrow> object_loop it env opts cx obj ks (value_written \<or> add_comma) st'
           | Some (r, st') \<Rightarrow> Some (r, st'))
      | Err e \<Rightarrow> Some (Err e, st)
      | Panic \<Rightarrow> Some (Panic, st))"

fun array_loop ::
    "iter_fn \<Rightarrow> js_env \<Rightarrow> js_opts \<Rightarrow> sctx \<Rightarrow> nat \<Rightarrow> nat \<Rightarrow> (byte list, jval) res list \<Rightarrow> bool \<Rightarrow> bool \<Rightarrow> sstate
      \<Rightarrow> ((byte list, bool) res \<times> sstate) option" where
  "array_loop it env opts cx arr i [] add_comma value_written st = Some (Ok value_written, st)"
| "array_loop it env opts cx arr i (x # xs) add_comma value_written st =
     (case x of
        Ok v \<Rightarrow>
          (case append_value it env opts
                  \<lparr>value_of = v, depth = depth cx, indentation = indentation cx, key = None, index = Some i, parent = Some arr\<rparr>
                  add_comma st of
             None \<Rightarrow> None
           | Some (Ok comma, st') \<Rightarrow> array_loop it env opts cx arr (i + 1) xs comma (value_written \<or> comma) st'
           | Some (r, st') \<Rightarrow> Some (r, st'))
      | Err e \<Rightarrow> Some (Err e, st)
      | Panic \<Rightarrow> Some (Panic, st))"

text \<open>The detection step at the start of an object or array.\<close>

definition check_depth :: "js_env \<Rightarrow> sctx \<Rightarrow> nat \<Rightarrow> ancestors \<Rightarrow> (byte list, unit) res \<times> ancestors" where
  "check_depth env cx p anc =
     (if CIRCULAR_REF_DETECTION_DEPTH < depth cx
      then detect_circular_reference env p (key cx) (index cx) (parent cx) anc else (Ok (), anc))"

definition keys_of :: "js_env \<Rightarrow> nat \<Rightarrow> byte list list" where
  "keys_of env p = (if own_keys env p = [] then object_keys env p else own_keys env p)"

text \<open>What is written behind the members, and the closing bracket.\<close>

definition close_with :: "byte \<Rightarrow> sctx \<Rightarrow> ((byte list, bool) res \<times> sstate) option \<Rightarrow> ((byte list, unit) res \<times> sstate) option" where
  "close_with b cx r =
     (case r of
        None \<Rightarrow> None
      | Some (Ok written, out, anc) \<Rightarrow>
          Some (Ok (), (if written then write_indentation (indentation cx) (depth cx) out else out) @ [b], anc)
      | Some (Err e, st) \<Rightarrow> Some (Err e, st)
      | Some (Panic, st) \<Rightarrow> Some (Panic, st))"

primrec iterate :: "nat \<Rightarrow> js_env \<Rightarrow> js_opts \<Rightarrow> iter_fn" where
  "iterate 0 env opts cx new_value st = None"
| "iterate (Suc n) env opts cx new_value st =
     (let elem = (case new_value of Some v \<Rightarrow> v | None \<Rightarrow> value_of cx);
          it = iterate n env opts
      in case elem of
           JRef p \<Rightarrow>
             (case kind env p of
                KObject \<Rightarrow>
                  (case to_json env p of
                     Some called \<Rightarrow> run_to_json it env opts cx p called st
                   | None \<Rightarrow>
                       (case check_depth env cx p (snd st) of
                          (Ok _, anc) \<Rightarrow>
                            close_with 125 cx (object_loop it env opts cx p (keys_of env p) False (fst st @ [123], anc))
                        | (Err e, anc) \<Rightarrow> Some (Err e, fst st, anc)
                        | (Panic, anc) \<Rightarrow> Some (Panic, fst st, anc)))
              | KArray \<Rightarrow>
                  (case check_depth env cx p (snd st) of
                     (Ok _, anc) \<Rightarrow>
                       close_with 93 cx (array_loop it env opts cx p 0 (arr_items env p) False False (fst st @ [91], anc))
                   | (Err e, anc) \<Rightarrow> Some (Err e, fst st @ [91], anc)
                   | (Panic, anc) \<Rightarrow> Some (Panic, fst st @ [91], anc))
              | KOther \<Rightarrow> Some (Ok (), st))
         | _ \<Rightarrow> Some (Ok (), st))"

section \<open>Entry point\<close>

definition key_filter :: "js_env \<Rightarrow> jval list \<Rightarrow> byte list set" where
  "key_filter env vs =
     set (List.map_filter (\<lambda>v. case v of
        JString s \<Rightarrow> Some s | JInt n \<Rightarrow> Some (itoa env n) | JFloat w \<Rightarrow> Some (ryu_format env w) | _ \<Rightarrow> None) vs)"

definition js_opts_of :: "js_env \<Rightarrow> replacer_arg \<Rightarrow> js_opts" where
  "js_opts_of env r =
     (case r of
        No_Replacer \<Rightarrow> \<lparr>replacer_fn = None, include_keys_replacer = None\<rparr>
      | Replacer_Fn f \<Rightarrow> \<lparr>replacer_fn = Some f, include_keys_replacer = None\<rparr>
      | Replacer_Array vs \<Rightarrow> \<lparr>replacer_fn = None, include_keys_replacer = Some (key_filter env vs)\<rparr>)"

definition json_stringify_replacer_space ::
    "nat \<Rightarrow> js_env \<Rightarrow> jval \<Rightarrow> replacer_arg \<Rightarrow> byte list option \<Rightarrow> (byte list, byte list option) res option" where
  "json_stringify_replacer_space fuel env v r ind =
     (let opts = js_opts_of env r;
          cx = \<lparr>value_of = v, depth = 0, indentation = None, key = None, index = None, parent = None\<rparr>
      in case write_primitive env opts cx False [] of
           (Ok Written, out) \<Rightarrow> Some (Ok (Some out))
         | (Ok Ignored, out) \<Rightarrow> Some (Ok None)
         | (Ok (Iterate _), out) \<Rightarrow>
             (case iterate fuel env opts (cx\<lparr>depth := 1, indentation := ind\<rparr>) None (out, []) of
                None \<Rightarrow> None
              | Some (Ok _, out', anc) \<Rightarrow> Some (Ok (Some out'))
              | Some (Err e, st) \<Rightarrow> Some (Err e)
              | Some (Panic, st) \<Rightarrow> Some Panic)
         | (Err e, out) \<Rightarrow> Some (Err e)
         | (Panic, out) \<Rightarrow> Some Panic)"

end
