(* ===== verification/Json_Stringify_Laws.thy ===== *)
theory Json_Stringify_Laws
  imports Json_Stringify "HOL-Library.Sublist"
begin

text \<open>
  Properties of \<open>JSON.stringify\<close>: it returns on every finite heap, cyclic or not, and on the heap
  image of a JSON document it prints that document.
\<close>

section \<open>The ancestors\<close>


lemma pop_rev_suffix: "suffix (pop_rev p xs) xs"
  by (induction p xs rule: pop_rev.induct) (auto intro: suffix_ConsI)

lemma pop_rev_hd: "pop_rev p xs \<noteq> [] \<Longrightarrow> fst (hd (pop_rev p xs)) = p"
  by (induction p xs rule: pop_rev.induct) auto


lemma pop_prefix: "prefix (pop_to_parent p anc) anc"
  using pop_rev_suffix [of p "rev anc"] by (simp add: pop_to_parent_def suffix_to_prefix)

lemma pop_last: "pop_to_parent p anc \<noteq> [] \<Longrightarrow> fst (last (pop_to_parent p anc)) = p"
  using pop_rev_hd [of p "rev anc"] by (simp add: pop_to_parent_def last_rev)



section \<open>Termination on finite heaps\<close>


















section \<open>Documents\<close>

text \<open>A JSON document; \<open>Lit\<close> carries the text of a number, a boolean or null.\<close>

datatype json = Lit "byte list" | Str "byte list" | Arr "json list" | Obj "(byte list \<times> json) list"

definition scalar_doc :: "js_env \<Rightarrow> jval \<Rightarrow> json option" where
  "scalar_doc env v =
     (case v of
        JNull \<Rightarrow> Some (Lit null_text)
      | JBool b \<Rightarrow> Some (Lit (if b then true_text else false_text))
      | JInt n \<Rightarrow> Some (Lit (itoa env n))
      | JFloat w \<Rightarrow> map_option Lit (float_text env w)
      | JString s \<Rightarrow> if no_surrogate s then Some (Str s) else None
      | _ \<Rightarrow> None)"

definition omitted :: "jval \<Rightarrow> bool" where
  "omitted v \<longleftrightarrow> v \<in> {JSymbol, JUndefined, JFunction}"

text \<open>
  Reading members and elements with a reader for the nested values: members whose value is
  undefined, a function or a symbol are omitted, undefined elements are null. Getters must not
  throw, and keys must be free of surrogates.
\<close>

fun doc_members ::
    "(jval \<Rightarrow> json option) \<Rightarrow> (byte list \<Rightarrow> (byte list, jval) res) \<Rightarrow> byte list list \<Rightarrow> (byte list \<times> json) list option" where
  "doc_members f g [] = Some []"
| "doc_members f g (k # ks) =
     (case g k of
        Ok v \<Rightarrow>
          if omitted v then doc_members f g ks
          else do { t \<leftarrow> (if no_surrogate k then f v else None); ms \<leftarrow> doc_members f g ks; Some ((k, t) # ms) }
      | _ \<Rightarrow> None)"

fun doc_elements :: "(jval \<Rightarrow> json option) \<Rightarrow> (byte list, jval) res list \<Rightarrow> json list option" where
  "doc_elements f [] = Some []"
| "doc_elements f (x # xs) =
     (case x of
        Ok v \<Rightarrow> do { t \<leftarrow> (if v = JUndefined then Some (Lit null_text) else f v); ts \<leftarrow> doc_elements f xs; Some (t # ts) }
      | _ \<Rightarrow> None)"

text \<open>The document below a value, read to depth \<open>n\<close>; \<open>None\<close> if it is deeper, cyclic or no JSON data.\<close>

primrec doc_of :: "nat \<Rightarrow> js_env \<Rightarrow> jval \<Rightarrow> json option" where
  "doc_of 0 env v = scalar_doc env v"
| "doc_of (Suc n) env v =
     (case v of
        JRef p \<Rightarrow>
          (case kind env p of
             KObject \<Rightarrow> if to_json env p = None
               then map_option Obj (doc_members (doc_of n env) (get_prop env p) (keys_of env p)) else None
           | KArray \<Rightarrow> map_option Arr (doc_elements (doc_of n env) (arr_items env p))
           | KOther \<Rightarrow> None)
      | _ \<Rightarrow> scalar_doc env v)"

text \<open>The reference printer, compact or indented.\<close>

definition line_start :: "byte list option \<Rightarrow> nat \<Rightarrow> byte list" where
  "line_start ind d = (case ind of Some i \<Rightarrow> 10 # concat (replicate d i) | None \<Rightarrow> [])"

definition colon :: "byte list option \<Rightarrow> byte list" where
  "colon ind = (case ind of Some i \<Rightarrow> [58, 32] | None \<Rightarrow> [58])"

definition print_string :: "byte list \<Rightarrow> byte list" where
  "print_string s = [34] @ esc_ref s @ [34]"

fun print_json :: "byte list option \<Rightarrow> nat \<Rightarrow> json \<Rightarrow> byte list"
  and print_elements :: "byte list option \<Rightarrow> nat \<Rightarrow> bool \<Rightarrow> json list \<Rightarrow> byte list"
  and print_members :: "byte list option \<Rightarrow> nat \<Rightarrow> bool \<Rightarrow> (byte list \<times> json) list \<Rightarrow> byte list" where
  "print_json ind d (Lit t) = t"
| "print_json ind d (Str s) = print_string s"
| "print_json ind d (Arr ts) =
     [91] @ print_elements ind d False ts @ (if ts = [] then [] else line_start ind (d - 1)) @ [93]"
| "print_json ind d (Obj ms) =
     [123] @ print_members ind d False ms @ (if ms = [] then [] else line_start ind (d - 1)) @ [125]"
| "print_elements ind d comma [] = []"
| "print_elements ind d comma (t # ts) =
     (if comma then [44] else []) @ line_start ind d @ print_json ind (d + 1) t @ print_elements ind d True ts"
| "print_members ind d comma [] = []"
| "print_members ind d comma ((k, t) # ms) =
     (if comma then [44] else []) @ line_start ind d @ print_string k @ colon ind @ print_json ind (d + 1) t
     @ print_members ind d True ms"

section \<open>Printing one value\<close>

definition plain_opts :: js_opts where
  "plain_opts = \<lparr>replacer_fn = None, include_keys_replacer = None\<rparr>"

text \<open>What is written before a value: comma, line and key.\<close>

definition lead_in :: "sctx \<Rightarrow> bool \<Rightarrow> byte list" where
  "lead_in cx comma = (if comma then [44] else []) @ line_start (indentation cx) (depth cx)
     @ (case key cx of Some k \<Rightarrow> print_string k @ colon (indentation cx) | None \<Rightarrow> [])"

definition key_ok :: "sctx \<Rightarrow> bool" where
  "key_ok cx \<longleftrightarrow> (\<forall>k. key cx = Some k \<longrightarrow> no_surrogate k)"

lemma write_key_ref: "no_surrogate k \<Longrightarrow> write_key k ind out = Some (out @ print_string k @ [58] @ (if ind then [32] else []))"
  by (simp add: write_key_def escape_json_string_ref print_string_def)

lemma lead_in_written:
  assumes "key_ok cx"
  shows "(case indentation cx of
            Some ind \<Rightarrow> write_indented_separator (key cx) comma ind (depth cx) out
          | None \<Rightarrow>
              (let o1 = write_sep comma False out
               in case key cx of Some k \<Rightarrow> write_key k False o1 | None \<Rightarrow> Some o1)) = Some (out @ lead_in cx comma)"
  using assms
  by (auto simp: lead_in_def key_ok_def write_sep_def write_indented_separator_def write_key_ref line_start_def colon_def
      Let_def split: option.splits)

lemma write_scalar:
  assumes "scalar_doc env v = Some t" "key_ok cx" "value_of cx = v"
  shows "write_primitive env plain_opts cx comma out = (Ok Written, out @ lead_in cx comma @ print_json ind d t)"
proof -
  have v: "\<not> (index cx = None \<and> v \<in> {JSymbol, JUndefined, JFunction})" "v \<noteq> JBigInt"
    using assms(1) by (auto simp: scalar_doc_def)
  show ?thesis
    unfolding write_primitive_def write_primitive2_def plain_opts_def
    using assms v
    by (cases v) (auto simp: lead_in_written scalar_doc_def write_string_def escape_json_string_ref print_string_def
        split: if_splits option.splits)
qed

lemma write_undefined_element:
  assumes "value_of cx = JUndefined" "index cx = Some i" "key_ok cx"
  shows "write_primitive env plain_opts cx comma out = (Ok Written, out @ lead_in cx comma @ null_text)"
  using assms by (simp add: write_primitive_def write_primitive2_def plain_opts_def lead_in_written)

lemma write_omitted:
  assumes "omitted (value_of cx)" "index cx = None"
  shows "write_primitive env plain_opts cx comma out = (Ok Ignored, out)"
  using assms by (simp add: write_primitive_def write_primitive2_def plain_opts_def omitted_def)

lemma write_ref:
  assumes "value_of cx = JRef p" "key_ok cx"
  shows "write_primitive env plain_opts cx comma out = (Ok (Iterate None), out @ lead_in cx comma)"
  using assms by (simp add: write_primitive_def write_primitive2_def plain_opts_def lead_in_written)

section \<open>Ranks\<close>

lemma doc_of_scalar: "\<forall>p. v \<noteq> JRef p \<Longrightarrow> doc_of n env v = scalar_doc env v"
  by (cases n; cases v) simp_all

lemma doc_of_0_ref [simp]: "doc_of 0 env (JRef p) = None"
  by (simp add: scalar_doc_def)

lemma doc_members_mono:
  assumes "\<And>v t. f v = Some t \<Longrightarrow> f' v = Some t"
  shows "doc_members f g ks = Some ms \<Longrightarrow> doc_members f' g ks = Some ms"
  by (induction ks arbitrary: ms)
    (auto simp: assms split: res.splits if_splits Option.bind_splits)

lemma doc_elements_mono:
  assumes "\<And>v t. f v = Some t \<Longrightarrow> f' v = Some t"
  shows "doc_elements f xs = Some ts \<Longrightarrow> doc_elements f' xs = Some ts"
  by (induction xs arbitrary: ts)
    (auto simp: assms split: res.splits if_splits Option.bind_splits)

lemma doc_of_mono: "doc_of n env v = Some t \<Longrightarrow> doc_of (Suc n) env v = Some t"
proof (induction n arbitrary: v t)
  case 0
  then show ?case by (cases v) (simp_all add: scalar_doc_def)
next
  case (Suc n)
  note members = doc_members_mono [of "doc_of n env" "doc_of (Suc n) env", OF Suc.IH]
    and elements = doc_elements_mono [of "doc_of n env" "doc_of (Suc n) env", OF Suc.IH]
  show ?case
  proof (cases v)
    case (JRef p)
    with Suc.prems show ?thesis
      by (subst doc_of.simps(2)) (auto split: jkind.splits if_splits simp del: doc_of.simps(2)
          simp: doc_of.simps(2) [of n] intro: members elements)
  qed (use Suc.prems in simp_all)
qed

lemma doc_of_le: "doc_of n env v = Some t \<Longrightarrow> n \<le> m \<Longrightarrow> doc_of m env v = Some t"
  by (induction m) (auto simp: le_Suc_eq simp del: doc_of.simps dest: doc_of_mono)

text \<open>The depth of the document below an object.\<close>

definition rank :: "js_env \<Rightarrow> nat \<Rightarrow> nat" where
  "rank env p = (LEAST n. doc_of n env (JRef p) \<noteq> None)"

definition child_ref :: "js_env \<Rightarrow> nat \<Rightarrow> nat \<Rightarrow> bool" where
  "child_ref env p q \<longleftrightarrow>
     (case kind env p of
        KObject \<Rightarrow> (\<exists>k\<in>set (keys_of env p). get_prop env p k = Ok (JRef q))
      | KArray \<Rightarrow> Ok (JRef q) \<in> set (arr_items env p)
      | KOther \<Rightarrow> False)"

lemma doc_members_child: "doc_members f g ks = Some ms \<Longrightarrow> k \<in> set ks \<Longrightarrow> g k = Ok (JRef q) \<Longrightarrow> f (JRef q) \<noteq> None"
  by (induction ks arbitrary: ms) (auto simp: omitted_def split: res.splits if_splits Option.bind_splits)

lemma doc_elements_child: "doc_elements f xs = Some ts \<Longrightarrow> Ok (JRef q) \<in> set xs \<Longrightarrow> f (JRef q) \<noteq> None"
  by (induction xs arbitrary: ts) (auto split: res.splits if_splits Option.bind_splits)

lemma doc_of_child: "doc_of (Suc n) env (JRef p) = Some t \<Longrightarrow> child_ref env p q \<Longrightarrow> doc_of n env (JRef q) \<noteq> None"
  by (auto simp: child_ref_def split: jkind.splits if_splits dest: doc_members_child doc_elements_child)

lemma rank_child:
  assumes "doc_of n env (JRef p) = Some t" "child_ref env p q"
  shows "rank env q < rank env p"
proof -
  have "doc_of (rank env p) env (JRef p) \<noteq> None"
    unfolding rank_def using assms(1) by (intro LeastI [of "\<lambda>n. doc_of n env (JRef p) \<noteq> None" n]) simp
  then obtain m t' where m: "rank env p = Suc m" "doc_of (Suc m) env (JRef p) = Some t'"
    by (cases "rank env p") (auto simp: scalar_doc_def)
  from doc_of_child [OF m(2) assms(2)] have "rank env q \<le> m" unfolding rank_def by (rule Least_le)
  with m(1) show ?thesis by simp
qed

definition chain :: "js_env \<Rightarrow> ancestors \<Rightarrow> bool" where
  "chain env anc \<longleftrightarrow> sorted_wrt (\<lambda>p q. rank env q < rank env p) (map fst anc)"

lemma chain_prefix: "prefix A anc \<Longrightarrow> chain env anc \<Longrightarrow> chain env A"
  unfolding prefix_def chain_def by (auto simp: sorted_wrt_append)

lemma check_depth_chain:
  assumes c: "chain env anc" and par: "20 < depth cx \<Longrightarrow> \<exists>q. parent cx = Some q \<and> rank env p < rank env q"
  shows "\<exists>anc'. check_depth env cx p anc = (Ok (), anc') \<and> chain env anc'"
proof (cases "20 < depth cx")
  case True
  then obtain q where q: "parent cx = Some q" "rank env p < rank env q" using par by blast
  let ?A = "pop_to_parent q anc"
  have A: "chain env ?A" by (rule chain_prefix [OF pop_prefix c])
  have "rank env p < rank env x" if "x \<in> fst ` set ?A" for x
  proof -
    from that have ne: "?A \<noteq> []" by auto
    then have split: "map fst ?A = map fst (butlast ?A) @ [q]"
      using pop_last [of q anc] by (metis append_butlast_last_id list.simps(8,9) map_append)
    with A have "\<forall>y\<in>set (map fst (butlast ?A)). rank env q < rank env y"
      unfolding chain_def split by (simp add: sorted_wrt_append)
    moreover have "x = q \<or> x \<in> set (map fst (butlast ?A))" using that arg_cong [OF split, of set] by auto
    ultimately show ?thesis using q(2) by fastforce
  qed
  moreover from this have "p \<notin> fst ` set ?A" by blast
  ultimately show ?thesis
    using True q(1) A
    by (auto simp: check_depth_def CIRCULAR_REF_DETECTION_DEPTH_def detect_circular_reference_def Let_def chain_def
        sorted_wrt_append)
qed (simp add: check_depth_def CIRCULAR_REF_DETECTION_DEPTH_def c)

section \<open>Printing documents\<close>

definition prints :: "js_env \<Rightarrow> (jval \<Rightarrow> json option) \<Rightarrow> iter_fn \<Rightarrow> nat \<Rightarrow> nat \<Rightarrow> bool" where
  "prints env f it d obj \<longleftrightarrow>
     (\<forall>cx out anc p t. value_of cx = JRef p \<and> f (JRef p) = Some t \<and> depth cx = d \<and> parent cx = Some obj
        \<and> rank env p < rank env obj \<and> chain env anc \<longrightarrow>
        (\<exists>anc'. it cx None (out, anc) = Some (Ok (), out @ print_json (indentation cx) d t, anc') \<and> chain env anc'))"

lemma append_value_prints:
  assumes pr: "prints env (doc_of n env) it (depth cx + 1) obj" and t: "doc_of n env (value_of cx) = Some t"
    and cx: "parent cx = Some obj" "key_ok cx" and r: "\<And>p. value_of cx = JRef p \<Longrightarrow> rank env p < rank env obj"
    and c: "chain env anc"
  shows "\<exists>anc'. append_value it env plain_opts cx comma (out, anc)
      = Some (Ok True, out @ lead_in cx comma @ print_json (indentation cx) (depth cx + 1) t, anc') \<and> chain env anc'"
proof (cases "\<exists>p. value_of cx = JRef p")
  case False
  then have "scalar_doc env (value_of cx) = Some t" using t doc_of_scalar [of "value_of cx" n env] by simp
  from write_scalar [OF this cx(2) refl, of comma out "indentation cx" "depth cx + 1"] c
  show ?thesis by (simp add: append_value_def)
next
  case True
  then obtain p where p: "value_of cx = JRef p" by blast
  let ?cx = "cx\<lparr>depth := depth cx + 1\<rparr>"
  have "\<exists>anc'. it ?cx None (out @ lead_in cx comma, anc)
      = Some (Ok (), (out @ lead_in cx comma) @ print_json (indentation ?cx) (depth cx + 1) t, anc') \<and> chain env anc'"
    using pr [unfolded prints_def, rule_format, of ?cx p t anc "out @ lead_in cx comma"] p t cx(1) r c by simp
  then show ?thesis using write_ref [OF p cx(2), of env comma out] by (auto simp: append_value_def)
qed

lemma object_loop_prints:
  assumes pr: "prints env (doc_of n env) it (depth cx + 1) obj"
    and r: "\<forall>k\<in>set ks. \<forall>q. get_prop env obj k = Ok (JRef q) \<longrightarrow> rank env q < rank env obj"
  shows "doc_members (doc_of n env) (get_prop env obj) ks = Some ms \<Longrightarrow> chain env anc \<Longrightarrow>
    \<exists>anc'. object_loop it env plain_opts cx obj ks vw (out, anc)
      = Some (Ok (vw \<or> ms \<noteq> []), out @ print_members (indentation cx) (depth cx) vw ms, anc') \<and> chain env anc'"
  using r
proof (induction ks arbitrary: ms vw out anc)
  case (Cons k ks)
  from Cons.prems(1) obtain v where v: "get_prop env obj k = Ok v" by (auto split: res.splits)
  let ?cx = "\<lparr>value_of = v, depth = depth cx, indentation = indentation cx, key = Some k, index = None, parent = Some obj\<rparr>"
  show ?case
  proof (cases "omitted v")
    case True
    with Cons.prems v Cons.IH [of ms anc vw out] write_omitted [of ?cx env vw out] show ?thesis
      by (simp add: append_value_def)
  next
    case False
    with Cons.prems(1) v obtain t ms' where t: "no_surrogate k" "doc_of n env v = Some t"
      "doc_members (doc_of n env) (get_prop env obj) ks = Some ms'" "ms = (k, t) # ms'"
      by (auto split: Option.bind_splits if_splits)
    obtain anc1 where a: "append_value it env plain_opts ?cx vw (out, anc)
        = Some (Ok True, out @ lead_in ?cx vw @ print_json (indentation cx) (depth cx + 1) t, anc1)" "chain env anc1"
      using append_value_prints [of env n it ?cx obj t anc vw out] pr t Cons.prems(2,3) v by (auto simp: key_ok_def)
    from Cons.IH [OF t(3) a(2), of True "out @ lead_in ?cx vw @ print_json (indentation cx) (depth cx + 1) t"] Cons.prems(3)
    show ?thesis using a(1) v t(4) by (auto simp: lead_in_def)
  qed
qed simp

lemma array_loop_prints:
  assumes pr: "prints env (doc_of n env) it (depth cx + 1) arr"
    and r: "\<forall>q. Ok (JRef q) \<in> set xs \<longrightarrow> rank env q < rank env arr"
  shows "doc_elements (doc_of n env) xs = Some ts \<Longrightarrow> chain env anc \<Longrightarrow>
    \<exists>anc'. array_loop it env plain_opts cx arr i xs comma vw (out, anc)
      = Some (Ok (vw \<or> ts \<noteq> []), out @ print_elements (indentation cx) (depth cx) comma ts, anc') \<and> chain env anc'"
  using r
proof (induction xs arbitrary: ts i comma vw out anc)
  case (Cons x xs)
  from Cons.prems(1) obtain v t ts' where v: "x = Ok v"
    "(if v = JUndefined then Some (Lit null_text) else doc_of n env v) = Some t"
    "doc_elements (doc_of n env) xs = Some ts'" "ts = t # ts'"
    by (auto split: res.splits Option.bind_splits)
  let ?cx = "\<lparr>value_of = v, depth = depth cx, indentation = indentation cx, key = None, index = Some i, parent = Some arr\<rparr>"
  obtain anc1 where a: "append_value it env plain_opts ?cx comma (out, anc)
      = Some (Ok True, out @ lead_in ?cx comma @ print_json (indentation cx) (depth cx + 1) t, anc1)" "chain env anc1"
  proof (cases "v = JUndefined")
    case True
    with v(2) write_undefined_element [of ?cx i env comma out] Cons.prems(2) show thesis
      by (intro that [of anc]) (auto simp: append_value_def key_ok_def)
  next
    case False
    with append_value_prints [of env n it ?cx arr t anc comma out] pr v(1,2) Cons.prems(2,3) show thesis
      by (auto simp: key_ok_def intro: that)
  qed
  from Cons.IH [OF v(3) a(2), of "i + 1" True "vw \<or> True" "out @ lead_in ?cx comma @ print_json (indentation cx) (depth cx + 1) t"]
    Cons.prems(3)
  show ?case using a(1) v(1,4) by (auto simp: lead_in_def)
qed simp

lemma iterate_prints:
  "doc_of n env (JRef p) = Some t \<Longrightarrow> value_of cx = JRef p \<Longrightarrow> chain env anc \<Longrightarrow>
    (20 < depth cx \<Longrightarrow> \<exists>q. parent cx = Some q \<and> rank env p < rank env q) \<Longrightarrow>
    \<exists>anc'. iterate n env plain_opts cx None (out, anc)
      = Some (Ok (), out @ print_json (indentation cx) (depth cx) t, anc') \<and> chain env anc'"
proof (induction n arbitrary: p t cx out anc)
  case 0
  then show ?case by (simp add: scalar_doc_def)
next
  case (Suc n)
  obtain anc1 where c: "check_depth env cx p anc = (Ok (), anc1)" "chain env anc1"
    using check_depth_chain [OF Suc.prems(3,4)] by blast
  note child = rank_child [OF Suc.prems(1)]
  have pr: "prints env (doc_of n env) (iterate n env plain_opts) (depth cx + 1) p"
    unfolding prints_def
  proof (intro allI impI, elim conjE)
    fix cx' :: sctx and o1 anc2 q t2
    assume "value_of cx' = JRef q" "doc_of n env (JRef q) = Some t2" and d: "depth cx' = depth cx + 1"
      and "parent cx' = Some p" "rank env q < rank env p" "chain env anc2"
    then show "\<exists>anc'. iterate n env plain_opts cx' None (o1, anc2)
        = Some (Ok (), o1 @ print_json (indentation cx') (depth cx + 1) t2, anc') \<and> chain env anc'"
      unfolding d [symmetric] by (intro Suc.IH) auto
  qed
  have close: "write_indentation (indentation cx) (depth cx) o1 = o1 @ line_start (indentation cx) (depth cx - 1)" for o1
    by (simp add: write_indentation_def line_start_def split: option.split)
  show ?case
  proof (cases "kind env p")
    case KObject
    with Suc.prems(1) obtain ms where ms: "doc_members (doc_of n env) (get_prop env p) (keys_of env p) = Some ms"
      "t = Obj ms" "to_json env p = None" by (auto split: if_splits)
    have "\<forall>k\<in>set (keys_of env p). \<forall>q. get_prop env p k = Ok (JRef q) \<longrightarrow> rank env q < rank env p"
      using child KObject by (auto simp: child_ref_def)
    from object_loop_prints [OF pr this ms(1) c(2), of False "out @ [123]"] KObject ms c Suc.prems(2)
    show ?thesis by (auto simp: close_with_def close)
  next
    case KArray
    with Suc.prems(1) obtain ts where ts: "doc_elements (doc_of n env) (arr_items env p) = Some ts" "t = Arr ts" by auto
    have "\<forall>q. Ok (JRef q) \<in> set (arr_items env p) \<longrightarrow> rank env q < rank env p"
      using child KArray by (auto simp: child_ref_def)
    from array_loop_prints [OF pr this ts(1) c(2), of 0 False False "out @ [91]"] KArray ts c Suc.prems(2)
    show ?thesis by (auto simp: close_with_def close)
  qed (use Suc.prems(1) in simp)
qed

section \<open>Properties\<close>

text \<open>C8: \<open>JSON.stringify\<close> prints documents: if the heap below a value is a JSON document \<open>t\<close> (data only,
  no \<open>toJSON\<close> methods, no throwing getters, no cycles, shared parts allowed), the result is the text
  of \<open>t\<close>, compact or indented, whatever its depth; the circularity check never raises a false alarm.\<close>

theorem stringify_prints_document:
  assumes "doc_of n env v = Some t" "n \<le> fuel"
  shows "json_stringify_replacer_space fuel env v No_Replacer ind = Some (Ok (Some (print_json ind 1 t)))"
proof -
  let ?cx = "\<lparr>value_of = v, depth = 0, indentation = None, key = None, index = None, parent = None\<rparr>"
  have t: "doc_of fuel env v = Some t" by (rule doc_of_le [OF assms])
  have opts: "js_opts_of env No_Replacer = plain_opts" by (simp add: js_opts_of_def plain_opts_def)
  have lead: "lead_in ?cx False = []" by (simp add: lead_in_def line_start_def)
  show ?thesis
  proof (cases "\<exists>p. v = JRef p")
    case False
    then have "scalar_doc env v = Some t" using t doc_of_scalar [of v fuel env] by simp
    from write_scalar [OF this, of ?cx False "[]" ind 1] show ?thesis
      unfolding json_stringify_replacer_space_def Let_def opts by (simp add: key_ok_def lead)
  next
    case True
    then obtain p where p: "v = JRef p" by blast
    have "\<exists>anc'. iterate fuel env plain_opts (?cx\<lparr>depth := 1, indentation := ind\<rparr>) None ([], [])
        = Some (Ok (), [] @ print_json (indentation (?cx\<lparr>depth := 1, indentation := ind\<rparr>)) (depth (?cx\<lparr>depth := 1, indentation := ind\<rparr>)) t, anc')
        \<and> chain env anc'"
      using t p by (intro iterate_prints) (auto simp: chain_def)
    with write_ref [of ?cx p env False "[]"] p show ?thesis
      unfolding json_stringify_replacer_space_def Let_def opts by (auto simp: key_ok_def lead_in_def line_start_def)
  qed
qed

text \<open>An object that holds one array twice: \<open>{"a":[true,null],"b":[true,null]}\<close>.\<close>

definition sample_env :: js_env where
  "sample_env = \<lparr>kind = (\<lambda>p. if p = 0 then KObject else KArray), own_keys = (\<lambda>p. [[97], [98]]), object_keys = (\<lambda>p. []),
     get_prop = (\<lambda>p k. Ok (JRef 1)), arr_items = (\<lambda>p. [Ok (JBool True), Ok JUndefined]), to_json = (\<lambda>p. None),
     itoa = (\<lambda>n. [48]), ryu_format_finite = (\<lambda>w. [48, 46, 48]), ryu_format = (\<lambda>w. [48, 46, 48])\<rparr>"

theorem stringify_prints_document_witness:
  "json_stringify_replacer_space 2 sample_env (JRef 0) No_Replacer None =
     Some (Ok (Some (print_json None 1
       (Obj [([97], Arr [Lit true_text, Lit null_text]), ([98], Arr [Lit true_text, Lit null_text])]))))"
proof -
  have "doc_of 2 sample_env (JRef 0) =
      Some (Obj [([97], Arr [Lit true_text, Lit null_text]), ([98], Arr [Lit true_text, Lit null_text])])"
    by (simp add: numeral_2_eq_2 sample_env_def keys_of_def omitted_def scalar_doc_def no_surrogate_def)
  from stringify_prints_document [OF this, of 2 None] show ?thesis by simp
qed




section \<open>Where it goes wrong\<close>

lemmas stringify_eval = json_stringify_replacer_space_def js_opts_of_def write_primitive_def write_primitive2_def
  run_replacer_def run_to_json_def append_value_def check_depth_def CIRCULAR_REF_DETECTION_DEPTH_def close_with_def keys_of_def
  get_key_or_index_def write_sep_def write_key_def write_string_def escape_json_string_ref no_surrogate_def esc_byte_def esc_ref_def
  special_byte_def key_filter_def List.map_filter_simps sample_env_def

text \<open>An array replacer is also applied to the root, under the key \<open>"0"\<close>: the result is undefined.\<close>

lemma array_replacer_drops_root:
  "json_stringify_replacer_space n sample_env (JRef 0) (Replacer_Array [JString [97]]) None = Some (Ok None)"
  by (simp add: stringify_eval)

text \<open>The value a replacer function returns for the root is thrown away: the original is written.\<close>

lemma replacer_result_for_root_ignored:
  "json_stringify_replacer_space 1 (sample_env\<lparr>arr_items := (\<lambda>p. if p = 1 then [] else [Ok JNull])\<rparr>) (JRef 1)
     (Replacer_Fn (\<lambda>h k v. Ok (JRef 2))) None = Some (Ok (Some [91, 93]))"
  by (simp add: stringify_eval)

text \<open>A function inside an array writes nothing, not even null: \<open>[,true]\<close>.\<close>

lemma function_in_array_writes_nothing:
  "json_stringify_replacer_space 2 (sample_env\<lparr>arr_items := (\<lambda>p. [Ok JFunction, Ok (JBool True)])\<rparr>) (JRef 1) No_Replacer None
     = Some (Ok (Some ([91, 44] @ true_text @ [93])))"
  by (simp add: stringify_eval numeral_2_eq_2 write_indentation_def)

text \<open>
  A cycle through a \<open>toJSON\<close> method: object 0 converts to object 1, whose property refers back to
  object 0. Object 0 is never recorded as an ancestor, so looking for it pops everything.
\<close>

definition to_json_cycle_env :: js_env where
  "to_json_cycle_env = sample_env\<lparr>kind := (\<lambda>p. KObject), own_keys := (\<lambda>p. [[97]]),
     get_prop := (\<lambda>p k. Ok (JRef 0)), to_json := (\<lambda>p. if p = 0 then Some (Ok (JRef 1)) else None)\<rparr>"

lemma pop_missing: "p \<notin> fst ` set anc \<Longrightarrow> pop_to_parent p anc = []"
  using pop_last [of p anc] pop_prefix [of p anc] set_mono_prefix [OF pop_prefix [of p anc]]
  by (metis image_eqI last_in_set subsetD)

lemma write_ref_plain: "write_primitive env plain_opts
    \<lparr>value_of = JRef p, depth = d, indentation = i, key = None, index = None, parent = q\<rparr> c out
    = (Ok (Iterate None), out @ lead_in \<lparr>value_of = JRef p, depth = d, indentation = i, key = None, index = None, parent = q\<rparr> c)"
  by (rule write_ref) (simp_all add: key_ok_def)

lemma to_json_cycle_steps:
  fixes cx :: sctx
  shows "0 \<notin> fst ` set anc \<Longrightarrow>
    (value_of cx = JRef 0 \<longrightarrow> iterate n to_json_cycle_env plain_opts cx None (out, anc) = None)
    \<and> (value_of cx = JRef 1 \<and> parent cx = Some 0 \<longrightarrow> iterate n to_json_cycle_env plain_opts cx None (out, anc) = None)"
proof (induction n arbitrary: cx out anc)
  case (Suc n)
  let ?it = "iterate n to_json_cycle_env plain_opts"
  have zero: "?it cx' None (o1, anc) = None" if "value_of cx' = JRef 0" "0 \<notin> fst ` set anc" for cx' :: sctx and o1 anc
    using Suc.IH [of anc cx' o1] that by simp
  have one: "?it cx' None (o1, anc) = None" if "value_of cx' = JRef 1" "parent cx' = Some 0" "0 \<notin> fst ` set anc"
    for cx' :: sctx and o1 anc
    using Suc.IH [of anc cx' o1] that by simp
  have a: "iterate (Suc n) to_json_cycle_env plain_opts cx None (out, anc) = None" if "value_of cx = JRef 0"
    using that Suc.prems one
    by (simp add: to_json_cycle_env_def sample_env_def run_to_json_def append_value_def write_ref_plain Let_def)
  moreover have "iterate (Suc n) to_json_cycle_env plain_opts cx None (out, anc) = None"
    if v: "value_of cx = JRef 1" "parent cx = Some 0"
  proof -
    obtain anc1 where c: "check_depth to_json_cycle_env cx 1 anc = (Ok (), anc1)" "0 \<notin> fst ` set anc1"
      using v(2) pop_missing [OF Suc.prems] Suc.prems
      by (cases "20 < depth cx") (auto simp: check_depth_def CIRCULAR_REF_DETECTION_DEPTH_def detect_circular_reference_def)
    let ?cx = "\<lparr>value_of = JRef 0, depth = depth cx, indentation = indentation cx, key = Some [97], index = None, parent = Some 1\<rparr>"
    have "write_primitive to_json_cycle_env plain_opts ?cx False (out @ [123])
        = (Ok (Iterate None), (out @ [123]) @ lead_in ?cx False)"
      by (rule write_ref) (simp_all add: key_ok_def no_surrogate_def)
    then have "append_value ?it to_json_cycle_env plain_opts ?cx False (out @ [123], anc1) = None"
      using zero c(2) by (simp add: append_value_def)
    then have "object_loop ?it to_json_cycle_env plain_opts cx 1 (keys_of to_json_cycle_env 1) False (out @ [123], anc1) = None"
      by (simp add: to_json_cycle_env_def keys_of_def sample_env_def)
    with v c show ?thesis by (simp add: to_json_cycle_env_def sample_env_def close_with_def)
  qed
  ultimately show ?case by blast
qed simp

text \<open>A cycle that passes through a \<open>toJSON\<close> method is not detected: for no amount of fuel does
  \<open>JSON.stringify\<close> return, so the code recurses until the stack overflows.\<close>

theorem stringify_to_json_cycle:
  "json_stringify_replacer_space fuel to_json_cycle_env (JRef 0) No_Replacer None = None"
proof -
  let ?cx = "\<lparr>value_of = JRef 0, depth = 1, indentation = None, key = None, index = None, parent = None\<rparr>"
  have "iterate fuel to_json_cycle_env plain_opts ?cx None (out, []) = None" for out
    using to_json_cycle_steps [of "[]" ?cx fuel out] by simp
  then show ?thesis
    unfolding json_stringify_replacer_space_def Let_def
    by (simp add: js_opts_of_def plain_opts_def [symmetric] write_ref_plain)
qed

end
