(* ===== verification/Clone_Wire.thy ===== *)
theory Clone_Wire
  imports Rust_Text
begin

text \<open>
  The structured-clone wire format of \<open>raster_runtime_utils/src/clone_wire.rs\<close>, with which workers
  exchange values: the node table, its big-endian binary form with writer and reader, the encoder that
  flattens a cloned object graph into nodes, and the decoder that rebuilds the graph. A string is the
  list of its UTF-8 bytes, an \<open>f64\<close> is its bit pattern, and the errors of the reader are their messages.
\<close>

type_synonym u32 = "32 word"
type_synonym u64 = "64 word"

definition MAGIC :: "byte list" where
  "MAGIC = [82, 83, 67, 49]"

datatype wire_node =
  N_Ref u32 | N_Undefined | N_Null | N_Bool bool | N_Number u64 | N_String "byte list" | N_BigInt "byte list"
| N_Array "u32 list" | N_Object "(byte list \<times> u32) list" | N_Date u64 | N_RegExp "byte list" "byte list"
| N_Error "byte list" | N_ArrayBufferCopy "byte list" | N_SharedArrayBuffer u64
| N_SharedView u64 u32 u32 "byte list" | N_Map "(u32 \<times> u32) list" | N_Set "u32 list"

record clone_wire_payload =
  body :: "byte list"
  transfers :: "byte list list"

section \<open>Writer\<close>

primrec be_bytes :: "nat \<Rightarrow> nat \<Rightarrow> byte list" where
  "be_bytes 0 v = []"
| "be_bytes (Suc n) v = be_bytes n (v div 256) @ [word_of_nat v]"

definition from_be_bytes :: "byte list \<Rightarrow> nat" where
  "from_be_bytes bs = foldl (\<lambda>v b. v * 256 + unat b) 0 bs"

definition write_u32 :: "byte list \<Rightarrow> u32 \<Rightarrow> byte list" where
  "write_u32 out v = out @ be_bytes 4 (unat v)"

definition write_u64 :: "byte list \<Rightarrow> u64 \<Rightarrow> byte list" where
  "write_u64 out v = out @ be_bytes 8 (unat v)"

definition write_f64 :: "byte list \<Rightarrow> u64 \<Rightarrow> byte list" where
  "write_f64 out v = out @ be_bytes 8 (unat v)"

definition write_bytes :: "byte list \<Rightarrow> byte list \<Rightarrow> byte list" where
  "write_bytes out bytes = write_u32 out (word_of_nat (length bytes)) @ bytes"

definition write_prop :: "byte list \<Rightarrow> byte list \<times> u32 \<Rightarrow> byte list" where
  "write_prop out p = write_u32 (write_bytes out (fst p)) (snd p)"

definition write_pair :: "byte list \<Rightarrow> u32 \<times> u32 \<Rightarrow> byte list" where
  "write_pair out p = write_u32 (write_u32 out (fst p)) (snd p)"

definition write_seq :: "(byte list \<Rightarrow> 'a \<Rightarrow> byte list) \<Rightarrow> byte list \<Rightarrow> 'a list \<Rightarrow> byte list" where
  "write_seq w out xs = foldl w (write_u32 out (word_of_nat (length xs))) xs"

fun write_node :: "byte list \<Rightarrow> wire_node \<Rightarrow> byte list" where
  "write_node out (N_Ref i) = write_u32 (out @ [1]) i"
| "write_node out N_Undefined = out @ [2]"
| "write_node out N_Null = out @ [3]"
| "write_node out (N_Bool b) = out @ [4, if b then 1 else 0]"
| "write_node out (N_Number n) = write_f64 (out @ [5]) n"
| "write_node out (N_String s) = write_bytes (out @ [6]) s"
| "write_node out (N_BigInt s) = write_bytes (out @ [7]) s"
| "write_node out (N_Array items) = write_seq write_u32 (out @ [8]) items"
| "write_node out (N_Object props) = write_seq write_prop (out @ [9]) props"
| "write_node out (N_Date t) = write_f64 (out @ [10]) t"
| "write_node out (N_RegExp source flags) = write_bytes (write_bytes (out @ [11]) source) flags"
| "write_node out (N_Error msg) = write_bytes (out @ [12]) msg"
| "write_node out (N_ArrayBufferCopy bytes) = write_bytes (out @ [13]) bytes"
| "write_node out (N_Map pairs) = write_seq write_pair (out @ [14]) pairs"
| "write_node out (N_Set items) = write_seq write_u32 (out @ [15]) items"
| "write_node out (N_SharedArrayBuffer i) = write_u64 (out @ [16]) i"
| "write_node out (N_SharedView i off len name) =
     write_bytes (write_u32 (write_u32 (write_u64 (out @ [17]) i) off) len) name"

section \<open>Reader\<close>

type_synonym 'a reader = "byte list \<Rightarrow> nat \<Rightarrow> (string, 'a \<times> nat) res"

definition end_of_wire :: string where
  "end_of_wire = ''Unexpected end of wire''"

definition read_u8 :: "byte reader" where
  "read_u8 data pos =
     (if length data \<le> pos then Err end_of_wire
      else rmap (\<lambda>b. (b, pos + 1)) (or_panic (vec_get data pos)))"

definition read_u32 :: "u32 reader" where
  "read_u32 data pos =
     (if length data < pos + 4 then Err end_of_wire
      else rmap (\<lambda>bs. (word_of_nat (from_be_bytes bs), pos + 4)) (or_panic (slice data pos (pos + 4))))"

definition read_u64 :: "u64 reader" where
  "read_u64 data pos =
     (if length data < pos + 8 then Err end_of_wire
      else rmap (\<lambda>bs. (word_of_nat (from_be_bytes bs), pos + 8)) (or_panic (slice data pos (pos + 8))))"

definition read_f64 :: "u64 reader" where
  "read_f64 data pos =
     (if length data < pos + 8 then Err end_of_wire
      else rmap (\<lambda>bs. (word_of_nat (from_be_bytes bs), pos + 8)) (or_panic (slice data pos (pos + 8))))"

definition read_vec :: "byte list reader" where
  "read_vec data pos = rbind (read_u32 data pos) (\<lambda>(len, pos).
     if length data < pos + unat len then Err end_of_wire
     else rmap (\<lambda>bs. (bs, pos + unat len)) (or_panic (slice data pos (pos + unat len))))"

definition read_string :: "byte list reader" where
  "read_string data pos = rbind (read_vec data pos) (\<lambda>(bytes, pos).
     if utf8_valid bytes then Ok (bytes, pos) else Err ''Invalid UTF-8'')"

definition read_then :: "'a reader \<Rightarrow> 'b reader \<Rightarrow> ('a \<times> 'b) reader" where
  "read_then r s data pos = rbind (r data pos) (\<lambda>(x, pos). rmap (\<lambda>(y, pos). ((x, y), pos)) (s data pos))"

primrec read_times :: "'a reader \<Rightarrow> nat \<Rightarrow> 'a list reader" where
  "read_times r 0 data pos = Ok ([], pos)"
| "read_times r (Suc n) data pos = rbind (r data pos) (\<lambda>(x, pos).
     rmap (\<lambda>(xs, pos). (x # xs, pos)) (read_times r n data pos))"

definition read_seq :: "'a reader \<Rightarrow> 'a list reader" where
  "read_seq r data pos = rbind (read_u32 data pos) (\<lambda>(n, pos). read_times r (unat n) data pos)"

definition read_as :: "('a \<Rightarrow> 'b) \<Rightarrow> 'a reader \<Rightarrow> 'b reader" where
  "read_as c r data pos = rmap (\<lambda>(x, pos). (c x, pos)) (r data pos)"

definition read_node :: "wire_node reader" where
  "read_node data pos = rbind (read_u8 data pos) (\<lambda>(tag, pos).
     if tag = 1 then read_as N_Ref read_u32 data pos
     else if tag = 2 then Ok (N_Undefined, pos)
     else if tag = 3 then Ok (N_Null, pos)
     else if tag = 4 then read_as (\<lambda>b. N_Bool (b \<noteq> 0)) read_u8 data pos
     else if tag = 5 then read_as N_Number read_f64 data pos
     else if tag = 6 then read_as N_String read_string data pos
     else if tag = 7 then read_as N_BigInt read_string data pos
     else if tag = 8 then read_as N_Array (read_seq read_u32) data pos
     else if tag = 9 then read_as N_Object (read_seq (read_then read_string read_u32)) data pos
     else if tag = 10 then read_as N_Date read_f64 data pos
     else if tag = 11 then read_as (\<lambda>(source, flags). N_RegExp source flags) (read_then read_string read_string) data pos
     else if tag = 12 then read_as N_Error read_string data pos
     else if tag = 13 then read_as N_ArrayBufferCopy read_vec data pos
     else if tag = 14 then read_as N_Map (read_seq (read_then read_u32 read_u32)) data pos
     else if tag = 15 then read_as N_Set (read_seq read_u32) data pos
     else if tag = 16 then read_as N_SharedArrayBuffer read_u64 data pos
     else if tag = 17 then
       read_as (\<lambda>(i, off, len, name). N_SharedView i off len name)
         (read_then read_u64 (read_then read_u32 (read_then read_u32 read_string))) data pos
     else Err ''Unknown wire node tag'')"

section \<open>Encoder\<close>

text \<open>
  The value the encoder sees is the result of \<open>structured_clone\<close>: a graph of fresh objects, each of one
  of the kinds below, whose properties are plain data. A value is an address into the heap or a primitive;
  \<open>'a\<close> is the type of addresses. A JS string is its bytes in generalised UTF-8, which is not valid UTF-8
  when the string holds an unpaired surrogate.
\<close>

datatype 'a wval =
  V_Undefined | V_Null | V_Bool bool | V_Number u64 | V_String "byte list" | V_BigInt "byte list"
| V_Obj 'a | V_Callable | V_Other

datatype 'a wobj =
  O_Array "'a wval list" | O_Plain "(byte list \<times> 'a wval) list" | O_Date u64
| O_RegExp "byte list" "byte list" | O_Error "byte list" | O_Buffer "byte list" | O_Shared "u64 option"
| O_View "byte list" | O_SharedView "u64 option" u32 u32 "byte list"
| O_Map "('a wval \<times> 'a wval) list" | O_Set "'a wval list"

record enc_state =
  nodes :: "wire_node list"
  memo :: "nat \<rightharpoonup> u32"
  sent :: "byte list list"

type_synonym 'r enc = "enc_state \<Rightarrow> ((string, 'r) res \<times> enc_state) option"

definition enc_ok :: "'r \<Rightarrow> 'r enc" where
  "enc_ok x st = Some (Ok x, st)"

definition enc_err :: "string \<Rightarrow> 'r enc" where
  "enc_err e st = Some (Err e, st)"

definition enc_bind :: "'r enc \<Rightarrow> ('r \<Rightarrow> 's enc) \<Rightarrow> 's enc" where
  "enc_bind m f st = (case m st of None \<Rightarrow> None
     | Some (Ok x, st) \<Rightarrow> f x st | Some (Err e, st) \<Rightarrow> Some (Err e, st) | Some (Panic, st) \<Rightarrow> Some (Panic, st))"

text \<open>A JS string as a Rust \<open>String\<close>, which fails on unpaired surrogates.\<close>

definition to_rust_string :: "byte list \<Rightarrow> byte list enc" where
  "to_rust_string s = (if utf8_valid s then enc_ok s else enc_err ''invalid utf-8'')"

definition unregistered :: string where
  "unregistered = ''SharedArrayBuffer is not registered for cross-thread clone''"

definition enc_shared :: "u64 option \<Rightarrow> u64 enc" where
  "enc_shared i = (case i of Some i \<Rightarrow> enc_ok i | None \<Rightarrow> enc_err unregistered)"

definition enc_buffer :: "byte list \<Rightarrow> wire_node enc" where
  "enc_buffer bytes st = Some (Ok (N_ArrayBufferCopy bytes), st\<lparr>sent := sent st @ [bytes]\<rparr>)"

primrec enc_list :: "('a \<Rightarrow> 'r enc) \<Rightarrow> 'a list \<Rightarrow> 'r list enc" where
  "enc_list f [] = enc_ok []"
| "enc_list f (x # xs) = enc_bind (f x) (\<lambda>y. enc_bind (enc_list f xs) (\<lambda>ys. enc_ok (y # ys)))"

definition enc_pair :: "('a \<Rightarrow> u32 enc) \<Rightarrow> 'a \<times> 'a \<Rightarrow> (u32 \<times> u32) enc" where
  "enc_pair f p = enc_bind (f (fst p)) (\<lambda>k. enc_bind (f (snd p)) (\<lambda>v. enc_ok (k, v)))"

definition enc_prop :: "('a \<Rightarrow> u32 enc) \<Rightarrow> byte list \<times> 'a \<Rightarrow> (byte list \<times> u32) enc" where
  "enc_prop f p = enc_bind (f (snd p)) (\<lambda>i. enc_ok (fst p, i))"

fun encode_object :: "(nat wval \<Rightarrow> u32 enc) \<Rightarrow> nat wobj \<Rightarrow> wire_node enc" where
  "encode_object f (O_Array items) = enc_bind (enc_list f items) (\<lambda>is. enc_ok (N_Array is))"
| "encode_object f (O_Date t) = enc_ok (N_Date t)"
| "encode_object f (O_RegExp source flags) = enc_bind (to_rust_string source) (\<lambda>s.
     enc_bind (to_rust_string flags) (\<lambda>g. enc_ok (N_RegExp s g)))"
| "encode_object f (O_Error msg) = enc_ok (N_Error (if utf8_valid msg then msg else []))"
| "encode_object f (O_Shared i) = enc_bind (enc_shared i) (\<lambda>i. enc_ok (N_SharedArrayBuffer i))"
| "encode_object f (O_Buffer bytes) = enc_buffer bytes"
| "encode_object f (O_Map pairs) = enc_bind (enc_list (enc_pair f) pairs) (\<lambda>ps. enc_ok (N_Map ps))"
| "encode_object f (O_Set items) = enc_bind (enc_list f items) (\<lambda>is. enc_ok (N_Set is))"
| "encode_object f (O_SharedView i off len name) = enc_bind (enc_shared i) (\<lambda>i.
     enc_bind (to_rust_string name) (\<lambda>name. enc_ok (N_SharedView i off len name)))"
| "encode_object f (O_View bytes) = enc_buffer bytes"
| "encode_object f (O_Plain props) = enc_bind (enc_list (\<lambda>p. to_rust_string (fst p)) props) (\<lambda>_.
     enc_bind (enc_list (enc_prop f) props) (\<lambda>ps. enc_ok (N_Object ps)))"

fun encode_node_inner :: "(nat \<Rightarrow> nat wobj) \<Rightarrow> (nat wval \<Rightarrow> u32 enc) \<Rightarrow> nat wval \<Rightarrow> wire_node enc" where
  "encode_node_inner heap f V_Undefined = enc_ok N_Undefined"
| "encode_node_inner heap f V_Null = enc_ok N_Null"
| "encode_node_inner heap f (V_Bool b) = enc_ok (N_Bool b)"
| "encode_node_inner heap f (V_Number n) = enc_ok (N_Number n)"
| "encode_node_inner heap f (V_String s) = enc_bind (to_rust_string s) (\<lambda>s. enc_ok (N_String s))"
| "encode_node_inner heap f (V_BigInt s) = enc_err ''BigInt cannot be cloned across worker processes yet''"
| "encode_node_inner heap f (V_Obj a) = encode_object f (heap a)"
| "encode_node_inner heap f V_Callable = enc_err ''The object could not be cloned.''"
| "encode_node_inner heap f V_Other = enc_ok N_Undefined"

definition object_ptr :: "nat wval \<Rightarrow> nat option" where
  "object_ptr v = (case v of V_Obj a \<Rightarrow> Some a | _ \<Rightarrow> None)"

primrec encode_index :: "nat \<Rightarrow> (nat \<Rightarrow> nat wobj) \<Rightarrow> nat wval \<Rightarrow> u32 enc" where
  "encode_index 0 heap v st = None"
| "encode_index (Suc fuel) heap v st =
     (case object_ptr v of
        Some ptr \<Rightarrow>
          (case memo st ptr of
             Some i \<Rightarrow> Some (Ok i, st)
           | None \<Rightarrow>
               let idx = word_of_nat (length (nodes st)) :: u32 in
               enc_bind (encode_node_inner heap (encode_index fuel heap) v)
                 (\<lambda>node st. case vec_set (nodes st) (unat idx) node of
                    None \<Rightarrow> Some (Panic, st)
                  | Some ns \<Rightarrow> Some (Ok idx, st\<lparr>nodes := ns\<rparr>))
                 (st\<lparr>memo := (memo st)(ptr \<mapsto> idx), nodes := nodes st @ [N_Null]\<rparr>))
      | None \<Rightarrow>
          let idx = word_of_nat (length (nodes st)) in
          enc_bind (encode_node_inner heap (encode_index fuel heap) v)
            (\<lambda>node st. Some (Ok idx, st\<lparr>nodes := nodes st @ [node]\<rparr>)) st)"

definition write_body :: "u32 \<Rightarrow> wire_node list \<Rightarrow> byte list" where
  "write_body root ns = foldl write_node (write_u32 (write_u32 MAGIC root) (word_of_nat (length ns))) ns"

definition serialize :: "nat \<Rightarrow> (nat \<Rightarrow> nat wobj) \<Rightarrow> nat wval \<Rightarrow> (string, clone_wire_payload) res option" where
  "serialize fuel heap cloned =
     (case encode_index fuel heap cloned \<lparr>nodes = [], memo = Map.empty, sent = []\<rparr> of
        None \<Rightarrow> None
      | Some (r, st) \<Rightarrow> Some (rmap (\<lambda>root. \<lparr>body = write_body root (nodes st), transfers = sent st\<rparr>) r))"

section \<open>Decoder\<close>

text \<open>
  The decoder allocates objects in the heap of the receiving isolate, here a list whose indices are the
  addresses, and remembers the value of a node in its cache. What the JS constructors make of their
  arguments is a parameter: \<open>BigInt\<close> on a source text, \<open>Date\<close> on a time value, \<open>RegExp\<close>, and the table of
  shared buffers (\<open>shared_array_buffer.rs\<close> checks that the id is known).
\<close>

record js_ctors =
  eval_js :: "byte list \<Rightarrow> (string, nat wval) res"
  new_date :: "u64 \<Rightarrow> (string, u64) res"
  new_regexp :: "byte list \<Rightarrow> byte list \<Rightarrow> (string, byte list \<times> byte list) res"
  new_shared :: "u64 \<Rightarrow> (string, u64) res"
  new_shared_view :: "u64 \<Rightarrow> u32 \<Rightarrow> u32 \<Rightarrow> byte list \<Rightarrow> (string, u64 \<times> u32 \<times> u32 \<times> byte list) res"

record dec_state =
  objects :: "nat wobj list"
  cache :: "nat wval option list"

type_synonym 'r dec = "dec_state \<Rightarrow> ((string, 'r) res \<times> dec_state) option"

definition dec_ok :: "'r \<Rightarrow> 'r dec" where
  "dec_ok x st = Some (Ok x, st)"

definition dec_bind :: "'r dec \<Rightarrow> ('r \<Rightarrow> 's dec) \<Rightarrow> 's dec" where
  "dec_bind m f st = (case m st of None \<Rightarrow> None
     | Some (Ok x, st) \<Rightarrow> f x st | Some (Err e, st) \<Rightarrow> Some (Err e, st) | Some (Panic, st) \<Rightarrow> Some (Panic, st))"

definition dec_lift :: "(string, 'r) res \<Rightarrow> 'r dec" where
  "dec_lift r st = Some (r, st)"

definition alloc :: "nat wobj \<Rightarrow> nat wval dec" where
  "alloc ob st = Some (Ok (V_Obj (length (objects st))), st\<lparr>objects := objects st @ [ob]\<rparr>)"

definition cache_put :: "nat \<Rightarrow> nat wval \<Rightarrow> unit dec" where
  "cache_put idx v st = (case vec_set (cache st) idx (Some v) of
     None \<Rightarrow> Some (Panic, st) | Some c \<Rightarrow> Some (Ok (), st\<lparr>cache := c\<rparr>))"

definition update_object :: "nat wval \<Rightarrow> (nat wobj \<Rightarrow> nat wobj) \<Rightarrow> unit dec" where
  "update_object v f st = (case v of
     V_Obj a \<Rightarrow> Some (Ok (), st\<lparr>objects := (objects st)[a := f (objects st ! a)]\<rparr>) | _ \<Rightarrow> Some (Ok (), st))"

text \<open>\<open>array.set(i, v)\<close> with the indices in order appends; \<open>object.set(key, v)\<close> replaces or adds a
  property, except that \<open>__proto__\<close> reaches the setter of the prototype and makes no property.\<close>

definition proto_key :: "byte list" where
  "proto_key = [95, 95, 112, 114, 111, 116, 111, 95, 95]"

definition set_item :: "nat wval \<Rightarrow> nat wobj \<Rightarrow> nat wobj" where
  "set_item v ob = (case ob of O_Array xs \<Rightarrow> O_Array (xs @ [v]) | _ \<Rightarrow> ob)"

definition put_prop :: "byte list \<Rightarrow> 'v \<Rightarrow> (byte list \<times> 'v) list \<Rightarrow> (byte list \<times> 'v) list" where
  "put_prop k v props =
     (if k = proto_key then props
      else if k \<in> fst ` set props then map (\<lambda>(k', v'). (k', if k' = k then v else v')) props
      else props @ [(k, v)])"

definition set_prop :: "byte list \<Rightarrow> nat wval \<Rightarrow> nat wobj \<Rightarrow> nat wobj" where
  "set_prop k v ob = (case ob of O_Plain props \<Rightarrow> O_Plain (put_prop k v props) | _ \<Rightarrow> ob)"

primrec dec_list :: "('a \<Rightarrow> 'r dec) \<Rightarrow> 'a list \<Rightarrow> 'r list dec" where
  "dec_list f [] = dec_ok []"
| "dec_list f (x # xs) = dec_bind (f x) (\<lambda>y. dec_bind (dec_list f xs) (\<lambda>ys. dec_ok (y # ys)))"

primrec fill_array :: "(nat \<Rightarrow> nat wval dec) \<Rightarrow> nat wval \<Rightarrow> u32 list \<Rightarrow> unit dec" where
  "fill_array f a [] = dec_ok ()"
| "fill_array f a (i # is) = dec_bind (f (unat i)) (\<lambda>v.
     dec_bind (update_object a (set_item v)) (\<lambda>_. fill_array f a is))"

primrec fill_object :: "(nat \<Rightarrow> nat wval dec) \<Rightarrow> nat wval \<Rightarrow> (byte list \<times> u32) list \<Rightarrow> unit dec" where
  "fill_object f a [] = dec_ok ()"
| "fill_object f a (p # ps) = dec_bind (f (unat (snd p))) (\<lambda>v.
     dec_bind (update_object a (set_prop (fst p) v)) (\<lambda>_. fill_object f a ps))"

definition dec_entry :: "(nat \<Rightarrow> nat wval dec) \<Rightarrow> u32 \<times> u32 \<Rightarrow> (nat wval \<times> nat wval) dec" where
  "dec_entry f p = dec_bind (f (unat (fst p))) (\<lambda>k. dec_bind (f (unat (snd p))) (\<lambda>v. dec_ok (k, v)))"

text \<open>The argument of \<open>BigInt('...')\<close>: backslashes and quotes are escaped.\<close>

definition bigint_source :: "byte list \<Rightarrow> byte list" where
  "bigint_source s = [66, 105, 103, 73, 110, 116, 40, 39] @
     concat (map (\<lambda>b. if b = 39 then [92, 39] else [b]) (concat (map (\<lambda>b. if b = 92 then [92, 92] else [b]) s)))
     @ [39, 41]"

fun decode_value :: "js_ctors \<Rightarrow> byte list list \<Rightarrow> nat \<Rightarrow> (nat \<Rightarrow> nat wval dec) \<Rightarrow> wire_node \<Rightarrow> nat wval dec" where
  "decode_value js ts idx f (N_Ref i) = f (unat i)"
| "decode_value js ts idx f N_Undefined = dec_ok V_Undefined"
| "decode_value js ts idx f N_Null = dec_ok V_Null"
| "decode_value js ts idx f (N_Bool b) = dec_ok (V_Bool b)"
| "decode_value js ts idx f (N_Number n) = dec_ok (V_Number n)"
| "decode_value js ts idx f (N_String s) = dec_ok (V_String s)"
| "decode_value js ts idx f (N_BigInt s) = dec_lift (eval_js js (bigint_source s))"
| "decode_value js ts idx f (N_Date t) = dec_bind (dec_lift (new_date js t)) (\<lambda>t. alloc (O_Date t))"
| "decode_value js ts idx f (N_RegExp source flags) =
     dec_bind (dec_lift (new_regexp js source flags)) (\<lambda>(s, g). alloc (O_RegExp s g))"
| "decode_value js ts idx f (N_Error msg) = alloc (O_Error msg)"
| "decode_value js ts idx f (N_ArrayBufferCopy bytes) =
     alloc (O_Buffer (case ts of t # _ \<Rightarrow> t | [] \<Rightarrow> bytes))"
| "decode_value js ts idx f (N_SharedArrayBuffer i) = dec_bind (dec_lift (new_shared js i)) (\<lambda>i. alloc (O_Shared (Some i)))"
| "decode_value js ts idx f (N_SharedView i off len name) =
     dec_bind (dec_lift (new_shared_view js i off len name)) (\<lambda>(i, off, len, name). alloc (O_SharedView (Some i) off len name))"
| "decode_value js ts idx f (N_Array indices) = dec_bind (alloc (O_Array [])) (\<lambda>a.
     dec_bind (cache_put idx a) (\<lambda>_. dec_bind (fill_array f a indices) (\<lambda>_. dec_ok a)))"
| "decode_value js ts idx f (N_Object props) = dec_bind (alloc (O_Plain [])) (\<lambda>a.
     dec_bind (cache_put idx a) (\<lambda>_. dec_bind (fill_object f a props) (\<lambda>_. dec_ok a)))"
| "decode_value js ts idx f (N_Map pairs) = dec_bind (dec_list (dec_entry f) pairs) (\<lambda>es. alloc (O_Map es))"
| "decode_value js ts idx f (N_Set items) = dec_bind (dec_list (\<lambda>i. f (unat i)) items) (\<lambda>es. alloc (O_Set es))"

definition remember :: "nat \<Rightarrow> nat wval \<Rightarrow> nat wval dec" where
  "remember idx v st = (case vec_get (cache st) idx of
     None \<Rightarrow> Some (Panic, st)
   | Some (Some _) \<Rightarrow> Some (Ok v, st)
   | Some None \<Rightarrow> dec_bind (cache_put idx v) (\<lambda>_. dec_ok v) st)"

primrec decode_at :: "nat \<Rightarrow> js_ctors \<Rightarrow> wire_node list \<Rightarrow> byte list list \<Rightarrow> nat \<Rightarrow> nat wval dec" where
  "decode_at 0 js ns ts idx st = None"
| "decode_at (Suc fuel) js ns ts idx st =
     (case vec_get (cache st) idx of
        None \<Rightarrow> Some (Panic, st)
      | Some (Some v) \<Rightarrow> Some (Ok v, st)
      | Some None \<Rightarrow>
          (case vec_get ns idx of
             None \<Rightarrow> Some (Panic, st)
           | Some (N_Ref i) \<Rightarrow> decode_at fuel js ns ts (unat i) st
           | Some node \<Rightarrow>
               dec_bind (decode_value js ts idx (decode_at fuel js ns ts) node) (remember idx) st))"

definition decode_index :: "nat \<Rightarrow> js_ctors \<Rightarrow> wire_node list \<Rightarrow> byte list list \<Rightarrow> u32 \<Rightarrow> nat wval dec" where
  "decode_index fuel js ns ts idx st =
     decode_at fuel js ns ts (unat idx) (st\<lparr>cache := replicate (length ns) None\<rparr>)"

definition read_body :: "byte list \<Rightarrow> (string, u32 \<times> wire_node list) res" where
  "read_body data =
     (if length data < 4 \<or> take 4 data \<noteq> MAGIC then Err ''Invalid structured-clone wire payload''
      else rbind (read_u32 data 4) (\<lambda>(root, pos).
        rbind (read_u32 data pos) (\<lambda>(count, pos).
        rmap (\<lambda>(ns, _). (root, ns)) (read_times read_node (unat count) data pos))))"

definition deserialize :: "nat \<Rightarrow> js_ctors \<Rightarrow> clone_wire_payload \<Rightarrow> nat wval dec" where
  "deserialize fuel js payload st =
     (case read_body (body payload) of
          Ok (root, ns) \<Rightarrow> decode_index fuel js ns (transfers payload) root st
        | Err e \<Rightarrow> Some (Err e, st)
        | Panic \<Rightarrow> Some (Panic, st))"

end
