(* ===== verification/Clone_Wire_Laws.thy ===== *)
theory Clone_Wire_Laws
  imports Clone_Wire
begin

text \<open>
  Laws of the wire format: what the writer appends, the reader takes back, at any position of the
  message; a message that is cut off is reported as such; and no message makes the reader panic.
\<close>

section \<open>Big-endian integers\<close>

lemma length_be_bytes [simp]: "length (be_bytes n v) = n"
  by (induction n arbitrary: v) simp_all

lemma unat_word_of_nat_byte: "unat (word_of_nat v :: byte) = v mod 256"
  by (simp add: unat_of_nat)

lemma from_be_bytes_snoc: "from_be_bytes (bs @ [b]) = from_be_bytes bs * 256 + unat b"
  by (simp add: from_be_bytes_def)

lemma from_be_bytes: "from_be_bytes (be_bytes n v) = v mod 256 ^ n"
proof (induction n arbitrary: v)
  case (Suc n)
  have "v mod (256 * 256 ^ n) = 256 * (v div 256 mod 256 ^ n) + v mod 256" by (rule mod_mult2_eq)
  with Suc show ?case by (simp add: from_be_bytes_snoc unat_word_of_nat_byte)
qed (simp add: from_be_bytes_def)

lemma from_be_bytes_u32: "word_of_nat (from_be_bytes (be_bytes 4 (unat v))) = (v :: u32)"
proof -
  have "unat v < 2 ^ 32" using unsigned_less [of v] by simp
  then show ?thesis by (simp add: from_be_bytes)
qed

lemma from_be_bytes_u64: "word_of_nat (from_be_bytes (be_bytes 8 (unat v))) = (v :: u64)"
proof -
  have "unat v < 2 ^ 64" using unsigned_less [of v] by simp
  then show ?thesis by (simp add: from_be_bytes)
qed

section \<open>The contract of a writer and its reader\<close>

text \<open>
  A writer appends to the message. Its reader, at the position where the bytes were appended, gives the
  value back and stops behind them, whatever precedes and follows; on a message cut off within those
  bytes it reports the end of the wire. \<open>fit\<close> tells which values the format can carry.
\<close>

locale wire_format =
  fixes wr :: "byte list \<Rightarrow> 'a \<Rightarrow> byte list" and rd :: "'a reader" and fit :: "'a \<Rightarrow> bool"
  assumes appends: "wr out x = out @ wr [] x"
    and reads: "fit x \<Longrightarrow> rd (pre @ wr [] x @ suf) (length pre) = Ok (x, length pre + length (wr [] x))"
    and cut_off_early: "fit x \<Longrightarrow> k < length (wr [] x) \<Longrightarrow> rd (pre @ take k (wr [] x)) (length pre) = Err end_of_wire"
begin

lemma foldl_write: "foldl wr out xs = out @ concat (map (wr []) xs)"
proof (induction xs arbitrary: out)
  case (Cons x xs)
  then show ?case using appends [of out x] by simp
qed simp

lemma reads_times:
  assumes "list_all fit xs"
  shows "read_times rd (length xs) (pre @ concat (map (wr []) xs) @ suf) (length pre)
    = Ok (xs, length pre + length (concat (map (wr []) xs)))"
  using assms
proof (induction xs arbitrary: pre)
  case (Cons x xs)
  from Cons.prems have x: "fit x" and xs: "list_all fit xs" by simp_all
  from Cons.IH [OF xs, of "pre @ wr [] x"] reads [OF x, of pre "concat (map (wr []) xs) @ suf"]
  show ?case by (simp add: add.assoc)
qed simp

lemma cut_off_times:
  assumes "list_all fit xs" "k < length (concat (map (wr []) xs))"
  shows "read_times rd (length xs) (pre @ take k (concat (map (wr []) xs))) (length pre) = Err end_of_wire"
  using assms
proof (induction xs arbitrary: pre k)
  case (Cons x xs)
  from Cons.prems have x: "fit x" and xs: "list_all fit xs" by simp_all
  show ?case
  proof (cases "k < length (wr [] x)")
    case True
    with cut_off_early [OF x True, of pre] show ?thesis by simp
  next
    case False
    with Cons.prems have k: "k - length (wr [] x) < length (concat (map (wr []) xs))" by simp
    from False Cons.IH [OF xs k, of "pre @ wr [] x"]
      reads [OF x, of pre "take (k - length (wr [] x)) (concat (map (wr []) xs))"]
    show ?thesis by simp
  qed
qed simp

end

section \<open>Combining formats\<close>

lemma wire_formatI:
  assumes "\<And>out x. w out x = out @ enc x"
    "\<And>x pre suf. fit x \<Longrightarrow> r (pre @ enc x @ suf) (length pre) = Ok (x, length pre + length (enc x))"
    "\<And>x pre k. fit x \<Longrightarrow> k < length (enc x) \<Longrightarrow> r (pre @ take k (enc x)) (length pre) = Err end_of_wire"
  shows "wire_format w r fit"
  using assms by unfold_locales simp_all

lemma wire_format_weaken:
  assumes "wire_format w r P" "\<And>x. Q x \<Longrightarrow> P x"
  shows "wire_format w r Q"
  using assms unfolding wire_format_def by blast

lemma wire_format_then:
  assumes a: "wire_format w r P" and b: "wire_format w' r' Q"
  shows "wire_format (\<lambda>out p. w' (w out (fst p)) (snd p)) (read_then r r') (\<lambda>p. P (fst p) \<and> Q (snd p))"
proof (rule wire_formatI [where enc = "\<lambda>p. w [] (fst p) @ w' [] (snd p)"])
  show "w' (w out (fst p)) (snd p) = out @ w [] (fst p) @ w' [] (snd p)" for out p
    using wire_format.appends [OF a, of out "fst p"] wire_format.appends [OF b, of "w out (fst p)" "snd p"] by simp
  show "read_then r r' (pre @ (w [] (fst p) @ w' [] (snd p)) @ suf) (length pre)
      = Ok (p, length pre + length (w [] (fst p) @ w' [] (snd p)))" if "P (fst p) \<and> Q (snd p)" for p pre suf
    using that wire_format.reads [OF a, of "fst p" pre "w' [] (snd p) @ suf"]
      wire_format.reads [OF b, of "snd p" "pre @ w [] (fst p)" suf]
    by (simp add: read_then_def add.assoc)
  show "read_then r r' (pre @ take k (w [] (fst p) @ w' [] (snd p))) (length pre) = Err end_of_wire"
    if "P (fst p) \<and> Q (snd p)" "k < length (w [] (fst p) @ w' [] (snd p))" for p pre k
  proof (cases "k < length (w [] (fst p))")
    case True
    with that wire_format.cut_off_early [OF a _ True, of pre] show ?thesis by (simp add: read_then_def)
  next
    case False
    with that wire_format.reads [OF a, of "fst p" pre "take (k - length (w [] (fst p))) (w' [] (snd p))"]
      wire_format.cut_off_early [OF b, of "snd p" "k - length (w [] (fst p))" "pre @ w [] (fst p)"]
    show ?thesis by (simp add: read_then_def)
  qed
qed

lemma slice_append: "slice (pre @ a @ suf) (length pre) (length pre + length a) = Some a"
  by simp

section \<open>The formats of the wire\<close>

interpretation wire_u32: wire_format write_u32 read_u32 "\<lambda>_. True"
proof (rule wire_formatI [where enc = "\<lambda>v. be_bytes 4 (unat v)"])
  show "read_u32 (pre @ be_bytes 4 (unat v) @ suf) (length pre) = Ok (v, length pre + length (be_bytes 4 (unat v)))"
    for v pre suf using slice_append [of pre "be_bytes 4 (unat v)" suf] by (simp add: read_u32_def from_be_bytes_u32)
qed (simp_all add: write_u32_def read_u32_def)

interpretation wire_u64: wire_format write_u64 read_u64 "\<lambda>_. True"
proof (rule wire_formatI [where enc = "\<lambda>v. be_bytes 8 (unat v)"])
  show "read_u64 (pre @ be_bytes 8 (unat v) @ suf) (length pre) = Ok (v, length pre + length (be_bytes 8 (unat v)))"
    for v pre suf using slice_append [of pre "be_bytes 8 (unat v)" suf] by (simp add: read_u64_def from_be_bytes_u64)
qed (simp_all add: write_u64_def read_u64_def)

lemma f64_is_u64: "write_f64 = write_u64" "read_f64 = read_u64"
  by (simp_all add: fun_eq_iff write_f64_def write_u64_def read_f64_def read_u64_def)

lemma length_write_u32 [simp]: "length (write_u32 [] v) = 4"
  by (simp add: write_u32_def)

lemma unat_len: "n < 2 ^ 32 \<Longrightarrow> unat (word_of_nat n :: u32) = n"
  by (simp add: unat_of_nat)

definition short :: "'a list \<Rightarrow> bool" where
  "short xs \<longleftrightarrow> length xs < 2 ^ 32"

text \<open>A length prefix behind which a format of exactly that length follows.\<close>

lemma wire_format_prefixed:
  fixes enc :: "'a list \<Rightarrow> byte list"
  assumes w: "\<And>out xs. w out xs = write_u32 out (word_of_nat (length xs)) @ enc xs"
    and r: "\<And>xs pre suf. fit xs \<Longrightarrow> rest (word_of_nat (length xs)) (pre @ enc xs @ suf) (length pre) = Ok (xs, length pre + length (enc xs))"
    and c: "\<And>xs pre k. fit xs \<Longrightarrow> k < length (enc xs) \<Longrightarrow> rest (word_of_nat (length xs)) (pre @ take k (enc xs)) (length pre) = Err end_of_wire"
  shows "wire_format w (\<lambda>data pos. rbind (read_u32 data pos) (\<lambda>(n, pos). rest n data pos)) fit"
proof (rule wire_formatI [where enc = "\<lambda>xs. write_u32 [] (word_of_nat (length xs)) @ enc xs"])
  show "w out xs = out @ write_u32 [] (word_of_nat (length xs)) @ enc xs" for out xs
    using w wire_u32.appends [of out "word_of_nat (length xs)"] by simp
  fix xs pre suf k assume fit: "fit xs"
  let ?n = "word_of_nat (length xs) :: u32"
  show "rbind (read_u32 (pre @ (write_u32 [] ?n @ enc xs) @ suf) (length pre)) (\<lambda>(n, pos). rest n (pre @ (write_u32 [] ?n @ enc xs) @ suf) pos)
      = Ok (xs, length pre + length (write_u32 [] ?n @ enc xs))"
    using wire_u32.reads [where x = ?n and pre = pre and suf = "enc xs @ suf"] r [OF fit, of "pre @ write_u32 [] ?n" suf] by simp
  assume k: "k < length (write_u32 [] ?n @ enc xs)"
  show "rbind (read_u32 (pre @ take k (write_u32 [] ?n @ enc xs)) (length pre))
      (\<lambda>(n, pos). rest n (pre @ take k (write_u32 [] ?n @ enc xs)) pos) = Err end_of_wire"
  proof (cases "k < 4")
    case True
    then show ?thesis using wire_u32.cut_off_early [where k = k and x = ?n and pre = pre] by simp
  next
    case False
    with k have "k - 4 < length (enc xs)" by simp
    from False c [OF fit this, of "pre @ write_u32 [] ?n"] wire_u32.reads [where x = ?n and pre = pre and suf = "take (k - 4) (enc xs)"]
    show ?thesis by simp
  qed
qed

lemma read_vec_alt:
  "read_vec = (\<lambda>data pos. rbind (read_u32 data pos) (\<lambda>(len, pos).
     (\<lambda>len data pos. if length data < pos + unat len then Err end_of_wire
      else rmap (\<lambda>bs. (bs, pos + unat len)) (or_panic (slice data pos (pos + unat len)))) len data pos))"
  by (simp add: fun_eq_iff read_vec_def)

lemma read_seq_alt:
  "read_seq r = (\<lambda>data pos. rbind (read_u32 data pos) (\<lambda>(n, pos). (\<lambda>n. read_times r (unat n)) n data pos))"
  by (simp add: fun_eq_iff read_seq_def)

interpretation wire_vec: wire_format write_bytes read_vec short
  unfolding read_vec_alt
  by (rule wire_format_prefixed [where enc = "\<lambda>bs. bs"])
    (simp_all add: write_bytes_def short_def unat_len slice_append)

lemma read_string_valid: "wire_format write_bytes read_string (\<lambda>s. short s \<and> utf8_valid s)"
proof (rule wire_formatI [OF wire_vec.appends])
  show "read_string (pre @ write_bytes [] s @ suf) (length pre) = Ok (s, length pre + length (write_bytes [] s))"
    if "short s \<and> utf8_valid s" for s pre suf
    using that wire_vec.reads [of s pre suf] by (simp add: read_string_def)
  show "read_string (pre @ take k (write_bytes [] s)) (length pre) = Err end_of_wire"
    if "short s \<and> utf8_valid s" "k < length (write_bytes [] s)" for s pre k
    using that wire_vec.cut_off_early [of s k pre] by (simp add: read_string_def)
qed

interpretation wire_string: wire_format write_bytes read_string "\<lambda>s. short s \<and> utf8_valid s"
  by (rule read_string_valid)

lemma wire_format_seq:
  assumes "wire_format w r P"
  shows "wire_format (write_seq w) (read_seq r) (\<lambda>xs. short xs \<and> list_all P xs)"
  unfolding read_seq_alt
proof (rule wire_format_prefixed [where enc = "\<lambda>xs. concat (map (w []) xs)"])
  show "write_seq w out xs = write_u32 out (word_of_nat (length xs)) @ concat (map (w []) xs)" for out xs
    by (simp add: write_seq_def wire_format.foldl_write [OF assms])
qed (simp_all add: short_def unat_len wire_format.reads_times [OF assms] wire_format.cut_off_times [OF assms]
  del: length_concat)

section \<open>Nodes\<close>

text \<open>The nodes the format can carry: lengths below \<open>2\<^sup>3\<^sup>2\<close>, and strings that are Rust strings.\<close>

fun fit_node :: "wire_node \<Rightarrow> bool" where
  "fit_node (N_String s) \<longleftrightarrow> short s \<and> utf8_valid s"
| "fit_node (N_BigInt s) \<longleftrightarrow> short s \<and> utf8_valid s"
| "fit_node (N_Array is) \<longleftrightarrow> short is"
| "fit_node (N_Object ps) \<longleftrightarrow> short ps \<and> list_all (\<lambda>p. short (fst p) \<and> utf8_valid (fst p)) ps"
| "fit_node (N_RegExp s g) \<longleftrightarrow> short s \<and> utf8_valid s \<and> short g \<and> utf8_valid g"
| "fit_node (N_Error s) \<longleftrightarrow> short s \<and> utf8_valid s"
| "fit_node (N_ArrayBufferCopy bs) \<longleftrightarrow> short bs"
| "fit_node (N_SharedView i off len s) \<longleftrightarrow> short s \<and> utf8_valid s"
| "fit_node (N_Map ps) \<longleftrightarrow> short ps"
| "fit_node (N_Set is) \<longleftrightarrow> short is"
| "fit_node _ \<longleftrightarrow> True"

text \<open>A node is a tag and a payload \<open>x\<close> in some format; the law of the node is the law of its payload.\<close>

definition node_law :: "wire_node \<Rightarrow> bool" where
  "node_law n \<longleftrightarrow> (\<forall>out. write_node out n = out @ write_node [] n)
    \<and> (\<forall>pre suf. read_node (pre @ write_node [] n @ suf) (length pre) = Ok (n, length pre + length (write_node [] n)))
    \<and> (\<forall>pre k. k < length (write_node [] n) \<longrightarrow> read_node (pre @ take k (write_node [] n)) (length pre) = Err end_of_wire)"

lemma read_u8_at: "read_u8 (pre @ b # r) (length pre) = Ok (b, Suc (length pre))"
  by (simp add: read_u8_def nth_append)

lemma read_u8_end: "read_u8 pre (length pre) = Err end_of_wire"
  by (simp add: read_u8_def)

lemma node_lawI:
  assumes f: "wire_format w r P" and P: "P x"
    and w: "\<And>out. write_node out n = w (out @ [tag]) x"
    and r: "\<And>pre t. read_node (pre @ tag # t) (length pre) = read_as c r (pre @ tag # t) (Suc (length pre))"
    and c: "c x = n"
  shows "node_law n"
proof -
  have enc: "write_node [] n = tag # w [] x" using w wire_format.appends [OF f, of "[tag]" x] by simp
  have "write_node out n = out @ tag # w [] x" for out using w wire_format.appends [OF f, of "out @ [tag]" x] by simp
  moreover have "read_node (pre @ (tag # w [] x) @ suf) (length pre) = Ok (n, length pre + length (tag # w [] x))" for pre suf
    using r [of pre "w [] x @ suf"] wire_format.reads [OF f P, of "pre @ [tag]" suf] c by (simp add: read_as_def)
  moreover have "read_node (pre @ take k (tag # w [] x)) (length pre) = Err end_of_wire" if "k < length (tag # w [] x)" for pre k
  proof (cases k)
    case 0
    then show ?thesis by (simp add: read_node_def read_u8_end)
  next
    case (Suc j)
    with that r [of pre "take j (w [] x)"] wire_format.cut_off_early [OF f P, of j "pre @ [tag]"]
    show ?thesis by (simp add: read_as_def)
  qed
  ultimately show ?thesis by (simp add: node_law_def enc)
qed

lemma node_law_bare:
  assumes w: "\<And>out. write_node out n = out @ [tag]"
    and r: "\<And>pre t. read_node (pre @ tag # t) (length pre) = Ok (n, Suc (length pre))"
  shows "node_law n"
  using r by (simp add: node_law_def w read_node_def read_u8_end)

interpretation wire_u8: wire_format "\<lambda>out b. out @ [b]" read_u8 "\<lambda>_. True"
  by (rule wire_formatI [where enc = "\<lambda>b. [b]"]) (simp_all add: read_u8_at read_u8_end)

lemmas wire_prop = wire_format_then [OF read_string_valid wire_u32.wire_format_axioms]
lemmas wire_pair = wire_format_then [OF wire_u32.wire_format_axioms wire_u32.wire_format_axioms]
lemmas wire_strings = wire_format_then [OF read_string_valid read_string_valid]
lemmas wire_view = wire_format_then [OF wire_u64.wire_format_axioms
  wire_format_then [OF wire_u32.wire_format_axioms wire_format_then [OF wire_u32.wire_format_axioms read_string_valid]]]

lemma write_prop_alt: "write_prop = (\<lambda>out p. write_u32 (write_bytes out (fst p)) (snd p))"
  by (simp add: fun_eq_iff write_prop_def)

lemma write_pair_alt: "write_pair = (\<lambda>out p. write_u32 (write_u32 out (fst p)) (snd p))"
  by (simp add: fun_eq_iff write_pair_def)

lemma fit_node_law: "fit_node n \<Longrightarrow> node_law n"
proof (induction n)
  case (N_Ref i)
  then show ?case by (intro node_lawI [OF wire_u32.wire_format_axioms, where x = "i" and tag = 1 and c = "N_Ref"])
    (simp_all add: read_node_def read_u8_at)
next
  case N_Undefined
  show ?case by (rule node_law_bare [where tag = 2]) (simp_all add: read_node_def read_u8_at)
next
  case N_Null
  show ?case by (rule node_law_bare [where tag = 3]) (simp_all add: read_node_def read_u8_at)
next
  case (N_Bool b)
  then show ?case by (intro node_lawI [OF wire_u8.wire_format_axioms, where x = "if b then 1 else 0" and tag = 4 and c = "\<lambda>b. N_Bool (b \<noteq> 0)"])
    (simp_all add: read_node_def read_u8_at)
next
  case (N_Number n)
  then show ?case by (intro node_lawI [OF wire_u64.wire_format_axioms, where x = "n" and tag = 5 and c = "N_Number"])
    (simp_all add: read_node_def read_u8_at f64_is_u64)
next
  case (N_String s)
  then show ?case by (intro node_lawI [OF read_string_valid, where x = "s" and tag = 6 and c = "N_String"])
    (simp_all add: read_node_def read_u8_at)
next
  case (N_BigInt s)
  then show ?case by (intro node_lawI [OF read_string_valid, where x = "s" and tag = 7 and c = "N_BigInt"])
    (simp_all add: read_node_def read_u8_at)
next
  case (N_Array xs)
  then show ?case by (intro node_lawI [OF wire_format_seq [OF wire_u32.wire_format_axioms], where x = "xs" and tag = 8 and c = "N_Array"])
    (simp_all add: read_node_def read_u8_at list_all_iff)
next
  case (N_Object ps)
  then show ?case by (intro node_lawI [OF wire_format_seq [OF wire_prop], where x = "ps" and tag = 9 and c = "N_Object"])
    (simp_all add: read_node_def read_u8_at list_all_iff write_prop_alt)
next
  case (N_Date t)
  then show ?case by (intro node_lawI [OF wire_u64.wire_format_axioms, where x = "t" and tag = 10 and c = "N_Date"])
    (simp_all add: read_node_def read_u8_at f64_is_u64)
next
  case (N_RegExp s g)
  then show ?case by (intro node_lawI [OF wire_strings, where x = "(s, g)" and tag = 11 and c = "\<lambda>(s, g). N_RegExp s g"])
    (simp_all add: read_node_def read_u8_at)
next
  case (N_Error s)
  then show ?case by (intro node_lawI [OF read_string_valid, where x = "s" and tag = 12 and c = "N_Error"])
    (simp_all add: read_node_def read_u8_at)
next
  case (N_ArrayBufferCopy bs)
  then show ?case by (intro node_lawI [OF wire_vec.wire_format_axioms, where x = "bs" and tag = 13 and c = "N_ArrayBufferCopy"])
    (simp_all add: read_node_def read_u8_at)
next
  case (N_SharedArrayBuffer i)
  then show ?case by (intro node_lawI [OF wire_u64.wire_format_axioms, where x = "i" and tag = 16 and c = "N_SharedArrayBuffer"])
    (simp_all add: read_node_def read_u8_at)
next
  case (N_SharedView i off len s)
  then show ?case by (intro node_lawI [OF wire_view, where x = "(i, off, len, s)" and tag = 17 and c = "\<lambda>(i, off, len, s). N_SharedView i off len s"])
    (simp_all add: read_node_def read_u8_at)
next
  case (N_Map ps)
  then show ?case by (intro node_lawI [OF wire_format_seq [OF wire_pair], where x = "ps" and tag = 14 and c = "N_Map"])
    (simp_all add: read_node_def read_u8_at list_all_iff write_pair_alt)
next
  case (N_Set xs)
  then show ?case by (intro node_lawI [OF wire_format_seq [OF wire_u32.wire_format_axioms], where x = "xs" and tag = 15 and c = "N_Set"])
    (simp_all add: read_node_def read_u8_at list_all_iff)
qed

lemma write_seq_append:
  assumes "wire_format w r P"
  shows "write_seq w out xs = out @ write_seq w [] xs"
  by (rule wire_format.appends [OF wire_format_seq [OF assms]])

lemmas write_appends = write_seq_append [OF wire_u32.wire_format_axioms, of "_ @ [_]"] write_seq_append [OF wire_u32.wire_format_axioms, of "[_]"]
  write_seq_append [OF wire_prop, folded write_prop_alt, of "_ @ [_]"] write_seq_append [OF wire_prop, folded write_prop_alt, of "[_]"]
  write_seq_append [OF wire_pair, folded write_pair_alt, of "_ @ [_]"] write_seq_append [OF wire_pair, folded write_pair_alt, of "[_]"]

lemma write_node_append: "write_node out n = out @ write_node [] n"
  by (cases n) (simp_all add: write_u32_def write_u64_def write_f64_def write_bytes_def write_appends)

interpretation wire_nodes: wire_format write_node read_node fit_node
  by (rule wire_formatI [OF write_node_append]) (blast dest: fit_node_law [unfolded node_law_def])+

section \<open>Messages\<close>

definition sample_nodes :: "wire_node list" where
  "sample_nodes = [N_Object [([97], 1), ([98], 0)], N_Array [2, 2], N_String [104, 105]]"

lemma sample_nodes_fit: "list_all fit_node sample_nodes"
proof -
  have "utf8_valid [97]" "utf8_valid [98]" "utf8_valid [104, 105]" by code_simp+
  then show ?thesis by (simp add: sample_nodes_def short_def)
qed

lemma read_seq_nodes: "wire_format (write_seq write_node) (read_seq read_node) (\<lambda>ns. short ns \<and> list_all fit_node ns)"
  by (rule wire_format_seq [OF wire_nodes.wire_format_axioms])

lemma wire_message:
  "wire_format (\<lambda>out p. write_seq write_node (write_u32 out (fst p)) (snd p)) (read_then read_u32 (read_seq read_node))
     (\<lambda>p. True \<and> short (snd p) \<and> list_all fit_node (snd p))"
  by (rule wire_format_then [OF wire_u32.wire_format_axioms read_seq_nodes])

lemma write_body_alt: "write_body root ns = MAGIC @ write_seq write_node (write_u32 [] root) ns"
  using wire_format.appends [OF wire_message, of MAGIC "(root, ns)"] by (simp add: write_body_def write_seq_def)

lemma length_MAGIC [simp]: "length MAGIC = 4"
  by (simp add: MAGIC_def)

lemma read_body_magic:
  "read_body (MAGIC @ data) = rmap fst (read_then read_u32 (read_seq read_node) (MAGIC @ data) 4)"
  by (simp add: read_body_def read_then_def read_seq_def rmap_rmap rmap_rbind case_prod_beta')

text \<open>C10: what \<open>serialize\<close> writes, \<open>deserialize\<close> reads: the body of a message gives back its root and its
  nodes, for every node table whose lengths fit 32 bits and whose strings are valid.\<close>

theorem read_write_body:
  assumes "list_all fit_node ns" "length ns < 2 ^ 32"
  shows "read_body (write_body root ns) = Ok (root, ns)"
  using wire_format.reads [OF wire_message, of "(root, ns)" MAGIC "[]"] assms
  by (simp add: write_body_alt read_body_magic short_def)

theorem read_write_body_witness: "read_body (write_body 0 sample_nodes) = Ok (0, sample_nodes)"
  by (rule read_write_body [OF sample_nodes_fit]) (simp add: sample_nodes_def)

text \<open>C11: a message that is cut off anywhere is rejected with an error, never accepted as a shorter one.\<close>

theorem read_body_cut_off:
  assumes "list_all fit_node ns" "length ns < 2 ^ 32" "k < length (write_body root ns)"
  shows "read_body (take k (write_body root ns)) =
    Err (if k < 4 then ''Invalid structured-clone wire payload'' else ''Unexpected end of wire'')"
proof (cases "k < 4")
  case True
  then have "length (take k (write_body root ns)) < 4" by simp
  with True show ?thesis unfolding read_body_def by simp
next
  case False
  with assms wire_format.cut_off_early [OF wire_message, of "(root, ns)" "k - 4" MAGIC]
  show ?thesis by (simp add: write_body_alt read_body_magic short_def end_of_wire_def)
qed

theorem read_body_cut_off_witness:
  "read_body (take 30 (write_body 0 sample_nodes)) = Err ''Unexpected end of wire''"
proof -
  have "30 < length (write_body 0 sample_nodes)"
    by (simp add: write_body_def sample_nodes_def write_seq_def write_prop_def write_u32_def write_bytes_def)
  from read_body_cut_off [OF sample_nodes_fit _ this] show ?thesis by (simp add: sample_nodes_def)
qed

section \<open>Every message is read without a panic\<close>

definition calm :: "'a reader \<Rightarrow> bool" where
  "calm r \<longleftrightarrow> (\<forall>data pos. r data pos \<noteq> Panic)"

lemma calmI: "(\<And>data pos. r data pos \<noteq> Panic) \<Longrightarrow> calm r"
  by (simp add: calm_def)

lemma calm_basic: "calm read_u8" "calm read_u32" "calm read_u64" "calm read_f64"
  by (simp_all add: calm_def read_u8_def read_u32_def read_u64_def read_f64_def panic_simps)

lemma calm_vec: "calm read_vec"
  using calm_basic(2) by (auto simp: calm_def read_vec_def panic_simps)

lemma calm_string: "calm read_string"
  using calm_vec by (auto simp: calm_def read_string_def panic_simps)

lemma calm_then: "calm r \<Longrightarrow> calm s \<Longrightarrow> calm (read_then r s)"
  by (auto simp: calm_def read_then_def panic_simps)

lemma calm_times: "calm r \<Longrightarrow> calm (read_times r n)"
  by (induction n) (auto simp: calm_def panic_simps)

lemma calm_seq: "calm r \<Longrightarrow> calm (read_seq r)"
  using calm_basic(2) calm_times [of r] by (auto simp: calm_def read_seq_def panic_simps)

lemma calm_as: "calm r \<Longrightarrow> read_as c r data pos \<noteq> Panic"
  by (simp add: calm_def read_as_def panic_simps)

lemma calm_node: "calm read_node"
proof (rule calmI)
  fix data pos
  have "read_u8 data pos \<noteq> Panic" using calm_basic(1) by (simp add: calm_def)
  then show "read_node data pos \<noteq> Panic"
    unfolding read_node_def
    by (auto simp: panic_simps calm_as calm_basic calm_seq calm_then calm_string calm_vec split: if_splits)
qed

text \<open>C12: no bytes make the reader panic: every index and slice of \<open>read_node\<close> and its helpers is within
  the message, whatever was received.\<close>

theorem read_body_never_panics: "read_body data \<noteq> Panic"
proof -
  have "read_then read_u32 (read_seq read_node) data pos \<noteq> Panic" for pos
    using calm_then [OF calm_basic(2) calm_seq [OF calm_node]] by (simp add: calm_def)
  moreover have "data = MAGIC @ drop 4 data" if "take 4 data = MAGIC" using that append_take_drop_id [of 4 data] by simp
  ultimately show ?thesis
    using read_body_magic [of "drop 4 data"] by (cases "take 4 data = MAGIC") (auto simp: read_body_def panic_simps)
qed

section \<open>What the decoder gets wrong\<close>

definition plain_ctors :: js_ctors where
  "plain_ctors = \<lparr>eval_js = (\<lambda>_. Ok V_Other), new_date = Ok, new_regexp = (\<lambda>s g. Ok (s, g)), new_shared = Ok,
     new_shared_view = (\<lambda>i off len name. Ok (i, off, len, name))\<rparr>"

lemmas decode_defs = decode_index_def dec_bind_def dec_ok_def alloc_def cache_put_def update_object_def
  set_item_def remember_def

text \<open>Every buffer of a message is rebuilt from the first transferred one.\<close>

lemma buffers_share_first_transfer:
  "decode_index (Suc (Suc (Suc fuel))) plain_ctors [N_Array [1, 2], N_ArrayBufferCopy [10], N_ArrayBufferCopy [20]] [[10], [20]] 0
     \<lparr>objects = [], cache = []\<rparr>
   = Some (Ok (V_Obj 0), \<lparr>objects = [O_Array [V_Obj 1, V_Obj 2], O_Buffer [10], O_Buffer [10]],
       cache = [Some (V_Obj 0), Some (V_Obj 1), Some (V_Obj 2)]\<rparr>)"
  by (simp add: decode_defs)

text \<open>A node index outside the table, which the reader accepts, makes the decoder panic.\<close>

lemma index_out_of_range_panics:
  "read_body (write_body 7 [N_Null]) = Ok (7, [N_Null])"
  "decode_index (Suc fuel) js [N_Null] ts 7 \<lparr>objects = [], cache = []\<rparr> = Some (Panic, \<lparr>objects = [], cache = [None]\<rparr>)"
  using wire_format.reads [OF wire_message, of "(7, [N_Null])" MAGIC "[]"]
  by (simp_all add: write_body_alt read_body_magic short_def decode_index_def)

text \<open>A \<open>Set\<close> that contains itself is never put into the cache, so the decoder recurses without end.\<close>

lemma cyclic_set_never_returns:
  "decode_at fuel js [N_Set [0]] ts 0 \<lparr>objects = obs, cache = [None]\<rparr> = None"
  by (induction fuel) (simp_all add: dec_bind_def)

end
