(* ===== verification/Path_Module.thy ===== *)
theory Path_Module
  imports Raster_Prelude
begin

text \<open>
  The \<open>path\<close> module, \<open>raster_runtime_path/src/lib.rs\<close>, in its build for systems other than Windows, where
  the main separator is a slash. A path is the list of its bytes as characters. The part of
  \<open>std::path::Path\<close> that \<open>parse\<close> uses is written out; the current directory is an argument.
\<close>

definition MAIN_SEPARATOR :: char where
  "MAIN_SEPARATOR = CHR ''/''"

definition DELIMITER :: char where
  "DELIMITER = CHR '':''"

definition CURRENT_DIR_STR :: string where
  "CURRENT_DIR_STR = ''./''"

section \<open>Searching for separators\<close>

definition replace_backslash :: "string \<Rightarrow> string" where
  "replace_backslash path = map (\<lambda>c. if c = CHR 0x5C then CHR ''/'' else c) path"

fun find_char :: "char \<Rightarrow> string \<Rightarrow> nat option" where
  "find_char c [] = None"
| "find_char c (x # xs) = (if x = c then Some 0 else map_option Suc (find_char c xs))"

fun rfind_char :: "char \<Rightarrow> string \<Rightarrow> nat option" where
  "rfind_char c [] = None"
| "rfind_char c (x # xs) = (case rfind_char c xs of Some i \<Rightarrow> Some (Suc i) | None \<Rightarrow> if x = c then Some 0 else None)"

fun rfind_str :: "string \<Rightarrow> string \<Rightarrow> nat option" where
  "rfind_str p [] = (if p = [] then Some 0 else None)"
| "rfind_str p (x # xs) = (case rfind_str p xs of Some i \<Rightarrow> Some (Suc i)
     | None \<Rightarrow> if take (length p) (x # xs) = p then Some 0 else None)"

definition find_next_separator :: "string \<Rightarrow> nat option" where
  "find_next_separator s = find_char MAIN_SEPARATOR s"

definition find_last_sep :: "string \<Rightarrow> nat option" where
  "find_last_sep path = rfind_char MAIN_SEPARATOR path"

definition starts_with_sep :: "string \<Rightarrow> bool" where
  "starts_with_sep path = (case path of [] \<Rightarrow> False | c # _ \<Rightarrow> c = CHR ''/'' \<or> c = CHR 0x5C)"

definition ends_with_sep :: "string \<Rightarrow> bool" where
  "ends_with_sep path \<longleftrightarrow> path \<noteq> [] \<and> List.last path = MAIN_SEPARATOR"

definition is_absolute :: "string \<Rightarrow> bool" where
  "is_absolute path = (case path of [] \<Rightarrow> False | c # _ \<Rightarrow> c = MAIN_SEPARATOR)"

definition is_absolute_posix :: "string \<Rightarrow> bool" where
  "is_absolute_posix path = (case path of [] \<Rightarrow> False | c # _ \<Rightarrow> c = CHR ''/'')"

definition ascii_alphabetic :: "char \<Rightarrow> bool" where
  "ascii_alphabetic c \<longleftrightarrow> (65 \<le> (of_char c :: nat) \<and> (of_char c :: nat) \<le> 90)
     \<or> (97 \<le> (of_char c :: nat) \<and> (of_char c :: nat) \<le> 122)"

definition is_absolute_win32 :: "string \<Rightarrow> bool" where
  "is_absolute_win32 path \<longleftrightarrow>
     vec_get path 0 = Some CHR 0x5C \<or> vec_get path 0 = Some CHR ''/''
     \<or> (2 \<le> length path \<and> ascii_alphabetic (path ! 0) \<and> path ! 1 = CHR '':''
        \<and> (vec_get path 2 = Some CHR 0x5C \<or> vec_get path 2 = Some CHR ''/'' \<or> length path = 2))"

section \<open>Names\<close>

text \<open>The loop of \<open>find_dirname_end\<close> from index \<open>n - 1\<close> down to \<open>offset\<close>.\<close>

primrec dirname_scan :: "string \<Rightarrow> nat \<Rightarrow> nat \<Rightarrow> bool \<Rightarrow> nat option" where
  "dirname_scan bytes offset 0 matched_slash = None"
| "dirname_scan bytes offset (Suc i) matched_slash =
     (if i < offset then None
      else if bytes ! i = CHR ''/'' then
        (if \<not> matched_slash then Some i else dirname_scan bytes offset i matched_slash)
      else dirname_scan bytes offset i False)"

definition find_dirname_end :: "string \<Rightarrow> nat \<Rightarrow> nat option" where
  "find_dirname_end bytes offset = dirname_scan bytes offset (length bytes) True"

definition dirname :: "string \<Rightarrow> string" where
  "dirname path =
     (if length path = 0 then ''.''
      else if length path = 1 then (if path ! 0 = CHR ''/'' then path else ''.'')
      else let has_root = path ! 0 = CHR ''/'' in
        case find_dirname_end path 1 of
          Some e \<Rightarrow> if has_root \<and> e = 1 then ''//'' else take e path
        | None \<Rightarrow> if has_root then ''/'' else ''.'')"

definition strip_last_sep :: "string \<Rightarrow> string" where
  "strip_last_sep path = (if ends_with_sep path then take (length path - 1) path else path)"

definition name_extname :: "string \<Rightarrow> string \<times> string" where
  "name_extname path =
     (let path = strip_last_sep path;
          path = (case find_last_sep path of Some idx \<Rightarrow> drop (idx + 1) path | None \<Rightarrow> path)
      in if path \<noteq> [] \<and> hd path = CHR ''.'' then (path, [])
         else case rfind_char CHR ''.'' path of
             Some idx \<Rightarrow> (take idx path, drop idx path)
           | None \<Rightarrow> (path, []))"

definition basename :: "string \<Rightarrow> string option \<Rightarrow> string" where
  "basename path suffix =
     (if path = [] \<or> path = [MAIN_SEPARATOR] then []
      else let name = fst (name_extname path) @ snd (name_extname path) in
        case suffix of
          None \<Rightarrow> name
        | Some sfx \<Rightarrow> (case rfind_str sfx name of Some location \<Rightarrow> take location name | None \<Rightarrow> name))"

definition extname :: "string \<Rightarrow> string" where
  "extname path = snd (name_extname path)"

record path_object =
  po_root :: string
  po_dir :: string
  po_base :: string
  po_ext :: string
  po_name :: string

definition format :: "path_object \<Rightarrow> string" where
  "format obj =
     (let path = (if po_dir obj \<noteq> [] then po_dir obj @ (if ends_with_sep (po_dir obj) then [] else [MAIN_SEPARATOR])
                  else if po_root obj \<noteq> [] then po_root obj @ (if ends_with_sep (po_root obj) then [] else [MAIN_SEPARATOR])
                  else [])
      in if po_base obj \<noteq> [] then path @ po_base obj
         else path @ po_name obj @
           (if po_ext obj \<noteq> [] then (if hd (po_ext obj) \<noteq> CHR ''.'' then ''.'' else []) @ po_ext obj else []))"

text \<open>
  \<open>Path::components\<close> read from the back: a path is a root or a leading \<open>.\<close>, followed by a body whose
  components are separated by slashes; empty components and other \<open>.\<close> components do not count.
\<close>

definition path_head :: "string \<Rightarrow> nat" where
  "path_head s = (if is_absolute s then 1
     else if s = ''.'' \<or> take 2 s = ''./'' then 1 else 0)"

definition split_last :: "string \<Rightarrow> string \<times> string" where
  "split_last body' = (case find_last_sep body' of None \<Rightarrow> ([], body') | Some i \<Rightarrow> (take i body', drop (i + 1) body'))"

lemma rfind_char_less: "rfind_char c s = Some i \<Longrightarrow> i < length s"
  by (induction s arbitrary: i) (auto split: option.splits if_splits)

lemma length_split_last: "s \<noteq> [] \<Longrightarrow> length (fst (split_last s)) < length s"
  by (auto simp: split_last_def find_last_sep_def dest: rfind_char_less split: option.splits)

function trim_right :: "string \<Rightarrow> string" where
  "trim_right body' =
     (if body' = [] then []
      else if snd (split_last body') = [] \<or> snd (split_last body') = ''.'' then trim_right (fst (split_last body'))
      else body')"
  by pat_completeness auto
termination by (relation "measure length") (simp_all add: length_split_last)

declare trim_right.simps [simp del]

definition path_parent :: "string \<Rightarrow> string option" where
  "path_parent s =
     (let h = path_head s; b = trim_right (drop h s)
      in if b \<noteq> [] then Some (take h s @ trim_right (fst (split_last b)))
         else if h = 0 \<or> is_absolute s then None else Some [])"

definition path_file_name :: "string \<Rightarrow> string option" where
  "path_file_name s =
     (let b = trim_right (drop (path_head s) s); c = snd (split_last b)
      in if b \<noteq> [] \<and> c \<noteq> ''..'' then Some c else None)"

definition parse :: "string \<Rightarrow> path_object" where
  "parse path_str =
     (let parent = (case path_parent path_str of Some p \<Rightarrow> p | None \<Rightarrow> []);
          filename = (case path_file_name path_str of Some n \<Rightarrow> n | None \<Rightarrow> []);
          (name, extension) = name_extname filename;
          root = (if is_absolute path_str then ''/'' else [])
      in \<lparr>po_root = root, po_dir = parent, po_base = name @ extension, po_ext = extension, po_name = name\<rparr>)"

section \<open>Joining and resolving\<close>

record join_state =
  result :: string
  index_stack :: "nat list"
  no_root :: bool

definition seg_step :: "char \<Rightarrow> string \<Rightarrow> join_state \<Rightarrow> join_state" where
  "seg_step sep seg st =
     (if seg = ''..'' then
        (case index_stack st of
           last_index # rest \<Rightarrow> st\<lparr>index_stack := rest, result := take last_index (result st)\<rparr>
         | [] \<Rightarrow> if no_root st
             then (case find_last_sep (result st) of
                 Some last_index \<Rightarrow> st\<lparr>result := take last_index (result st)\<rparr>
               | None \<Rightarrow> st)
             else st)
      else if seg = [] \<or> seg = ''.'' then st
      else
        let res = (if (result st = [] \<or> List.last (result st) \<noteq> sep) \<and> result st \<noteq> []
                   then result st @ [sep] else result st)
        in st\<lparr>result := res @ seg @ [sep], index_stack := length (result st) # index_stack st\<rparr>)"

definition segment :: "string \<Rightarrow> string" where
  "segment s = (case find_next_separator s of None \<Rightarrow> s | Some i \<Rightarrow> take i s)"

function seg_loop :: "char \<Rightarrow> string \<Rightarrow> join_state \<Rightarrow> join_state" where
  "seg_loop sep s st =
     (if s = [] then st else seg_loop sep (drop (length (segment s) + 1) s) (seg_step sep (segment s) st))"
  by pat_completeness auto
termination by (relation "measure (\<lambda>(sep, s, st). length s)") auto

declare seg_loop.simps [simp del]

definition part_step :: "bool \<Rightarrow> char \<Rightarrow> string \<Rightarrow> join_state \<Rightarrow> join_state" where
  "part_step resolving sep part st =
     (if resolving then
        (if is_absolute part
         then seg_loop sep (drop 1 part) (st\<lparr>no_root := False, result := [MAIN_SEPARATOR]\<rparr>)
         else seg_loop sep part st)
      else if starts_with_sep part \<and> no_root st
      then seg_loop sep (drop 1 part) (st\<lparr>no_root := False, result := result st @ [sep]\<rparr>)
      else seg_loop sep part st)"

definition strip_trailing :: "string \<Rightarrow> string" where
  "strip_trailing res = (if 1 < length res \<and> ends_with_sep res then take (length res - 1) res else res)"

definition join_resolve_path :: "string list \<Rightarrow> bool \<Rightarrow> string \<Rightarrow> bool \<Rightarrow> string" where
  "join_resolve_path parts resolving res force_posix_sep =
     (let sep = (if force_posix_sep then CHR ''/'' else MAIN_SEPARATOR)
      in strip_trailing (result (fold (part_step resolving sep) parts
           \<lparr>result = strip_trailing res, index_stack = [], no_root = True\<rparr>)))"

definition join_path_with_separator :: "string list \<Rightarrow> bool \<Rightarrow> string" where
  "join_path_with_separator parts force_posix_sep = join_resolve_path parts False [] force_posix_sep"

definition join_path :: "string list \<Rightarrow> string" where
  "join_path parts = join_path_with_separator parts False"

definition join_posix :: "string list \<Rightarrow> string" where
  "join_posix parts = join_path_with_separator parts True"

definition replace_slash :: "string \<Rightarrow> string" where
  "replace_slash s = map (\<lambda>c. if c = CHR ''/'' then CHR 0x5C else c) s"

definition join_win32 :: "string list \<Rightarrow> string" where
  "join_win32 parts = replace_slash (join_path_with_separator parts True)"

definition normalize :: "string \<Rightarrow> string" where
  "normalize path = join_path [path]"

definition normalize_posix :: "string \<Rightarrow> string" where
  "normalize_posix path = join_path_with_separator [path] True"

text \<open>The current directory is \<open>Err\<close> when it cannot be read and panics when it is not UTF-8.\<close>

definition resolve_path_with_separator :: "('e, string) res \<Rightarrow> string list \<Rightarrow> bool \<Rightarrow> ('e, string) res" where
  "resolve_path_with_separator cwd parts force_posix_sep = rbind cwd (\<lambda>cwd.
     Ok (join_resolve_path parts True (if ends_with_sep cwd then cwd else cwd @ [MAIN_SEPARATOR]) force_posix_sep))"

definition resolve_path :: "('e, string) res \<Rightarrow> string list \<Rightarrow> ('e, string) res" where
  "resolve_path cwd parts = resolve_path_with_separator cwd parts False"

definition resolve_posix :: "('e, string) res \<Rightarrow> string list \<Rightarrow> ('e, string) res" where
  "resolve_posix cwd parts = resolve_path_with_separator cwd parts True"

definition resolve_win32 :: "('e, string) res \<Rightarrow> string list \<Rightarrow> ('e, string) res" where
  "resolve_win32 cwd parts = rmap replace_slash (resolve_path_with_separator cwd parts True)"

section \<open>Relative paths\<close>

function skip_common :: "string \<Rightarrow> string \<Rightarrow> string \<times> string" where
  "skip_common from to =
     (if from = [] \<or> to = [] then (from, to)
      else if segment from \<noteq> segment to then (from, to)
      else skip_common (drop (length (segment from) + 1) from) (drop (length (segment to) + 1) to))"
  by pat_completeness auto
termination by (relation "measure (\<lambda>(from, to). length from)") auto

declare skip_common.simps [simp del]

definition push_sep :: "string \<Rightarrow> string" where
  "push_sep rel = (if rel \<noteq> [] then rel @ [MAIN_SEPARATOR] else rel)"

function up_loop :: "string \<Rightarrow> string \<Rightarrow> string" where
  "up_loop from rel =
     (if from = [] then rel else up_loop (drop (length (segment from) + 1) from) (push_sep rel @ ''..''))"
  by pat_completeness auto
termination by (relation "measure (\<lambda>(from, rel). length from)") auto

declare up_loop.simps [simp del]

function down_loop :: "string \<Rightarrow> string \<Rightarrow> string" where
  "down_loop to rel =
     (if to = [] then rel
      else down_loop (drop (length (segment to) + 1) to)
        (push_sep rel @ (if segment to \<noteq> ''.'' then segment to else [])))"
  by pat_completeness auto
termination by (relation "measure (\<lambda>(to, rel). length to)") auto

declare down_loop.simps [simp del]

definition absolute_from :: "('e, string) res \<Rightarrow> string \<Rightarrow> ('e, string) res" where
  "absolute_from cwd p = (if is_absolute p then Ok p else rmap (\<lambda>cwd. cwd @ [MAIN_SEPARATOR] @ p) cwd)"

definition relative :: "('e, string) res \<Rightarrow> string \<Rightarrow> string \<Rightarrow> ('e, string) res" where
  "relative cwd from to =
     (if from = to then Ok []
      else rbind (absolute_from cwd from) (\<lambda>from. rbind (absolute_from cwd to) (\<lambda>to.
        let (from_rest, to_rest) = skip_common from to;
            rel = down_loop to_rest (up_loop from_rest [])
        in Ok (if rel = [] then ''.'' else rel))))"

end
