(* ===== verification/Path_Laws.thy ===== *)
theory Path_Laws
  imports Path_Module
begin

text \<open>
  Laws of the path module: \<open>join\<close>, \<open>normalize\<close> and \<open>resolve\<close> compute the canonical path of the components
  they are given, \<open>relative\<close> is undone by \<open>resolve\<close>, and \<open>format\<close> undoes \<open>parse\<close>.
\<close>

section \<open>Components\<close>

function segs :: "string \<Rightarrow> string list" where
  "segs s = (if s = [] then [] else segment s # segs (drop (length (segment s) + 1) s))"
  by pat_completeness auto
termination by (relation "measure length") auto

declare segs.simps [simp del]

lemma find_char_None: "find_char c s = None \<longleftrightarrow> c \<notin> set s"
  by (induction s) auto

lemma find_char_at: "c \<notin> set a \<Longrightarrow> find_char c (a @ c # b) = Some (length a)"
  by (induction a) auto

lemma segment_end: "CHR ''/'' \<notin> set c \<Longrightarrow> segment c = c"
  by (simp add: segment_def find_next_separator_def MAIN_SEPARATOR_def find_char_None [THEN iffD2])

lemma segment_sep: "CHR ''/'' \<notin> set c \<Longrightarrow> segment (c @ CHR ''/'' # s) = c"
  by (simp add: segment_def find_next_separator_def MAIN_SEPARATOR_def find_char_at)

lemma segs_Nil [simp]: "segs [] = []"
  by (simp add: segs.simps)

lemma segs_end: "CHR ''/'' \<notin> set c \<Longrightarrow> c \<noteq> [] \<Longrightarrow> segs c = [c]"
  by (subst segs.simps) (simp add: segment_end)

lemma segs_sep: "CHR ''/'' \<notin> set c \<Longrightarrow> segs (c @ CHR ''/'' # s) = c # segs s"
  by (subst segs.simps) (simp add: segment_sep)

lemma segs_slash [simp]: "segs (CHR ''/'' # s) = [] # segs s"
  using segs_sep [of "[]" s] by simp

text \<open>A component of a canonical path, and the text of such a path.\<close>

definition pcomp :: "string \<Rightarrow> bool" where
  "pcomp c \<longleftrightarrow> c \<noteq> [] \<and> c \<noteq> ''.'' \<and> c \<noteq> ''..'' \<and> CHR ''/'' \<notin> set c"

fun join_sep :: "string list \<Rightarrow> string" where
  "join_sep [] = []"
| "join_sep [c] = c"
| "join_sep (c # cs) = c @ CHR ''/'' # join_sep cs"

definition path_text :: "bool \<Rightarrow> string list \<Rightarrow> string" where
  "path_text root cs = (if root then ''/'' else []) @ join_sep cs"

lemma join_sep_Cons: "join_sep (c # cs) = c @ (if cs = [] then [] else CHR ''/'' # join_sep cs)"
  by (cases cs) simp_all

text \<open>A component that may also be \<open>.\<close> or \<open>..\<close>\<close>

definition rcomp :: "string \<Rightarrow> bool" where
  "rcomp c \<longleftrightarrow> c \<noteq> [] \<and> CHR ''/'' \<notin> set c"

lemma pcomp_rcomp: "list_all pcomp cs \<Longrightarrow> list_all rcomp cs"
  by (auto simp: list_all_iff pcomp_def rcomp_def)

lemma segs_join_rcomp: "list_all rcomp cs \<Longrightarrow> segs (join_sep cs) = cs"
  by (induction cs rule: join_sep.induct) (auto simp: rcomp_def segs_end segs_sep)

lemmas segs_join_sep = segs_join_rcomp [OF pcomp_rcomp]

lemma segs_path_text: "list_all pcomp cs \<Longrightarrow> segs (path_text True cs) = [] # cs"
  by (simp add: path_text_def segs_join_sep)

text \<open>What a component does to the components so far (in reverse).\<close>

definition push_seg :: "string \<Rightarrow> string list \<Rightarrow> string list" where
  "push_seg seg acc = (if seg = ''..'' then tl acc else if seg = [] \<or> seg = ''.'' then acc else seg # acc)"

lemma segment_no_sep: "CHR ''/'' \<notin> set (segment s)"
proof (induction s)
  case (Cons x s)
  then show ?case
    by (cases "find_char CHR ''/'' s")
      (auto simp: segment_def find_next_separator_def MAIN_SEPARATOR_def split: option.splits)
qed (simp add: segment_def find_next_separator_def)

lemma segs_no_sep: "c \<in> set (segs s) \<Longrightarrow> CHR ''/'' \<notin> set c"
proof (induction s rule: segs.induct)
  case (1 s)
  then show ?case by (cases "s = []") (auto simp: segs.simps [of s] segment_no_sep)
qed

lemma push_seg_pcomp:
  "list_all pcomp acc \<Longrightarrow> (\<And>c. c \<in> set ss \<Longrightarrow> CHR ''/'' \<notin> set c) \<Longrightarrow> list_all pcomp (fold push_seg ss acc)"
proof (induction ss arbitrary: acc)
  case (Cons c ss)
  have "list_all pcomp (push_seg c acc)"
    using Cons.prems(1) Cons.prems(2) [of c] by (cases acc) (simp_all add: push_seg_def pcomp_def [of c])
  with Cons show ?case by simp
qed simp

section \<open>Joining\<close>

definition dir_text :: "bool \<Rightarrow> string list \<Rightarrow> string" where
  "dir_text root acc = (if root then ''/'' else []) @ concat (map (\<lambda>c. c @ ''/'') (rev acc))"

fun marks :: "bool \<Rightarrow> string list \<Rightarrow> nat list" where
  "marks root [] = []"
| "marks root (c # acc) = length (dir_text root acc) # marks root acc"

text \<open>
  The state of the loop stands for the components \<open>acc\<close>: the result is their text, each with a slash
  behind it, and the stack holds the lengths of the shorter texts, above entries \<open>stale\<close> that were left
  by components before the last absolute part.
\<close>

definition joins :: "bool \<Rightarrow> string list \<Rightarrow> join_state \<Rightarrow> bool" where
  "joins root acc st \<longleftrightarrow> no_root st = (\<not> root) \<and> result st = dir_text root acc
     \<and> (\<exists>stale. index_stack st = marks root acc @ stale \<and> (if root then \<forall>i\<in>set stale. 1 \<le> i else stale = []))"

lemma dir_text_simps [simp]:
  "dir_text root (c # acc) = dir_text root acc @ c @ ''/''"
  "dir_text True [] = ''/''" "dir_text False [] = []"
  by (simp_all add: dir_text_def)

lemma dir_text_last: "dir_text root acc = [] \<or> List.last (dir_text root acc) = CHR ''/''"
  by (cases acc; cases root) simp_all

lemma marks_positive: "list_all pcomp acc \<Longrightarrow> i \<in> set (marks True acc) \<Longrightarrow> 1 \<le> i"
proof (induction acc)
  case (Cons c acc)
  then show ?case by (cases acc) auto
qed simp

lemma seg_step_joins:
  assumes "joins root acc st" "CHR ''/'' \<notin> set seg"
  shows "joins root (push_seg seg acc) (seg_step CHR ''/'' seg st)"
proof -
  from assms obtain stale where st: "no_root st = (\<not> root)" "result st = dir_text root acc"
    "index_stack st = marks root acc @ stale" "if root then \<forall>i\<in>set stale. 1 \<le> i else stale = []"
    by (auto simp: joins_def)
  consider (up) "seg = ''..''" | (same) "seg = [] \<or> seg = ''.''" | (push) "seg \<noteq> ''..''" "seg \<noteq> []" "seg \<noteq> ''.''" by blast
  then show ?thesis
  proof cases
    case up
    show ?thesis
    proof (cases acc)
      case Nil
      then show ?thesis
      proof (cases stale)
        case (Cons i r)
        with st Nil up show ?thesis by (auto simp: seg_step_def push_seg_def joins_def split: if_splits)
      qed (use st Nil up in \<open>auto simp: seg_step_def push_seg_def joins_def find_last_sep_def split: if_splits\<close>)
    next
      case (Cons c r)
      with st up show ?thesis by (auto simp: seg_step_def push_seg_def joins_def)
    qed
  next
    case same
    with assms(1) show ?thesis by (auto simp: seg_step_def push_seg_def)
  next
    case push
    with st dir_text_last [of root acc] show ?thesis by (auto simp: seg_step_def push_seg_def joins_def Let_def)
  qed
qed

lemma seg_loop_fold: "seg_loop sep s st = fold (seg_step sep) (segs s) st"
proof (induction sep s st rule: seg_loop.induct)
  case (1 sep s st)
  then show ?case by (cases "s = []") (simp_all add: seg_loop.simps [of sep s] seg_loop.simps [of sep "[]"] segs.simps [of s])
qed

lemma fold_seg_joins:
  assumes "joins root acc st" "\<And>c. c \<in> set ss \<Longrightarrow> CHR ''/'' \<notin> set c"
  shows "joins root (fold push_seg ss acc) (fold (seg_step CHR ''/'') ss st)"
  using assms
proof (induction ss arbitrary: acc st)
  case (Cons c ss)
  then show ?case using seg_step_joins [of root acc st c] by simp
qed simp

lemma seg_loop_joins: "joins root acc st \<Longrightarrow> joins root (fold push_seg (segs s) acc) (seg_loop CHR ''/'' s st)"
  unfolding seg_loop_fold by (rule fold_seg_joins) (auto dest: segs_no_sep)

lemma join_sep_snoc: "join_sep (cs @ [c]) = (if cs = [] then c else join_sep cs @ CHR ''/'' # c)"
  by (induction cs) (simp_all add: join_sep_Cons)

lemma dir_text_join_sep: "dir_text root (c # acc) = path_text root (rev (c # acc)) @ ''/''"
proof (induction acc arbitrary: c)
  case (Cons d acc)
  have "dir_text root (c # d # acc) = path_text root (rev (d # acc)) @ ''/'' @ c @ ''/''"
    unfolding dir_text_simps(1) [of root c] Cons.IH by simp
  then show ?case using join_sep_snoc [of "rev acc @ [d]" c] by (simp add: path_text_def)
qed (cases root; simp add: path_text_def)

lemma strip_dir_text:
  assumes "list_all pcomp acc"
  shows "strip_trailing (dir_text root acc) = path_text root (rev acc)"
proof (cases acc)
  case Nil
  then show ?thesis by (cases root) (simp_all add: strip_trailing_def path_text_def)
next
  case (Cons c r)
  with assms have "path_text root (rev (c # r)) \<noteq> []"
    by (simp add: path_text_def join_sep_snoc pcomp_def)
  then show ?thesis
    unfolding Cons dir_text_join_sep by (simp add: strip_trailing_def ends_with_sep_def MAIN_SEPARATOR_def)
qed



lemma join_result:
  assumes "joins root acc st" "list_all pcomp acc"
  shows "strip_trailing (result st) = path_text root (rev acc)"
  using assms strip_dir_text [OF assms(2), of root] by (simp add: joins_def)

lemma segs_no_seps: "c \<in> set (concat (map segs parts)) \<Longrightarrow> CHR ''/'' \<notin> set c"
  by (auto dest: segs_no_sep)

lemma segs_absolute: "is_absolute p \<Longrightarrow> segs p = [] # segs (drop 1 p)"
  by (cases p) (simp_all add: is_absolute_def MAIN_SEPARATOR_def)

lemma push_seg_Nil [simp]: "push_seg [] acc = acc"
  by (simp add: push_seg_def)


section \<open>Resolving\<close>

definition resolve_step :: "string \<Rightarrow> string list \<Rightarrow> string list" where
  "resolve_step part acc = fold push_seg (segs part) (if is_absolute part then [] else acc)"

lemma part_step_resolve:
  assumes "joins True acc st" "list_all pcomp acc"
  shows "joins True (resolve_step p acc) (part_step True CHR ''/'' p st)"
proof (cases "is_absolute p")
  case True
  from assms have "\<forall>i\<in>set (index_stack st). 1 \<le> i" using marks_positive [OF assms(2)] by (auto simp: joins_def)
  then have "joins True [] (st\<lparr>no_root := False, result := ''/''\<rparr>)" by (simp add: joins_def)
  from seg_loop_joins [OF this, of "drop 1 p"] True segs_absolute [OF True] show ?thesis
    by (simp add: part_step_def resolve_step_def MAIN_SEPARATOR_def)
next
  case False
  with seg_loop_joins [OF assms(1), of p] show ?thesis by (simp add: part_step_def resolve_step_def)
qed

lemma resolve_step_pcomp: "list_all pcomp acc \<Longrightarrow> list_all pcomp (resolve_step p acc)"
  unfolding resolve_step_def by (rule push_seg_pcomp) (auto dest: segs_no_sep)

lemma fold_resolve:
  assumes "joins True acc st" "list_all pcomp acc"
  shows "joins True (fold resolve_step ps acc) (fold (part_step True CHR ''/'') ps st) \<and> list_all pcomp (fold resolve_step ps acc)"
  using assms
proof (induction ps arbitrary: acc st)
  case (Cons p ps)
  from Cons.IH [OF part_step_resolve [OF Cons.prems] resolve_step_pcomp [OF Cons.prems(2)]] show ?case by simp
qed simp

lemma resolve_absolute:
  assumes "is_absolute p"
  shows "join_resolve_path (p # ps) True res fp = path_text True (rev (fold resolve_step (p # ps) []))"
proof -
  let ?st = "\<lparr>result = strip_trailing res, index_stack = [], no_root = True\<rparr>"
  have "joins True [] (?st\<lparr>no_root := False, result := ''/''\<rparr>)" by (simp add: joins_def)
  from seg_loop_joins [OF this, of "drop 1 p"] assms segs_absolute [OF assms]
  have "joins True (resolve_step p []) (part_step True CHR ''/'' p ?st)"
    by (simp add: part_step_def resolve_step_def MAIN_SEPARATOR_def)
  moreover have "list_all pcomp (resolve_step p [])" by (rule resolve_step_pcomp) simp
  ultimately have "joins True (fold resolve_step ps (resolve_step p [])) (fold (part_step True CHR ''/'') ps (part_step True CHR ''/'' p ?st))
      \<and> list_all pcomp (fold resolve_step ps (resolve_step p []))"
    by (rule fold_resolve)
  then show ?thesis using join_result [of True "fold resolve_step ps (resolve_step p [])"]
    by (simp add: join_resolve_path_def MAIN_SEPARATOR_def)
qed

section \<open>Relative paths\<close>

lemma join_sep_Nil_iff: "list_all rcomp cs \<Longrightarrow> join_sep cs = [] \<longleftrightarrow> cs = []"
  by (cases cs) (auto simp: join_sep_Cons rcomp_def)

lemma segment_join_sep: "rcomp c \<Longrightarrow> segment (join_sep (c # cs)) = c"
  by (auto simp: join_sep_Cons rcomp_def segment_end segment_sep)

lemma drop_join_sep: "drop (length c + 1) (join_sep (c # cs)) = join_sep cs"
  by (simp add: join_sep_Cons)

fun strip_common :: "string list \<Rightarrow> string list \<Rightarrow> string list \<times> string list" where
  "strip_common (a # as) (b # bs) = (if a = b then strip_common as bs else (a # as, b # bs))"
| "strip_common as bs = (as, bs)"

lemma strip_common_prefix: "strip_common as bs = (as', bs') \<Longrightarrow> \<exists>c. as = c @ as' \<and> bs = c @ bs'"
proof (induction as bs rule: strip_common.induct)
  case (1 a as b bs)
  show ?case
  proof (cases "a = b")
    case True
    with 1 obtain c where "as = c @ as'" "bs = c @ bs'" by auto
    with True have "a # as = (a # c) @ as' \<and> b # bs = (a # c) @ bs'" by simp
    then show ?thesis by blast
  qed (use 1 in simp)
qed simp_all

lemma skip_common_join_sep:
  assumes "list_all rcomp fs" "list_all rcomp ts"
  shows "skip_common (join_sep fs) (join_sep ts) = map_prod join_sep join_sep (strip_common fs ts)"
  using assms
proof (induction fs ts rule: strip_common.induct)
  case (1 a as b bs)
  then show ?case
    by (subst skip_common.simps)
      (simp add: join_sep_Nil_iff segment_join_sep drop_join_sep [simplified])
qed (simp_all add: skip_common.simps)

lemma push_sep_join: "list_all rcomp acc \<Longrightarrow> push_sep (join_sep acc) @ c = join_sep (acc @ [c])"
  by (simp add: push_sep_def join_sep_Nil_iff join_sep_snoc MAIN_SEPARATOR_def)

lemma up_loop_join_sep:
  assumes "list_all rcomp fs" "list_all rcomp acc"
  shows "up_loop (join_sep fs) (join_sep acc) = join_sep (acc @ replicate (length fs) ''..'')"
  using assms
proof (induction fs arbitrary: acc)
  case (Cons f fs)
  have "up_loop (join_sep (f # fs)) (join_sep acc) = up_loop (join_sep fs) (join_sep (acc @ [''..'']))"
    using Cons.prems
    by (subst up_loop.simps) (simp add: join_sep_Nil_iff segment_join_sep drop_join_sep [simplified] push_sep_join)
  with Cons.IH [of "acc @ [''..'']"] Cons.prems show ?case by (simp add: rcomp_def)
qed (simp add: up_loop.simps)

lemma down_loop_join_sep:
  assumes "list_all pcomp ts" "list_all rcomp acc"
  shows "down_loop (join_sep ts) (join_sep acc) = join_sep (acc @ ts)"
  using assms
proof (induction ts arbitrary: acc)
  case (Cons t ts)
  have r: "list_all rcomp (t # ts)" by (rule pcomp_rcomp [OF Cons.prems(1)])
  have "down_loop (join_sep (t # ts)) (join_sep acc) = down_loop (join_sep ts) (join_sep (acc @ [t]))"
    using Cons.prems(1) r
    by (subst down_loop.simps)
      (simp add: join_sep_Nil_iff segment_join_sep drop_join_sep [simplified] push_sep_join [OF Cons.prems(2)] pcomp_def [of t])
  with Cons.IH [of "acc @ [t]"] Cons.prems r show ?case by simp
qed (simp add: down_loop.simps)

lemma fold_push_up: "fold push_seg (replicate n ''..'') acc = drop n acc"
  by (induction n arbitrary: acc) (simp_all add: push_seg_def drop_Suc)

lemma fold_push_plain: "list_all pcomp ts \<Longrightarrow> fold push_seg ts acc = rev ts @ acc"
  by (induction ts arbitrary: acc) (simp_all add: push_seg_def pcomp_def)

lemma path_text_inj: "list_all pcomp as \<Longrightarrow> list_all pcomp bs \<Longrightarrow> path_text True as = path_text True bs \<Longrightarrow> as = bs"
  by (metis list.inject segs_path_text)

lemma is_absolute_path_text [simp]: "is_absolute (path_text True cs)"
  by (simp add: is_absolute_def path_text_def MAIN_SEPARATOR_def)

lemma relative_text:
  assumes fs: "list_all pcomp fs" and ts: "list_all pcomp ts" and "fs \<noteq> ts"
  shows "\<exists>c fs' ts'. fs = c @ fs' \<and> ts = c @ ts'
    \<and> relative cwd (path_text True fs) (path_text True ts) = Ok (join_sep (replicate (length fs') ''..'' @ ts'))"
proof -
  obtain fs' ts' where sc: "strip_common fs ts = (fs', ts')" by (cases "strip_common fs ts")
  from strip_common_prefix [OF sc] obtain c where c: "fs = c @ fs'" "ts = c @ ts'" by blast
  have "skip_common (path_text True fs) (path_text True ts) = skip_common (join_sep fs) (join_sep ts)"
    using segment_sep [of "[]"] by (subst skip_common.simps) (simp add: path_text_def)
  then have skip: "skip_common (path_text True fs) (path_text True ts) = (join_sep fs', join_sep ts')"
    using skip_common_join_sep [OF pcomp_rcomp [OF fs] pcomp_rcomp [OF ts]] sc by simp
  let ?ups = "replicate (length fs') ''..''"
  have r: "list_all rcomp fs'" "list_all pcomp ts'" "list_all rcomp ?ups"
    using pcomp_rcomp [OF fs] ts c by (simp_all add: list_all_iff rcomp_def)
  have rel: "down_loop (join_sep ts') (up_loop (join_sep fs') []) = join_sep (?ups @ ts')"
    using up_loop_join_sep [OF r(1), of "[]"] down_loop_join_sep [OF r(2) r(3)] by simp
  have "?ups @ ts' \<noteq> []" using c assms(3) by auto
  then have "join_sep (?ups @ ts') \<noteq> []"
    using r pcomp_rcomp [OF r(2)] join_sep_Nil_iff [of "?ups @ ts'"] by simp
  moreover have "path_text True fs \<noteq> path_text True ts" using path_text_inj [OF fs ts] assms(3) by blast
  ultimately have "relative cwd (path_text True fs) (path_text True ts) = Ok (join_sep (?ups @ ts'))"
    by (simp add: relative_def absolute_from_def skip rel)
  with c show ?thesis by blast
qed

section \<open>Names of a path\<close>

lemma rfind_char_None: "rfind_char c s = None \<longleftrightarrow> c \<notin> set s"
  by (induction s) (auto split: option.splits)

lemma rfind_char_at: "c \<notin> set b \<Longrightarrow> rfind_char c (a @ c # b) = Some (length a)"
  using rfind_char_None [of c b] by (induction a) auto

lemma split_last_join_sep:
  assumes "CHR ''/'' \<notin> set c"
  shows "split_last (join_sep (cs @ [c])) = (join_sep cs, c)"
  using assms rfind_char_None [of "CHR ''/''" c] rfind_char_at [OF assms, of "join_sep cs"]
  by (simp add: split_last_def find_last_sep_def MAIN_SEPARATOR_def join_sep_snoc)

lemma trim_right_join_sep: "list_all pcomp cs \<Longrightarrow> trim_right (join_sep cs) = join_sep cs"
proof (cases cs rule: rev_cases)
  case (snoc cs' c)
  moreover assume "list_all pcomp cs"
  ultimately show ?thesis by (subst trim_right.simps) (simp add: split_last_join_sep pcomp_def)
qed (simp add: trim_right.simps)

lemma path_head_text:
  assumes "list_all pcomp cs"
  shows "path_head (path_text root cs) = (if root then 1 else 0)"
proof (cases root)
  case False
  then show ?thesis
  proof (cases cs)
    case (Cons c r)
    with assms have c: "pcomp c" by simp
    then obtain x y where "c = x # y" by (cases c) (auto simp: pcomp_def)
    with c Cons False show ?thesis
      by (cases y) (auto simp: path_head_def path_text_def is_absolute_def pcomp_def join_sep_Cons MAIN_SEPARATOR_def)
  qed (simp add: path_head_def path_text_def is_absolute_def)
qed (simp add: path_head_def)

lemma parse_parts:
  assumes "list_all pcomp (cs @ [c])"
  shows "path_parent (path_text root (cs @ [c])) = Some (path_text root cs)"
    "path_file_name (path_text root (cs @ [c])) = Some c"
proof -
  have h: "drop (if root then 1 else 0) (path_text root (cs @ [c])) = join_sep (cs @ [c])"
    "take (if root then 1 else 0) (path_text root (cs @ [c])) = (if root then ''/'' else [])"
    by (simp_all add: path_text_def)
  have c: "CHR ''/'' \<notin> set c" "c \<noteq> ''..''" "join_sep (cs @ [c]) \<noteq> []"
    using assms join_sep_Nil_iff [OF pcomp_rcomp [OF assms]] by (simp_all add: pcomp_def)
  note parts = path_head_text [OF assms] h trim_right_join_sep [OF assms] split_last_join_sep [OF c(1)] Let_def c
  show "path_parent (path_text root (cs @ [c])) = Some (path_text root cs)"
    using trim_right_join_sep [of cs] assms unfolding path_parent_def parts by (simp add: path_text_def c)
  show "path_file_name (path_text root (cs @ [c])) = Some c"
    unfolding path_file_name_def parts by (simp add: c)
qed

lemma no_sep_end: "CHR ''/'' \<notin> set f \<Longrightarrow> \<not> ends_with_sep f"
  by (metis MAIN_SEPARATOR_def ends_with_sep_def last_in_set)

lemma name_extname_file:
  assumes "CHR ''/'' \<notin> set f"
  shows "fst (name_extname f) @ snd (name_extname f) = f"
proof -
  have "strip_last_sep f = f" using no_sep_end [OF assms] by (simp add: strip_last_sep_def)
  moreover have "find_last_sep f = None" using assms by (simp add: find_last_sep_def MAIN_SEPARATOR_def rfind_char_None)
  ultimately show ?thesis by (simp add: name_extname_def split: option.splits)
qed

lemma ends_with_sep_text:
  assumes "list_all pcomp (cs @ [c])"
  shows "\<not> ends_with_sep (path_text root (cs @ [c]))"
proof -
  from assms have "\<not> ends_with_sep c" "c \<noteq> []" using no_sep_end [of c] by (simp_all add: pcomp_def)
  then show ?thesis by (simp add: ends_with_sep_def path_text_def join_sep_snoc)
qed

lemma is_absolute_text:
  assumes "list_all pcomp cs"
  shows "is_absolute (path_text root cs) = root"
proof (cases root)
  case False
  with assms show ?thesis
    by (cases cs) (auto simp: is_absolute_def path_text_def join_sep_Cons pcomp_def MAIN_SEPARATOR_def
      split: list.splits if_splits)
qed simp

lemma format_parse_text:
  assumes "list_all pcomp cs"
  shows "format (parse (path_text root cs)) = path_text root cs"
proof (cases cs rule: rev_cases)
  case Nil
  then show ?thesis
    by (cases root) (simp_all add: parse_def path_parent_def path_file_name_def path_text_def path_head_def is_absolute_def
      MAIN_SEPARATOR_def trim_right.simps name_extname_def strip_last_sep_def ends_with_sep_def find_last_sep_def format_def Let_def)
next
  case (snoc ds c)
  with assms have pc: "list_all pcomp (ds @ [c])" by simp
  then have c: "CHR ''/'' \<notin> set c" "c \<noteq> []" by (simp_all add: pcomp_def)
  have "format (parse (path_text root (ds @ [c]))) = (if path_text root ds \<noteq> []
      then path_text root ds @ (if ends_with_sep (path_text root ds) then [] else ''/'') else []) @ c"
  proof -
    obtain n x where nx: "name_extname c = (n, x)" by (cases "name_extname c")
    have "root \<Longrightarrow> path_text root ds \<noteq> []" by (simp add: path_text_def)
    then show ?thesis using name_extname_file [OF c(1)] c(2)
      by (cases root) (simp_all add: nx parse_def parse_parts [OF pc] is_absolute_text [OF pc] format_def MAIN_SEPARATOR_def)
  qed
  also have "\<dots> = path_text root (ds @ [c])"
  proof (cases ds rule: rev_cases)
    case Nil
    then show ?thesis by (simp add: path_text_def ends_with_sep_def MAIN_SEPARATOR_def)
  next
    case (snoc es d)
    with pc have pd: "list_all pcomp (es @ [d])" by simp
    then have "path_text root (es @ [d]) \<noteq> []"
      using join_sep_Nil_iff [OF pcomp_rcomp [OF pd]] by (simp add: path_text_def)
    with ends_with_sep_text [OF pd] show ?thesis
      using join_sep_snoc [of ds c] by (simp add: snoc) (simp add: path_text_def)
  qed
  finally show ?thesis by (simp add: snoc)
qed

lemma dirname_scan_back:
  assumes "CHR ''/'' \<notin> set c" "k \<le> length c" "off \<le> length a"
  shows "dirname_scan (a @ CHR ''/'' # c) off (Suc (length a + k)) False = Some (length a)"
  using assms
proof (induction k)
  case (Suc k)
  then have "(a @ CHR ''/'' # c) ! (Suc (length a + k)) = c ! k" by (simp add: nth_append)
  moreover have "c ! k \<in> set c" using Suc.prems by simp
  ultimately have "(a @ CHR ''/'' # c) ! (Suc (length a + k)) \<noteq> CHR ''/''" using Suc.prems by metis
  with Suc show ?case by simp
qed simp

lemma find_dirname_end_sep:
  assumes "CHR ''/'' \<notin> set c" "c \<noteq> []" "off \<le> length a"
  shows "find_dirname_end (a @ CHR ''/'' # c) off = Some (length a)"
proof -
  obtain k where k: "length c = Suc k" using assms(2) by (cases c) auto
  have "(a @ CHR ''/'' # c) ! (Suc (length a + k)) = c ! k" by (simp add: nth_append)
  moreover have "c ! k \<in> set c" using k by simp
  ultimately have "(a @ CHR ''/'' # c) ! (Suc (length a + k)) \<noteq> CHR ''/''" using assms by metis
  then show ?thesis using dirname_scan_back [of c k off a] assms k by (simp add: find_dirname_end_def)
qed

lemma basename_text:
  assumes "list_all pcomp (cs @ [c])"
  shows "basename (path_text True (cs @ [c])) None = c"
proof -
  let ?p = "path_text True (cs @ [c])"
  have c: "CHR ''/'' \<notin> set c" "c \<noteq> []" using assms by (simp_all add: pcomp_def)
  have "?p = (if cs = [] then [] else CHR ''/'' # join_sep cs) @ CHR ''/'' # c" by (simp add: path_text_def join_sep_snoc)
  then obtain a where p: "?p = a @ CHR ''/'' # c" by blast
  have "strip_last_sep ?p = ?p" using ends_with_sep_text [OF assms] by (simp add: strip_last_sep_def)
  moreover have "find_last_sep ?p = Some (length a)"
    using rfind_char_at [OF c(1), of a] by (simp add: p find_last_sep_def MAIN_SEPARATOR_def)
  ultimately have "name_extname ?p = name_extname c"
    using c no_sep_end [OF c(1)] by (simp add: name_extname_def strip_last_sep_def p find_last_sep_def MAIN_SEPARATOR_def rfind_char_None [THEN iffD2])
  then show ?thesis using c name_extname_file [OF c(1)] by (cases a) (simp_all add: basename_def p)
qed

lemma dirname_text:
  assumes "list_all pcomp (cs @ [c])"
  shows "dirname (path_text True (cs @ [c])) = path_text True cs"
proof -
  have c: "CHR ''/'' \<notin> set c" "c \<noteq> []" using assms by (simp_all add: pcomp_def)
  show ?thesis
  proof (cases cs rule: rev_cases)
    case Nil
    have "dirname_scan (CHR ''/'' # c) 1 (Suc k) m = None" if "k \<le> length c" for k m using that c(1)
      by (induction k arbitrary: m) (auto simp: nth_Cons' in_set_conv_nth)
    from this [of "length c" True] c(2) Nil show ?thesis
      by (simp add: dirname_def path_text_def find_dirname_end_def Let_def)
  next
    case (snoc ds d)
    have t: "path_text True (cs @ [c]) = path_text True cs @ CHR ''/'' # c" using snoc by (simp add: path_text_def join_sep_snoc [of "ds @ [d]" c, simplified])
    have len: "2 \<le> length (path_text True cs)"
      using assms join_sep_Nil_iff [OF pcomp_rcomp, of cs] snoc by (cases "join_sep cs") (simp_all add: path_text_def)
    from find_dirname_end_sep [OF c, of 1 "path_text True cs"] len show ?thesis
      by (auto simp: t dirname_def Let_def)
  qed
qed

section \<open>Properties\<close>



text \<open>C14: \<open>path.resolve\<close> with an absolute first part returns an absolute canonical path that depends on the
  parts alone, not on the current directory: each absolute part starts again at the root, each other part
  is applied to the path so far, and \<open>..\<close> at the root stays at the root.\<close>

theorem resolve_canonical:
  assumes "is_absolute p"
  shows "resolve_path (Ok cwd) (p # ps) = Ok (path_text True (rev (fold resolve_step (p # ps) [])))
    \<and> list_all pcomp (fold resolve_step (p # ps) [])"
proof -
  have "list_all pcomp (fold resolve_step qs acc)" if "list_all pcomp acc" for qs acc
    using that by (induction qs arbitrary: acc) (simp_all add: resolve_step_pcomp)
  from this [of "[]" "p # ps"] resolve_absolute [OF assms] show ?thesis
    by (simp add: resolve_path_def resolve_path_with_separator_def)
qed

theorem resolve_canonical_witness:
  "resolve_path (Ok ''/tmp'' :: (unit, string) res) [''/a/b'', ''../c'', ''/d'', ''..'', ''../e''] = Ok ''/e''"
proof -
  have "path_text True (rev (fold resolve_step [''/a/b'', ''../c'', ''/d'', ''..'', ''../e''] [])) = ''/e''" by code_simp
  then show ?thesis
    using resolve_canonical [where 'a = unit, of "''/a/b''" "''/tmp''" "[''../c'', ''/d'', ''..'', ''../e'']"]
    by (simp add: is_absolute_def MAIN_SEPARATOR_def)
qed

text \<open>C15: \<open>path.relative\<close> is undone by \<open>path.resolve\<close>: between canonical absolute paths it never fails, and
  resolving its answer from the start gives the target.\<close>

theorem relative_resolve:
  assumes "list_all pcomp src" "list_all pcomp dst"
  shows "\<exists>r. relative cwd (path_text True src) (path_text True dst) = Ok r
    \<and> resolve_path (Ok here) [path_text True src, r] = Ok (path_text True dst)"
proof (cases "src = dst")
  case True
  have "relative cwd (path_text True src) (path_text True dst) = Ok []" using True by (simp add: relative_def)
  moreover have "resolve_step [] acc = acc" for acc by (simp add: resolve_step_def is_absolute_def)
  ultimately show ?thesis
    using resolve_absolute [OF is_absolute_path_text, of dst "[[]]"] True assms
    by (simp add: resolve_path_def resolve_path_with_separator_def resolve_step_def [of "path_text True dst"]
        segs_path_text fold_push_plain)
next
  case False
  from relative_text [OF assms this, of cwd] obtain c fs ts where c: "src = c @ fs" "dst = c @ ts"
    and r: "relative cwd (path_text True src) (path_text True dst) = Ok (join_sep (replicate (length fs) ''..'' @ ts))" by blast
  let ?r = "join_sep (replicate (length fs) ''..'' @ ts)"
  have rc: "list_all rcomp (replicate (length fs) ''..'' @ ts)" and ts: "list_all pcomp ts"
    using assms c pcomp_rcomp [of ts] by (auto simp: list_all_iff rcomp_def)
  have "\<not> is_absolute ?r"
  proof (cases "replicate (length fs) ''..'' @ ts")
    case (Cons x xs)
    with rc show ?thesis
      by (cases x) (auto simp: is_absolute_def MAIN_SEPARATOR_def join_sep_Cons rcomp_def)
  qed (simp add: is_absolute_def)
  moreover have "fold push_seg (replicate (length fs) ''..'' @ ts) (rev src) = rev dst"
    unfolding fold_append o_apply fold_push_up fold_push_plain [OF ts] by (simp add: c)
  ultimately have "resolve_step ?r (rev src) = rev dst"
    using segs_join_rcomp [OF rc] by (simp add: resolve_step_def del: fold_append)
  moreover have "resolve_step (path_text True src) [] = rev src"
    using assms by (simp add: resolve_step_def segs_path_text fold_push_plain)
  ultimately have "resolve_path (Ok here) [path_text True src, ?r] = Ok (path_text True dst)"
    using resolve_absolute [OF is_absolute_path_text, of src "[?r]"]
    by (simp add: resolve_path_def resolve_path_with_separator_def)
  with r show ?thesis by blast
qed

theorem relative_resolve_witness:
  "\<exists>r. relative (Err ()) (path_text True [''data'', ''test'', ''aaa'']) (path_text True [''data'', ''impl'']) = Ok r
    \<and> resolve_path (Ok ''/'') [path_text True [''data'', ''test'', ''aaa''], r] = Ok (path_text True [''data'', ''impl''])"
  by (rule relative_resolve) (simp_all add: pcomp_def)

text \<open>\<open>path.format\<close> undoes \<open>path.parse\<close> on canonical paths, absolute or relative, and \<open>dirname\<close> and
  \<open>basename\<close> split an absolute one at its last component.\<close>

theorem format_parse:
  assumes "list_all pcomp (cs @ [c])"
  shows "format (parse (path_text root (cs @ [c]))) = path_text root (cs @ [c])
    \<and> dirname (path_text True (cs @ [c])) = path_text True cs
    \<and> basename (path_text True (cs @ [c])) None = c"
  using format_parse_text [OF assms] dirname_text [OF assms] basename_text [OF assms] by simp

theorem format_parse_witness:
  "format (parse ''usr/lib.so'') = ''usr/lib.so'' \<and> dirname ''/usr/lib.so'' = ''/usr'' \<and> basename ''/usr/lib.so'' None = ''lib.so''"
  using format_parse [of "[''usr'']" "''lib.so''" False] by (simp add: pcomp_def path_text_def)

section \<open>Departures from Node\<close>

text \<open>Climbing from the current directory to the root loses the leading slash.\<close>

lemma resolve_above_root: "resolve_path (Ok ''/x/y'' :: (unit, string) res) [''../../a''] = Ok ''a''"
  by code_simp

text \<open>A later part with a leading slash leaves an empty component in a relative join.\<close>

lemma join_late_slash: "join_path [''a'', ''/b''] = ''a//b''"
  by code_simp

text \<open>Leading \<open>..\<close> components of a relative path are dropped.\<close>

lemma normalize_drops_parent: "normalize ''../a'' = ''a''"
  by code_simp

text \<open>A suffix is removed wherever it last occurs, with everything behind it.\<close>

lemma basename_suffix_inside: "basename ''/a.txt.gz'' (Some ''.txt'') = ''a''"
  by code_simp

text \<open>A dot file has no extension even if it has a second dot.\<close>

lemma extname_dot_file: "extname ''.a.txt'' = []"
  by code_simp

end
