(* ===== verification/Numbers.thy ===== *)
theory Numbers
  imports Raster_Prelude
begin

text \<open>
  \<open>Number.prototype.toString\<close> for integers, \<open>raster_runtime_numbers/src/lib.rs\<close>. An \<open>i64\<close> is an integer, with
  the wrap-around of a negation written out; a digit buffer is a list that is filled from its end, and
  \<open>None\<close> is a panic (an index below zero, a division by zero). An \<open>f64\<close> is its bit pattern. The decimal
  formatter \<open>itoa\<close> is a parameter. Fractions and \<open>fractional_to_base\<close> are not modelled.
\<close>

unbundle bit_operations_syntax

definition DIGITS :: string where
  "DIGITS = ''0123456789abcdefghijklmnopqrstuvwxyz''"

definition BUF_SIZE :: nat where "BUF_SIZE = 80"

definition BIN_MAX_DIGITS :: nat where "BIN_MAX_DIGITS = 64"

definition OCT_MAX_DIGITS :: nat where "OCT_MAX_DIGITS = 21"

definition wrap_i64 :: "int \<Rightarrow> int" where
  "wrap_i64 x = (x + 2 ^ 63) mod 2 ^ 64 - 2 ^ 63"

text \<open>\<open>while n > 0 { index -= 1; buf[index] = digit; n /= base }\<close>; the loop ends at the latest when the
  index cannot be decremented.\<close>

primrec base_loop :: "(int \<Rightarrow> char option) \<Rightarrow> int \<Rightarrow> nat \<Rightarrow> string \<Rightarrow> int \<Rightarrow> (string \<times> nat) option" where
  "base_loop dig base 0 buf n = (if 0 < n then None else Some (buf, 0))"
| "base_loop dig base (Suc i) buf n =
     (if 0 < n then
        (if base = 0 then None
         else do { c \<leftarrow> dig (n mod base); buf \<leftarrow> vec_set buf i c; base_loop dig base i buf (n div base) })
      else Some (buf, Suc i))"

definition ascii_digit :: "int \<Rightarrow> char option" where
  "ascii_digit d = Some (char_of (nat d mod 256 + 48))"

definition table_digit :: "int \<Rightarrow> char option" where
  "table_digit d = vec_get DIGITS (nat d)"

definition to_base_less_than_10 :: "string \<Rightarrow> int \<Rightarrow> int \<Rightarrow> string option" where
  "to_base_less_than_10 buf num base =
     (if num = 0 then Some ''0''
      else let n = (if num < 0 then wrap_i64 (- num) else num); sign = (if num < 0 then ''-'' else []) in
        map_option (\<lambda>(buf, index). sign @ drop index buf) (base_loop ascii_digit base (length buf) buf n))"

definition internal_i64_to_base_n :: "string \<Rightarrow> int \<Rightarrow> nat \<Rightarrow> (string \<times> nat) option" where
  "internal_i64_to_base_n buf number radix =
     (if number = 0 then do { c \<leftarrow> vec_get DIGITS 0; buf \<leftarrow> vec_set buf (BUF_SIZE - 1) c; Some (buf, BUF_SIZE - 1) }
      else base_loop table_digit (int radix) BUF_SIZE buf number)"

definition i64_to_base_n :: "(int \<Rightarrow> string) \<Rightarrow> int \<Rightarrow> nat \<Rightarrow> string option" where
  "i64_to_base_n itoa number radix =
     (if radix = 10 then Some (itoa number)
      else if radix = 2 then to_base_less_than_10 (replicate BIN_MAX_DIGITS CHR 0x00) number 2
      else if radix = 8 then to_base_less_than_10 (replicate OCT_MAX_DIGITS CHR 0x00) number 8
      else let abs_number = (if number < 0 then wrap_i64 (- number) else number);
               sign = (if number < 0 then ''-'' else []) in
        map_option (\<lambda>(buf, index). sign @ drop index buf)
          (internal_i64_to_base_n (replicate BUF_SIZE CHR 0x00) abs_number radix))"

definition check_radix :: "nat \<Rightarrow> (string, unit) res" where
  "check_radix radix = (if 2 \<le> radix \<and> radix \<le> 36 then Ok () else Err ''radix must be between 2 and 36'')"

text \<open>\<open>toString\<close> on an integer: an argument that is no integer or does not fit a byte counts as ten.\<close>

definition radix_arg :: "int option \<Rightarrow> nat" where
  "radix_arg v = (case v of Some r \<Rightarrow> if 0 \<le> r \<and> r < 256 then nat r else 10 | None \<Rightarrow> 10)"

definition int_to_string :: "(int \<Rightarrow> string) \<Rightarrow> int \<Rightarrow> int option \<Rightarrow> (string, string) res" where
  "int_to_string itoa this radix = rbind (check_radix (radix_arg radix))
     (\<lambda>_. or_panic (i64_to_base_n itoa this (radix_arg radix)))"

section \<open>Bit patterns of doubles\<close>

definition get_nonfinite :: "64 word \<Rightarrow> string" where
  "get_nonfinite bits =
     (if bits AND 0x000fffffffffffff \<noteq> 0 then ''NaN''
      else if bits AND 0x8000000000000000 \<noteq> 0 then ''-Infinity'' else ''Infinity'')"

definition is_nan :: "64 word \<Rightarrow> bool" where
  "is_nan bits \<longleftrightarrow> bits AND 0x7ff0000000000000 = 0x7ff0000000000000 \<and> bits AND 0x000fffffffffffff \<noteq> 0"

definition next_up :: "64 word \<Rightarrow> 64 word" where
  "next_up bits =
     (if is_nan bits \<or> bits = 0x7ff0000000000000 then bits
      else let a = bits AND 0x7fffffffffffffff in
        if a = 0 then 1 else if bits = a then bits + 1 else bits - 1)"

section \<open>Digits\<close>

function digits :: "int \<Rightarrow> int \<Rightarrow> int list" where
  "digits base n = (if n \<le> 0 \<or> base \<le> 1 then [] else digits base (n div base) @ [n mod base])"
  by pat_completeness auto
termination
  by (relation "measure (\<lambda>(base, n). nat n)") (auto simp: int_div_less_self)

declare digits.simps [simp del]

definition digits_value :: "int \<Rightarrow> int list \<Rightarrow> int" where
  "digits_value base ds = foldl (\<lambda>v d. v * base + d) 0 ds"

lemma digits_range:
  assumes "2 \<le> base" "d \<in> set (digits base n)"
  shows "0 \<le> d \<and> d < base"
  using assms
proof (induction base n rule: digits.induct)
  case (1 base n)
  then show ?case by (cases "n \<le> 0") (auto simp: digits.simps [of base n])
qed

lemma digits_value: "2 \<le> base \<Longrightarrow> 0 \<le> n \<Longrightarrow> digits_value base (digits base n) = n"
proof (induction base n rule: digits.induct)
  case (1 base n)
  show ?case
  proof (cases "n = 0")
    case False
    with 1 have "digits_value base (digits base (n div base)) = n div base" by (simp add: pos_imp_zdiv_nonneg_iff)
    with False 1 show ?thesis by (simp add: digits.simps [of base n] digits_value_def)
  qed (simp add: digits.simps digits_value_def)
qed

text \<open>A buffer of \<open>index\<close> places is enough for a number below \<open>base ^ index\<close>.\<close>

lemma base_loop_digits:
  assumes "2 \<le> base" "0 \<le> n" "n < base ^ index" "index \<le> length buf" "\<And>d. 0 \<le> d \<Longrightarrow> d < base \<Longrightarrow> dig d = Some (ch d)"
  shows "\<exists>buf' i. base_loop dig base index buf n = Some (buf', i) \<and> length buf' = length buf
    \<and> drop i buf' = map ch (digits base n) @ drop index buf"
  using assms(2-4)
proof (induction index arbitrary: buf n)
  case 0
  then show ?case by (simp add: digits.simps)
next
  case (Suc k)
  show ?case
  proof (cases "n = 0")
    case False
    let ?buf = "buf[k := ch (n mod base)]"
    have "base * (n div base) = n - n mod base" "0 \<le> n mod base" using assms(1) by (simp_all add: minus_mod_eq_mult_div)
    moreover have "n < base * base ^ k" using Suc.prems(2) by simp
    ultimately have "base * (n div base) < base * base ^ k" by linarith
    then have "n div base < base ^ k" using assms(1) by simp
    moreover have "0 \<le> n div base" using Suc.prems assms(1) by (simp add: pos_imp_zdiv_nonneg_iff)
    ultimately obtain buf' i where l: "base_loop dig base k ?buf (n div base) = Some (buf', i)" "length buf' = length buf"
      "drop i buf' = map ch (digits base (n div base)) @ drop k ?buf"
      using Suc.IH [of "n div base" ?buf] Suc.prems by auto
    moreover have "dig (n mod base) = Some (ch (n mod base))" using assms(1,5) by simp
    moreover have "drop k ?buf = ch (n mod base) # drop (Suc k) buf" using Suc.prems(3) by (simp add: drop_update_cancel Cons_nth_drop_Suc [symmetric])
    ultimately show ?thesis using False Suc.prems assms(1) by (simp add: digits.simps [of base n])
  qed (use Suc in \<open>simp add: digits.simps\<close>)
qed

section \<open>Properties\<close>

definition is_i64 :: "int \<Rightarrow> bool" where
  "is_i64 n \<longleftrightarrow> - (2 ^ 63) \<le> n \<and> n < 2 ^ 63"

lemma wrap_neg: "is_i64 n \<Longrightarrow> n < 0 \<Longrightarrow> wrap_i64 (- n) = (if n = - (2 ^ 63) then n else - n)"
  by (auto simp: is_i64_def wrap_i64_def)

definition magnitude :: "int \<Rightarrow> int" where
  "magnitude n = (if n < 0 then wrap_i64 (- n) else n)"

lemma magnitude_less: "is_i64 n \<Longrightarrow> magnitude n < 2 ^ 63"
  using wrap_neg [of n] by (auto simp: magnitude_def is_i64_def)

definition radix_char :: "int \<Rightarrow> char" where
  "radix_char d = DIGITS ! nat d"

lemma table_digit_char: "0 \<le> d \<Longrightarrow> d < 36 \<Longrightarrow> table_digit d = Some (radix_char d)"
  by (simp add: table_digit_def radix_char_def vec_get_def DIGITS_def)

lemma ascii_digit_char:
  assumes "0 \<le> d" "d < 8"
  shows "ascii_digit d = Some (radix_char d)"
proof -
  from assms have "d \<in> {0, 1, 2, 3, 4, 5, 6, 7}" by auto
  then show ?thesis by (auto simp: ascii_digit_def radix_char_def DIGITS_def char_of_def bit_0)
qed

lemma base_loop_room:
  assumes "2 \<le> base" "n < 2 ^ 63" "2 ^ 63 \<le> base ^ length buf" "\<And>d. 0 \<le> d \<Longrightarrow> d < base \<Longrightarrow> dig d = Some (ch d)"
  shows "\<exists>buf' i. base_loop dig base (length buf) buf n = Some (buf', i) \<and> drop i buf' = map ch (digits base n)"
proof (cases "0 \<le> n")
  case True
  then show ?thesis using base_loop_digits [OF assms(1) True, of "length buf" buf dig ch] assms(2-4) by fastforce
next
  case False
  then show ?thesis by (cases "length buf") (auto simp: digits.simps)
qed

text \<open>The text \<open>i64_to_base_n\<close> returns, with the magnitude of the most negative number left as it is.\<close>

definition radix_text :: "int \<Rightarrow> int \<Rightarrow> string" where
  "radix_text n base = (if n = 0 then ''0'' else (if n < 0 then ''-'' else []) @ map radix_char (digits base (magnitude n)))"

lemma i64_to_base_n_text:
  assumes "is_i64 n" "2 \<le> radix" "radix \<le> 36" "radix \<noteq> 10"
  shows "i64_to_base_n itoa n radix = Some (radix_text n (int radix))"
proof -
  have less: "to_base_less_than_10 buf n base = Some (radix_text n base)"
    if b: "2 \<le> base" "base \<le> 8" "2 ^ 63 \<le> base ^ length buf" for buf base
  proof -
    have "\<exists>buf' i. base_loop ascii_digit base (length buf) buf (magnitude n) = Some (buf', i)
        \<and> drop i buf' = map radix_char (digits base (magnitude n))"
      by (rule base_loop_room) (use b magnitude_less [OF assms(1)] ascii_digit_char in auto)
    then show ?thesis by (auto simp: to_base_less_than_10_def radix_text_def Let_def magnitude_def)
  qed
  have "(2::int) ^ 80 \<le> int radix ^ 80" using assms(2) by (intro power_mono) auto
  then have room: "(2::int) ^ 63 \<le> int radix ^ length (replicate BUF_SIZE CHR 0x00)" by (simp add: BUF_SIZE_def)
  have "\<exists>buf' i. base_loop table_digit (int radix) (length (replicate BUF_SIZE CHR 0x00)) (replicate BUF_SIZE CHR 0x00) (magnitude n) = Some (buf', i)
      \<and> drop i buf' = map radix_char (digits (int radix) (magnitude n))"
    by (rule base_loop_room [OF _ _ room]) (use assms magnitude_less [OF assms(1)] table_digit_char in auto)
  moreover have "drop (BUF_SIZE - 1) ((replicate BUF_SIZE CHR 0x00)[BUF_SIZE - 1 := CHR ''0'']) = ''0''"
    by (simp add: BUF_SIZE_def upd_conv_take_nth_drop)
  moreover have "magnitude n = 0 \<longleftrightarrow> n = 0"
    using assms(1) wrap_neg [of n] by (auto simp: magnitude_def is_i64_def)
  ultimately have "radix \<noteq> 2 \<Longrightarrow> radix \<noteq> 8 \<Longrightarrow> ?thesis"
    using assms by (auto simp: i64_to_base_n_def internal_i64_to_base_n_def Let_def radix_text_def
        magnitude_def [symmetric] BUF_SIZE_def vec_get_def DIGITS_def)
  then show ?thesis using less [of 2 "replicate BIN_MAX_DIGITS CHR 0x00"] less [of 8 "replicate OCT_MAX_DIGITS CHR 0x00"] assms(4)
    by (auto simp: i64_to_base_n_def BIN_MAX_DIGITS_def OCT_MAX_DIGITS_def)
qed

text \<open>Reading an integer in a radix back, sign first.\<close>

definition char_value :: "char \<Rightarrow> int option" where
  "char_value c = (if c \<in> set DIGITS then Some (int (length (takeWhile (\<lambda>x. x \<noteq> c) DIGITS))) else None)"

primrec read_digits :: "int \<Rightarrow> string \<Rightarrow> int \<Rightarrow> int option" where
  "read_digits base [] v = Some v"
| "read_digits base (c # cs) v = (case char_value c of None \<Rightarrow> None
     | Some d \<Rightarrow> if d < base then read_digits base cs (v * base + d) else None)"

definition read_radix :: "int \<Rightarrow> string \<Rightarrow> int option" where
  "read_radix base s = (if s \<noteq> [] \<and> hd s = CHR ''-'' then (if tl s = [] then None else map_option uminus (read_digits base (tl s) 0))
     else if s = [] then None else read_digits base s 0)"

lemma takeWhile_nth: "distinct xs \<Longrightarrow> i < length xs \<Longrightarrow> length (takeWhile (\<lambda>x. x \<noteq> xs ! i) xs) = i"
proof (induction xs arbitrary: i)
  case (Cons x xs)
  then show ?case by (cases i) (auto simp: nth_mem)
qed simp

lemma char_value_radix_char:
  assumes "0 \<le> d" "d < 36"
  shows "char_value (radix_char d) = Some d"
proof -
  have "distinct DIGITS" "nat d < length DIGITS" using assms by (simp_all add: DIGITS_def)
  from takeWhile_nth [OF this] nth_mem [OF this(2)] assms show ?thesis by (simp add: char_value_def radix_char_def)
qed

lemma read_digits_text:
  assumes "list_all (\<lambda>d. 0 \<le> d \<and> d < base) ds" "base \<le> 36"
  shows "read_digits base (map radix_char ds) v = Some (foldl (\<lambda>v d. v * base + d) v ds)"
  using assms by (induction ds arbitrary: v) (simp_all add: char_value_radix_char)

lemma radix_char_not_minus: "0 \<le> d \<Longrightarrow> d < 36 \<Longrightarrow> radix_char d \<noteq> CHR ''-''"
  using char_value_radix_char [of d] by (auto simp: char_value_def DIGITS_def)

text \<open>C16: \<open>i64_to_base_n\<close> writes the digits of every integer but the most negative one: in each radix other
  than ten (which is left to the formatter) the text reads back as the number.\<close>

theorem i64_to_base_n_roundtrip:
  assumes "is_i64 n" "n \<noteq> - (2 ^ 63)" "2 \<le> radix" "radix \<le> 36" "radix \<noteq> 10"
  shows "\<exists>s. i64_to_base_n itoa n radix = Some s \<and> read_radix (int radix) s = Some n"
proof -
  let ?b = "int radix" let ?m = "magnitude n"
  have m: "?m = \<bar>n\<bar>" using assms(2) wrap_neg [OF assms(1)] by (simp add: magnitude_def)
  have ds: "list_all (\<lambda>d. 0 \<le> d \<and> d < ?b) (digits ?b ?m)"
    using digits_range [of ?b _ ?m] assms(3) by (simp add: list_all_iff)
  have "read_digits ?b (map radix_char (digits ?b ?m)) 0 = Some ?m"
    using read_digits_text [OF ds] digits_value [of ?b ?m] assms m by (simp add: digits_value_def)
  moreover have "digits ?b ?m \<noteq> []" if "n \<noteq> 0" using that assms(3) m by (simp add: digits.simps [of ?b "\<bar>n\<bar>"])
  moreover have "hd (map radix_char (digits ?b ?m)) \<noteq> CHR ''-''" if "n \<noteq> 0"
    using calculation(2) [OF that] ds radix_char_not_minus [of "hd (digits ?b ?m)"] assms(4) by (cases "digits ?b ?m") auto
  ultimately have "read_radix ?b (radix_text n ?b) = Some n"
    using m char_value_radix_char [of 0] assms(3) by (auto simp: read_radix_def radix_text_def radix_char_def DIGITS_def)
  then show ?thesis using i64_to_base_n_text [OF assms(1,3-5)] by blast
qed

theorem i64_to_base_n_roundtrip_witness:
  "\<exists>s. i64_to_base_n (\<lambda>_. []) (-123456789) 36 = Some s \<and> read_radix (int 36) s = Some (-123456789)"
  by (rule i64_to_base_n_roundtrip) (simp_all add: is_i64_def)

text \<open>C17: \<open>toString\<close> on an integer never writes outside its digit buffers: with any radix argument the
  answer is a text or the error about the radix, which comes exactly when the argument is a byte
  outside 2 to 36.\<close>

theorem int_to_string_bounds:
  assumes "is_i64 n"
  shows "(\<exists>s. int_to_string itoa n r = Ok s) \<and> 2 \<le> radix_arg r \<and> radix_arg r \<le> 36
    \<or> int_to_string itoa n r = Err ''radix must be between 2 and 36'' \<and> (radix_arg r < 2 \<or> 36 < radix_arg r)"
proof -
  have "\<exists>s. i64_to_base_n itoa n k = Some s" if "2 \<le> k" "k \<le> 36" for k
    using i64_to_base_n_text [OF assms that] by (cases "k = 10") (simp_all add: i64_to_base_n_def)
  from this [of "radix_arg r"] show ?thesis by (auto simp: int_to_string_def check_radix_def)
qed

theorem int_to_string_bounds_witness:
  "(\<exists>s. int_to_string (\<lambda>_. []) (- (2 ^ 63)) (Some 8) = Ok s)"
  using int_to_string_bounds [of "- (2 ^ 63)" "\<lambda>_. []" "Some 8"] by (simp add: is_i64_def radix_arg_def)

text \<open>The most negative integer loses its digits.\<close>

lemma min_loses_digits: "i64_to_base_n itoa (- (2 ^ 63)) 2 = Some ''-''"
proof -
  have "magnitude (- (2 ^ 63)) = - (2 ^ 63)" using wrap_neg [of "- (2 ^ 63)"] by (simp add: magnitude_def is_i64_def)
  then show ?thesis using i64_to_base_n_text [of "- (2 ^ 63)" 2 itoa] by (simp add: radix_text_def is_i64_def digits.simps)
qed

section \<open>The next double\<close>

text \<open>The place of a bit pattern in the order of the doubles: both zeros are at place zero.\<close>

definition place :: "64 word \<Rightarrow> int" where
  "place b = (if uint b < 2 ^ 63 then uint b else 2 ^ 63 - uint b)"

lemma clear_sign: "(b :: 64 word) AND 0x7fffffffffffffff = take_bit 63 b"
proof -
  have "(0x7fffffffffffffff :: 64 word) = mask 63" by (simp add: mask_eq_exp_minus_1)
  then show ?thesis by (simp add: take_bit_eq_mask)
qed

text \<open>\<open>next_up\<close> goes to the next double: one place up, for every pattern that is neither a NaN nor
  positive infinity, from negative infinity through both zeros.\<close>

theorem next_up_successor:
  assumes "\<not> is_nan b" "b \<noteq> 0x7ff0000000000000"
  shows "place (next_up b) = place b + 1"
proof -
  have u: "uint (take_bit 63 b) = uint b mod 2 ^ 63" unfolding unsigned_take_bit_eq by (rule take_bit_eq_mod)
  have l: "0 \<le> uint b" "uint b < 2 ^ 64" using unsigned_less [of b] by simp_all
  have z: "take_bit 63 b = 0 \<longleftrightarrow> uint b mod 2 ^ 63 = 0" using u by (metis uint_0_iff)
  have s: "b = take_bit 63 b \<longleftrightarrow> uint b < 2 ^ 63"
    using u l by (metis mod_pos_pos_trivial pos_mod_bound word_uint_eq_iff zero_less_numeral zero_less_power)
  have n: "next_up b = (if uint b mod 2 ^ 63 = 0 then 1 else if uint b < 2 ^ 63 then b + 1 else b - 1)"
    using assms s z by (simp add: next_up_def clear_sign Let_def)
  show ?thesis
  proof (cases "uint b < 2 ^ 63")
    case True
    have "b \<noteq> 0x7fffffffffffffff" using assms(1) by (auto simp: is_nan_def)
    then have "uint b \<noteq> 0x7fffffffffffffff" by (simp add: word_uint_eq_iff)
    with True l have "uint (b + 1) = uint b + 1" "uint b + 1 < 2 ^ 63" by (simp_all add: uint_word_ariths)
    then show ?thesis using True n l by (auto simp: place_def)
  next
    case False
    have "(c + 2 ^ 63) mod 2 ^ 63 = c" if "0 \<le> c" "c < 2 ^ 63" for c :: int using that by simp
    from this [of "uint b - 2 ^ 63"] False l have m: "uint b mod 2 ^ 63 = uint b - 2 ^ 63" by simp
    have "uint (b - 1) = uint b - 1" using False l by (simp add: uint_word_ariths)
    then show ?thesis using False n m by (auto simp: place_def)
  qed
qed

theorem next_up_successor_witness: "place (next_up 0x8000000000000000) = 1"
  using next_up_successor [of "0x8000000000000000"] by (simp add: is_nan_def place_def)

end
