(* ===== verification/Writable_Stream.thy ===== *)
theory Writable_Stream
  imports Raster_Prelude Complex_Main
begin

text \<open>
  \<open>WritableStream\<close> of the web streams, \<open>raster_runtime_stream_web/src/writable\<close>: the stream, its default
  controller with the queue of chunks (\<open>utils/queue.rs\<close>), and its writers. The whole system is one state;
  \<open>None\<close> is a panic (an \<open>expect\<close> or \<open>panic!\<close> of the source).

  Promises are entries of a table and settle once. The algorithms of the underlying sink are user code:
  a call makes a promise whose settlement is a later step (\<open>jobs\<close> holds the reactions that wait), and is
  taken not to call back into the stream before it returns. Sizes are rational numbers, infinity or no
  number; the rounding of \<open>f64\<close> is not modelled. Three fields are history: the chunks the sink was given,
  the chunks that were accepted into the queue, and the promises that \<open>write\<close> and \<open>close\<close> handed out.
\<close>

datatype reason = R_Value nat | R_Undefined | R_Type_Error string | R_Range_Error

datatype promise = Pending | Fulfilled | Rejected reason

datatype f64 = Fin rat | Infinite | Not_A_Number

datatype chunk = Close_Sentinel | Chunk nat

datatype wstate = Writable | Closed | Erroring reason | Errored reason

datatype job = J_Start | J_Write | J_Close "nat option" | J_Abort nat

record writer =
  ready_promise :: nat
  closed_promise :: nat
  attached :: bool

record wsys =
  promises :: "promise list"
  writers :: "writer list"
  backpressure :: bool
  close_request :: "nat option"
  in_flight_write_request :: "nat option"
  in_flight_close_request :: "nat option"
  pending_abort_request :: "(nat \<times> reason \<times> bool) option"
  state :: wstate
  the_writer :: "nat option"
  write_requests :: "nat list"
  queue :: "(chunk \<times> rat) list"
  queue_total_size :: rat
  started :: bool
  strategy_hwm :: f64
  algorithms :: bool
  jobs :: "job list"
  sink_log :: "chunk list"
  accepted :: "chunk list"
  requests :: "nat list"

section \<open>Promises\<close>

definition new_promise :: "promise \<Rightarrow> wsys \<Rightarrow> nat \<times> wsys" where
  "new_promise p s = (length (promises s), s\<lparr>promises := promises s @ [p]\<rparr>)"

definition settle :: "promise \<Rightarrow> nat \<Rightarrow> wsys \<Rightarrow> wsys" where
  "settle v p s = (if p < length (promises s) \<and> promises s ! p = Pending
     then s\<lparr>promises := (promises s)[p := v]\<rparr> else s)"

definition resolve_undefined :: "nat \<Rightarrow> wsys \<Rightarrow> wsys" where
  "resolve_undefined p s = settle Fulfilled p s"

definition reject :: "reason \<Rightarrow> nat \<Rightarrow> wsys \<Rightarrow> wsys" where
  "reject r p s = settle (Rejected r) p s"

definition with_writer :: "nat option \<Rightarrow> (nat \<Rightarrow> wsys \<Rightarrow> wsys) \<Rightarrow> wsys \<Rightarrow> wsys" where
  "with_writer w f s = (case w of Some i \<Rightarrow> f i s | None \<Rightarrow> s)"

section \<open>The queue with sizes\<close>

definition is_non_negative_number :: "f64 \<Rightarrow> f64 option" where
  "is_non_negative_number v = (case v of Fin r \<Rightarrow> if r < 0 then None else Some v | Infinite \<Rightarrow> Some v | Not_A_Number \<Rightarrow> None)"

definition enqueue_value_with_size :: "chunk \<Rightarrow> f64 \<Rightarrow> wsys \<Rightarrow> (reason, wsys) res" where
  "enqueue_value_with_size v sz s =
     (case is_non_negative_number sz of
        None \<Rightarrow> Err R_Range_Error
      | Some (Fin r) \<Rightarrow> Ok (s\<lparr>queue := queue s @ [(v, r)], queue_total_size := queue_total_size s + r\<rparr>)
      | Some _ \<Rightarrow> Err R_Range_Error)"

definition dequeue_value :: "wsys \<Rightarrow> wsys option" where
  "dequeue_value s = (case queue s of [] \<Rightarrow> None
     | x # rest \<Rightarrow> let total = queue_total_size s - snd x
         in Some (s\<lparr>queue := rest, queue_total_size := (if total < 0 then 0 else total)\<rparr>))"

definition reset_queue :: "wsys \<Rightarrow> wsys" where
  "reset_queue s = s\<lparr>queue := [], queue_total_size := 0\<rparr>"

section \<open>The stream\<close>

definition is_writable_stream_locked :: "wsys \<Rightarrow> bool" where
  "is_writable_stream_locked s \<longleftrightarrow> the_writer s \<noteq> None"

definition stored_error :: "wsys \<Rightarrow> reason" where
  "stored_error s = (case state s of Erroring e \<Rightarrow> e | Errored e \<Rightarrow> e | _ \<Rightarrow> R_Undefined)"

definition writable_stream_has_operation_marked_in_flight :: "wsys \<Rightarrow> bool" where
  "writable_stream_has_operation_marked_in_flight s \<longleftrightarrow>
     \<not> (in_flight_write_request s = None \<and> in_flight_close_request s = None)"

definition writable_stream_close_queued_or_in_flight :: "wsys \<Rightarrow> bool" where
  "writable_stream_close_queued_or_in_flight s \<longleftrightarrow> \<not> (close_request s = None \<and> in_flight_close_request s = None)"

definition writable_stream_default_writer_ensure_ready_promise_rejected :: "reason \<Rightarrow> nat \<Rightarrow> wsys \<Rightarrow> wsys" where
  "writable_stream_default_writer_ensure_ready_promise_rejected e i s =
     (let p = ready_promise (writers s ! i) in
      if promises s ! p = Pending then reject e p s
      else let (q, s) = new_promise (Rejected e) s
        in s\<lparr>writers := (writers s)[i := (writers s ! i)\<lparr>ready_promise := q\<rparr>]\<rparr>)"

definition writable_stream_default_writer_ensure_closed_promise_rejected :: "reason \<Rightarrow> nat \<Rightarrow> wsys \<Rightarrow> wsys" where
  "writable_stream_default_writer_ensure_closed_promise_rejected e i s =
     (let p = closed_promise (writers s ! i) in
      if promises s ! p = Pending then reject e p s
      else let (q, s) = new_promise (Rejected e) s
        in s\<lparr>writers := (writers s)[i := (writers s ! i)\<lparr>closed_promise := q\<rparr>]\<rparr>)"

definition writable_stream_reject_close_and_closed_promise_if_needed :: "nat option \<Rightarrow> wsys \<Rightarrow> wsys" where
  "writable_stream_reject_close_and_closed_promise_if_needed w s =
     (let s = (case close_request s of Some p \<Rightarrow> (reject (stored_error s) p s)\<lparr>close_request := None\<rparr> | None \<Rightarrow> s)
      in with_writer w (\<lambda>i s. reject (stored_error s) (closed_promise (writers s ! i)) s) s)"

definition abort_steps :: "nat \<Rightarrow> wsys \<Rightarrow> wsys option" where
  "abort_steps p s = (if algorithms s then Some (s\<lparr>algorithms := False, jobs := jobs s @ [J_Abort p]\<rparr>) else None)"

definition writable_stream_finish_erroring :: "nat option \<Rightarrow> reason \<Rightarrow> wsys \<Rightarrow> wsys option" where
  "writable_stream_finish_erroring w e s =
     (let s = reset_queue (s\<lparr>state := Errored e\<rparr>);
          s = fold (reject e) (write_requests s) s;
          s = s\<lparr>write_requests := []\<rparr>
      in case pending_abort_request s of
           None \<Rightarrow> Some (writable_stream_reject_close_and_closed_promise_if_needed w s)
         | Some (p, reason, was_already_erroring) \<Rightarrow>
             let s = s\<lparr>pending_abort_request := None\<rparr> in
             if was_already_erroring
             then Some (writable_stream_reject_close_and_closed_promise_if_needed w (reject e p s))
             else abort_steps p s)"

definition writable_stream_start_erroring :: "nat option \<Rightarrow> reason \<Rightarrow> wsys \<Rightarrow> wsys option" where
  "writable_stream_start_erroring w e s =
     (let s = with_writer w (writable_stream_default_writer_ensure_ready_promise_rejected e) (s\<lparr>state := Erroring e\<rparr>)
      in if \<not> writable_stream_has_operation_marked_in_flight s \<and> started s
         then writable_stream_finish_erroring w e s else Some s)"

definition writable_stream_deal_with_rejection :: "nat option \<Rightarrow> reason \<Rightarrow> wsys \<Rightarrow> wsys option" where
  "writable_stream_deal_with_rejection w e s =
     (case state s of
        Writable \<Rightarrow> writable_stream_start_erroring w e s
      | Erroring stored \<Rightarrow> writable_stream_finish_erroring w stored s
      | _ \<Rightarrow> None)"

definition writable_stream_update_backpressure :: "nat option \<Rightarrow> bool \<Rightarrow> wsys \<Rightarrow> wsys" where
  "writable_stream_update_backpressure w bp s =
     (with_writer w (\<lambda>i s.
        if bp \<noteq> backpressure s then
          (if bp then let (q, s) = new_promise Pending s
             in s\<lparr>writers := (writers s)[i := (writers s ! i)\<lparr>ready_promise := q\<rparr>]\<rparr>
           else resolve_undefined (ready_promise (writers s ! i)) s)
        else s) s)\<lparr>backpressure := bp\<rparr>"

definition writable_stream_mark_first_write_request_in_flight :: "wsys \<Rightarrow> wsys option" where
  "writable_stream_mark_first_write_request_in_flight s = (case write_requests s of [] \<Rightarrow> None
     | p # rest \<Rightarrow> Some (s\<lparr>write_requests := rest, in_flight_write_request := Some p\<rparr>))"

definition writable_stream_mark_close_request_in_flight :: "wsys \<Rightarrow> wsys option" where
  "writable_stream_mark_close_request_in_flight s = (case close_request s of None \<Rightarrow> None
     | Some p \<Rightarrow> Some (s\<lparr>close_request := None, in_flight_close_request := Some p\<rparr>))"

definition writable_stream_add_write_request :: "wsys \<Rightarrow> nat \<times> wsys" where
  "writable_stream_add_write_request s =
     (let (p, s) = new_promise Pending s in (p, s\<lparr>write_requests := write_requests s @ [p], requests := requests s @ [p]\<rparr>))"

definition writable_stream_finish_in_flight_write :: "wsys \<Rightarrow> wsys option" where
  "writable_stream_finish_in_flight_write s = (case in_flight_write_request s of None \<Rightarrow> None
     | Some p \<Rightarrow> Some (resolve_undefined p (s\<lparr>in_flight_write_request := None\<rparr>)))"

definition writable_stream_finish_in_flight_write_with_error :: "nat option \<Rightarrow> reason \<Rightarrow> wsys \<Rightarrow> wsys option" where
  "writable_stream_finish_in_flight_write_with_error w e s = (case in_flight_write_request s of None \<Rightarrow> None
     | Some p \<Rightarrow> writable_stream_deal_with_rejection w e (reject e p (s\<lparr>in_flight_write_request := None\<rparr>)))"

definition writable_stream_finish_in_flight_close :: "nat option \<Rightarrow> wsys \<Rightarrow> wsys option" where
  "writable_stream_finish_in_flight_close w s = (case in_flight_close_request s of None \<Rightarrow> None
     | Some p \<Rightarrow>
         let s = resolve_undefined p (s\<lparr>in_flight_close_request := None\<rparr>);
             s = (case (state s, pending_abort_request s) of
                    (Erroring _, Some (q, _, _)) \<Rightarrow> resolve_undefined q (s\<lparr>pending_abort_request := None\<rparr>)
                  | _ \<Rightarrow> s);
             s = s\<lparr>state := Closed\<rparr>
         in Some (with_writer w (\<lambda>i s. resolve_undefined (closed_promise (writers s ! i)) s) s))"

definition writable_stream_finish_in_flight_close_with_error :: "nat option \<Rightarrow> reason \<Rightarrow> wsys \<Rightarrow> wsys option" where
  "writable_stream_finish_in_flight_close_with_error w e s = (case in_flight_close_request s of None \<Rightarrow> None
     | Some p \<Rightarrow>
         let s = reject e p (s\<lparr>in_flight_close_request := None\<rparr>);
             s = (case pending_abort_request s of
                    Some (q, _, _) \<Rightarrow> reject e q (s\<lparr>pending_abort_request := None\<rparr>)
                  | None \<Rightarrow> s)
         in writable_stream_deal_with_rejection w e s)"

section \<open>The controller\<close>

definition writable_stream_default_controller_get_desired_size :: "wsys \<Rightarrow> f64" where
  "writable_stream_default_controller_get_desired_size s =
     (case strategy_hwm s of Fin h \<Rightarrow> Fin (h - queue_total_size s) | other \<Rightarrow> other)"

definition writable_stream_default_controller_get_backpressure :: "wsys \<Rightarrow> bool" where
  "writable_stream_default_controller_get_backpressure s =
     (case writable_stream_default_controller_get_desired_size s of Fin d \<Rightarrow> d \<le> 0 | _ \<Rightarrow> False)"

definition writable_stream_default_controller_clear_algorithms :: "wsys \<Rightarrow> wsys" where
  "writable_stream_default_controller_clear_algorithms s = s\<lparr>algorithms := False\<rparr>"

definition writable_stream_default_controller_error :: "nat option \<Rightarrow> reason \<Rightarrow> wsys \<Rightarrow> wsys option" where
  "writable_stream_default_controller_error w e s =
     writable_stream_start_erroring w e (writable_stream_default_controller_clear_algorithms s)"

definition writable_stream_default_controller_error_if_needed :: "nat option \<Rightarrow> reason \<Rightarrow> wsys \<Rightarrow> wsys option" where
  "writable_stream_default_controller_error_if_needed w e s =
     (if state s = Writable then writable_stream_default_controller_error w e s else Some s)"

definition writable_stream_default_controller_process_close :: "nat option \<Rightarrow> wsys \<Rightarrow> wsys option" where
  "writable_stream_default_controller_process_close w s = do {
     s \<leftarrow> writable_stream_mark_close_request_in_flight s;
     s \<leftarrow> dequeue_value s;
     if algorithms s
     then Some ((writable_stream_default_controller_clear_algorithms s)\<lparr>jobs := jobs s @ [J_Close w]\<rparr>)
     else None }"

definition writable_stream_default_controller_process_write :: "chunk \<Rightarrow> wsys \<Rightarrow> wsys option" where
  "writable_stream_default_controller_process_write v s = do {
     s \<leftarrow> writable_stream_mark_first_write_request_in_flight s;
     if algorithms s then Some (s\<lparr>jobs := jobs s @ [J_Write], sink_log := sink_log s @ [v]\<rparr>) else None }"

definition writable_stream_default_controller_advance_queue_if_needed :: "nat option \<Rightarrow> wsys \<Rightarrow> wsys option" where
  "writable_stream_default_controller_advance_queue_if_needed w s =
     (if \<not> started s \<or> in_flight_write_request s \<noteq> None then Some s
      else case state s of
          Erroring e \<Rightarrow> writable_stream_finish_erroring w e s
        | _ \<Rightarrow> (case queue s of
              [] \<Rightarrow> Some s
            | x # _ \<Rightarrow> if fst x = Close_Sentinel then writable_stream_default_controller_process_close w s
                else writable_stream_default_controller_process_write (fst x) s))"

definition writable_stream_default_controller_close :: "nat option \<Rightarrow> wsys \<Rightarrow> wsys option" where
  "writable_stream_default_controller_close w s =
     (case enqueue_value_with_size Close_Sentinel (Fin 0) s of
        Ok s \<Rightarrow> writable_stream_default_controller_advance_queue_if_needed w s
      | _ \<Rightarrow> Some s)"

definition update_backpressure_if_open :: "nat option \<Rightarrow> wsys \<Rightarrow> wsys" where
  "update_backpressure_if_open w s =
     (if \<not> writable_stream_close_queued_or_in_flight s \<and> state s = Writable
      then writable_stream_update_backpressure w (writable_stream_default_controller_get_backpressure s) s
      else s)"

definition writable_stream_default_controller_write :: "nat option \<Rightarrow> chunk \<Rightarrow> f64 \<Rightarrow> wsys \<Rightarrow> wsys option" where
  "writable_stream_default_controller_write w v sz s =
     (case enqueue_value_with_size v sz s of
        Ok s \<Rightarrow> writable_stream_default_controller_advance_queue_if_needed w
          (update_backpressure_if_open w (s\<lparr>accepted := accepted s @ [v]\<rparr>))
      | Err e \<Rightarrow> writable_stream_default_controller_error_if_needed w e s
      | Panic \<Rightarrow> None)"

text \<open>What the size function of the strategy answers: a sz, or an exception.\<close>

definition writable_stream_default_controller_get_chunk_size ::
    "nat option \<Rightarrow> (reason, f64) res \<Rightarrow> wsys \<Rightarrow> (f64 \<times> wsys) option" where
  "writable_stream_default_controller_get_chunk_size w size_fn s =
     (case (if algorithms s then size_fn else Ok (Fin 1)) of
        Ok sz \<Rightarrow> Some (sz, s)
      | Err e \<Rightarrow> map_option (\<lambda>s. (Fin 1, s)) (writable_stream_default_controller_error_if_needed w e s)
      | Panic \<Rightarrow> None)"

definition controller_error :: "reason \<Rightarrow> wsys \<Rightarrow> wsys option" where
  "controller_error e s = (if state s \<noteq> Writable then Some s
     else writable_stream_default_controller_error (the_writer s) e s)"

section \<open>Closing and aborting\<close>

definition type_error :: "string \<Rightarrow> promise" where
  "type_error msg = Rejected (R_Type_Error msg)"

definition writable_stream_close :: "nat option \<Rightarrow> wsys \<Rightarrow> (nat \<times> wsys) option" where
  "writable_stream_close w s =
     (case state s of
        Closed \<Rightarrow> Some (new_promise (type_error ''The stream is not in the writable state and cannot be closed'') s)
      | Errored _ \<Rightarrow> Some (new_promise (type_error ''The stream is not in the writable state and cannot be closed'') s)
      | _ \<Rightarrow>
          let (p, s) = new_promise Pending s;
              s = s\<lparr>close_request := Some p, requests := requests s @ [p]\<rparr>;
              s = with_writer w (\<lambda>i s. if backpressure s \<and> state s = Writable
                    then resolve_undefined (ready_promise (writers s ! i)) s else s) s
          in map_option (Pair p) (writable_stream_default_controller_close w s))"

definition writable_stream_abort :: "nat option \<Rightarrow> reason \<Rightarrow> wsys \<Rightarrow> (nat \<times> wsys) option" where
  "writable_stream_abort w reason s =
     (case state s of
        Closed \<Rightarrow> Some (new_promise Fulfilled s)
      | Errored _ \<Rightarrow> Some (new_promise Fulfilled s)
      | _ \<Rightarrow>
          (case pending_abort_request s of
             Some (p, _, _) \<Rightarrow> Some (p, s)
           | None \<Rightarrow>
               let was_already_erroring = (case state s of Erroring _ \<Rightarrow> True | _ \<Rightarrow> False);
                   reason = (if was_already_erroring then R_Undefined else reason);
                   (p, s) = new_promise Pending s;
                   s = s\<lparr>pending_abort_request := Some (p, reason, was_already_erroring)\<rparr>
               in if was_already_erroring then Some (p, s)
                  else map_option (Pair p) (writable_stream_start_erroring w reason s)))"

definition stream_abort :: "reason \<Rightarrow> wsys \<Rightarrow> (nat \<times> wsys) option" where
  "stream_abort reason s =
     (if is_writable_stream_locked s
      then Some (new_promise (type_error ''Cannot abort a stream that already has a writer'') s)
      else writable_stream_abort None reason s)"

definition stream_close :: "wsys \<Rightarrow> (nat \<times> wsys) option" where
  "stream_close s =
     (if is_writable_stream_locked s
      then Some (new_promise (type_error ''Cannot close a stream that already has a writer'') s)
      else if writable_stream_close_queued_or_in_flight s
      then Some (new_promise (type_error ''Cannot close an already-closing stream'') s)
      else writable_stream_close None s)"

section \<open>Writers\<close>

text \<open>The promises of a new writer; where the source shares one promise for both, the model makes two.\<close>

definition set_up_writable_stream_default_writer :: "wsys \<Rightarrow> (reason, nat \<times> wsys) res" where
  "set_up_writable_stream_default_writer s =
     (if is_writable_stream_locked s
      then Err (R_Type_Error ''This stream has already been locked for exclusive writing by another writer'')
      else
        let (ready, closed) = (case state s of
               Writable \<Rightarrow> (if \<not> writable_stream_close_queued_or_in_flight s \<and> backpressure s then Pending else Fulfilled, Pending)
             | Erroring e \<Rightarrow> (Rejected e, Pending)
             | Closed \<Rightarrow> (Fulfilled, Fulfilled)
             | Errored e \<Rightarrow> (Rejected e, Rejected e));
            (rp, s) = new_promise ready s;
            (cp, s) = new_promise closed s;
            i = length (writers s)
        in Ok (i, s\<lparr>writers := writers s @ [\<lparr>ready_promise = rp, closed_promise = cp, attached = True\<rparr>],
                    the_writer := Some i\<rparr>))"

definition writable_stream_default_writer_get_desired_size :: "wsys \<Rightarrow> f64 option" where
  "writable_stream_default_writer_get_desired_size s =
     (case state s of
        Errored _ \<Rightarrow> None
      | Erroring _ \<Rightarrow> None
      | Closed \<Rightarrow> Some (Fin 0)
      | Writable \<Rightarrow> Some (writable_stream_default_controller_get_desired_size s))"

definition desired_size :: "nat \<Rightarrow> wsys \<Rightarrow> (reason, f64 option) res" where
  "desired_size i s =
     (if \<not> attached (writers s ! i)
      then Err (R_Type_Error ''Cannot desiredSize a stream using a released writer'')
      else Ok (writable_stream_default_writer_get_desired_size s))"

definition writer_abort :: "nat \<Rightarrow> reason \<Rightarrow> wsys \<Rightarrow> (nat \<times> wsys) option" where
  "writer_abort i reason s =
     (if \<not> attached (writers s ! i)
      then Some (new_promise (type_error ''Cannot abort a stream using a released writer'') s)
      else writable_stream_abort (Some i) reason s)"

definition writer_close :: "nat \<Rightarrow> wsys \<Rightarrow> (nat \<times> wsys) option" where
  "writer_close i s =
     (if \<not> attached (writers s ! i)
      then Some (new_promise (type_error ''Cannot close a stream using a released writer'') s)
      else if writable_stream_close_queued_or_in_flight s
      then Some (new_promise (type_error ''Cannot close an already-closing'') s)
      else writable_stream_close (Some i) s)"

definition writable_stream_default_writer_close_with_error_propagation :: "nat \<Rightarrow> wsys \<Rightarrow> (nat \<times> wsys) option" where
  "writable_stream_default_writer_close_with_error_propagation i s =
     (if writable_stream_close_queued_or_in_flight s \<or> state s = Closed then Some (new_promise Fulfilled s)
      else case state s of
          Errored e \<Rightarrow> Some (new_promise (Rejected e) s)
        | _ \<Rightarrow> writable_stream_close (Some i) s)"

definition writable_stream_default_writer_release :: "nat \<Rightarrow> wsys \<Rightarrow> wsys" where
  "writable_stream_default_writer_release i s =
     (let released = R_Type_Error ''Writer was released and can no longer be used to monitor the stream's closedness'';
          s = writable_stream_default_writer_ensure_ready_promise_rejected released i s;
          s = writable_stream_default_writer_ensure_closed_promise_rejected released i s
      in s\<lparr>the_writer := None, writers := (writers s)[i := (writers s ! i)\<lparr>attached := False\<rparr>]\<rparr>)"

definition release_lock :: "nat \<Rightarrow> wsys \<Rightarrow> wsys" where
  "release_lock i s = (if \<not> attached (writers s ! i) then s else writable_stream_default_writer_release i s)"

definition writable_stream_default_writer_write :: "nat \<Rightarrow> chunk \<Rightarrow> (reason, f64) res \<Rightarrow> wsys \<Rightarrow> (nat \<times> wsys) option" where
  "writable_stream_default_writer_write i v size_fn s = do {
     (sz, s) \<leftarrow> writable_stream_default_controller_get_chunk_size (Some i) size_fn s;
     if \<not> attached (writers s ! i)
     then Some (new_promise (type_error ''Cannot write to a stream using a released writer'') s)
     else case state s of
         Errored e \<Rightarrow> Some (new_promise (Rejected e) s)
       | _ \<Rightarrow>
         if writable_stream_close_queued_or_in_flight s \<or> state s = Closed
         then Some (new_promise (type_error ''The stream is closing or closed and cannot be written to'') s)
         else case state s of
             Erroring e \<Rightarrow> Some (new_promise (Rejected e) s)
           | _ \<Rightarrow>
             let (p, s) = writable_stream_add_write_request s
             in map_option (Pair p) (writable_stream_default_controller_write (Some i) v sz s) }"

definition writer_write :: "nat \<Rightarrow> chunk \<Rightarrow> (reason, f64) res \<Rightarrow> wsys \<Rightarrow> (nat \<times> wsys) option" where
  "writer_write i v size_fn s =
     (if \<not> attached (writers s ! i)
      then Some (new_promise (type_error ''Cannot write a stream using a released writer'') s)
      else writable_stream_default_writer_write i v size_fn s)"

section \<open>Construction and reactions\<close>

definition extract_high_water_mark :: "f64 option option \<Rightarrow> f64 \<Rightarrow> (string, f64) res" where
  "extract_high_water_mark strategy default_hwm =
     (case strategy of
        None \<Rightarrow> Ok default_hwm
      | Some (Some Not_A_Number) \<Rightarrow> Err ''Invalid highWaterMark''
      | Some (Some (Fin h)) \<Rightarrow> if h < 0 then Err ''Invalid highWaterMark'' else Ok (Fin h)
      | Some (Some Infinite) \<Rightarrow> Ok Infinite
      | Some None \<Rightarrow> Ok default_hwm)"

text \<open>The stream after its constructor: the start algorithm was called and its promise is pending.\<close>

definition set_up_writable_stream_default_controller :: "f64 \<Rightarrow> wsys" where
  "set_up_writable_stream_default_controller hwm =
     (let s = \<lparr>promises = [], writers = [], backpressure = False, close_request = None, in_flight_write_request = None,
               in_flight_close_request = None, pending_abort_request = None, state = Writable, the_writer = None,
               write_requests = [], queue = [], queue_total_size = 0, started = False, strategy_hwm = hwm,
               algorithms = True, jobs = [], sink_log = [], accepted = [], requests = []\<rparr>;
          s = writable_stream_update_backpressure None (writable_stream_default_controller_get_backpressure s) s
      in s\<lparr>jobs := jobs s @ [J_Start]\<rparr>)"

definition start_settled :: "(reason, unit) res \<Rightarrow> wsys \<Rightarrow> wsys option" where
  "start_settled r s =
     (let s = s\<lparr>started := True\<rparr> in
      case r of Err e \<Rightarrow> writable_stream_deal_with_rejection (the_writer s) e s
      | _ \<Rightarrow> writable_stream_default_controller_advance_queue_if_needed (the_writer s) s)"

definition write_settled :: "(reason, unit) res \<Rightarrow> wsys \<Rightarrow> wsys option" where
  "write_settled r s =
     (case r of
        Err e \<Rightarrow>
          (let s = (if state s = Writable then writable_stream_default_controller_clear_algorithms s else s)
           in writable_stream_finish_in_flight_write_with_error (the_writer s) e s)
      | _ \<Rightarrow> do {
          s \<leftarrow> writable_stream_finish_in_flight_write s;
          s \<leftarrow> dequeue_value s;
          writable_stream_default_controller_advance_queue_if_needed (the_writer s) (update_backpressure_if_open (the_writer s) s) })"

definition close_settled :: "nat option \<Rightarrow> (reason, unit) res \<Rightarrow> wsys \<Rightarrow> wsys option" where
  "close_settled w r s =
     (case r of
        Err e \<Rightarrow> writable_stream_finish_in_flight_close_with_error w e s
      | _ \<Rightarrow> writable_stream_finish_in_flight_close w s)"

definition abort_settled :: "nat \<Rightarrow> (reason, unit) res \<Rightarrow> wsys \<Rightarrow> wsys option" where
  "abort_settled p r s =
     (let s = (case r of Err e \<Rightarrow> reject e p s | _ \<Rightarrow> resolve_undefined p s)
      in Some (writable_stream_reject_close_and_closed_promise_if_needed (the_writer s) s))"

text \<open>What can happen to a stream: a call of its API, or the settlement of a promise of its sink.\<close>

datatype wop =
  Op_Get_Writer | Op_Write nat chunk "(reason, f64) res" | Op_Writer_Close nat | Op_Writer_Abort nat reason
| Op_Release nat | Op_Close | Op_Abort reason | Op_Error reason | Op_Settle job "(reason, unit) res"

definition settle_job :: "job \<Rightarrow> (reason, unit) res \<Rightarrow> wsys \<Rightarrow> wsys option" where
  "settle_job j r s =
     (if j \<in> set (jobs s) then
        let s = s\<lparr>jobs := remove1 j (jobs s)\<rparr> in
        case j of J_Start \<Rightarrow> start_settled r s | J_Write \<Rightarrow> write_settled r s
        | J_Close w \<Rightarrow> close_settled w r s | J_Abort p \<Rightarrow> abort_settled p r s
      else Some s)"

definition wexec :: "wop \<Rightarrow> wsys \<Rightarrow> wsys option" where
  "wexec x s =
     (case x of
        Op_Get_Writer \<Rightarrow> (case set_up_writable_stream_default_writer s of Ok (_, s) \<Rightarrow> Some s | Err _ \<Rightarrow> Some s | Panic \<Rightarrow> None)
      | Op_Write i v sz \<Rightarrow> if i < length (writers s) then map_option snd (writer_write i v sz s) else Some s
      | Op_Writer_Close i \<Rightarrow> if i < length (writers s) then map_option snd (writer_close i s) else Some s
      | Op_Writer_Abort i r \<Rightarrow> if i < length (writers s) then map_option snd (writer_abort i r s) else Some s
      | Op_Release i \<Rightarrow> if i < length (writers s) then Some (release_lock i s) else Some s
      | Op_Close \<Rightarrow> map_option snd (stream_close s)
      | Op_Abort r \<Rightarrow> map_option snd (stream_abort r s)
      | Op_Error e \<Rightarrow> controller_error e s
      | Op_Settle j r \<Rightarrow> settle_job j r s)"

end
