(* ===== verification/Writable_Laws.thy ===== *)
theory Writable_Laws
  imports Writable_Stream "HOL-Library.Sublist"
begin

text \<open>
  What holds of a writable stream through any sequence of calls and settlements: no \<open>expect\<close> or \<open>panic!\<close>
  of the source is reached, the sink gets the accepted chunks in order, and no promise is left behind.
\<close>

section \<open>What the helpers leave alone\<close>

lemma settle_fields [simp]:
  "close_request (settle v p s) = close_request s"
  "in_flight_write_request (settle v p s) = in_flight_write_request s"
  "in_flight_close_request (settle v p s) = in_flight_close_request s"
  "pending_abort_request (settle v p s) = pending_abort_request s"
  "state (settle v p s) = state s"
  "the_writer (settle v p s) = the_writer s"
  "write_requests (settle v p s) = write_requests s"
  "queue (settle v p s) = queue s"
  "queue_total_size (settle v p s) = queue_total_size s"
  "started (settle v p s) = started s"
  "strategy_hwm (settle v p s) = strategy_hwm s"
  "algorithms (settle v p s) = algorithms s"
  "jobs (settle v p s) = jobs s"
  "sink_log (settle v p s) = sink_log s"
  "accepted (settle v p s) = accepted s"
  "requests (settle v p s) = requests s"
  by (simp_all add: settle_def)

lemma resolve_fields [simp]:
  "close_request (resolve_undefined p s) = close_request s"
  "in_flight_write_request (resolve_undefined p s) = in_flight_write_request s"
  "in_flight_close_request (resolve_undefined p s) = in_flight_close_request s"
  "pending_abort_request (resolve_undefined p s) = pending_abort_request s"
  "state (resolve_undefined p s) = state s"
  "the_writer (resolve_undefined p s) = the_writer s"
  "write_requests (resolve_undefined p s) = write_requests s"
  "queue (resolve_undefined p s) = queue s"
  "queue_total_size (resolve_undefined p s) = queue_total_size s"
  "started (resolve_undefined p s) = started s"
  "strategy_hwm (resolve_undefined p s) = strategy_hwm s"
  "algorithms (resolve_undefined p s) = algorithms s"
  "jobs (resolve_undefined p s) = jobs s"
  "sink_log (resolve_undefined p s) = sink_log s"
  "accepted (resolve_undefined p s) = accepted s"
  "requests (resolve_undefined p s) = requests s"
  by (simp_all add: resolve_undefined_def)

lemma reject_fields [simp]:
  "close_request (reject e p s) = close_request s"
  "in_flight_write_request (reject e p s) = in_flight_write_request s"
  "in_flight_close_request (reject e p s) = in_flight_close_request s"
  "pending_abort_request (reject e p s) = pending_abort_request s"
  "state (reject e p s) = state s"
  "the_writer (reject e p s) = the_writer s"
  "write_requests (reject e p s) = write_requests s"
  "queue (reject e p s) = queue s"
  "queue_total_size (reject e p s) = queue_total_size s"
  "started (reject e p s) = started s"
  "strategy_hwm (reject e p s) = strategy_hwm s"
  "algorithms (reject e p s) = algorithms s"
  "jobs (reject e p s) = jobs s"
  "sink_log (reject e p s) = sink_log s"
  "accepted (reject e p s) = accepted s"
  "requests (reject e p s) = requests s"
  by (simp_all add: reject_def)

lemma new_promise_fields [simp]:
  "close_request (snd (new_promise v s)) = close_request s"
  "in_flight_write_request (snd (new_promise v s)) = in_flight_write_request s"
  "in_flight_close_request (snd (new_promise v s)) = in_flight_close_request s"
  "pending_abort_request (snd (new_promise v s)) = pending_abort_request s"
  "state (snd (new_promise v s)) = state s"
  "the_writer (snd (new_promise v s)) = the_writer s"
  "write_requests (snd (new_promise v s)) = write_requests s"
  "queue (snd (new_promise v s)) = queue s"
  "queue_total_size (snd (new_promise v s)) = queue_total_size s"
  "started (snd (new_promise v s)) = started s"
  "strategy_hwm (snd (new_promise v s)) = strategy_hwm s"
  "algorithms (snd (new_promise v s)) = algorithms s"
  "jobs (snd (new_promise v s)) = jobs s"
  "sink_log (snd (new_promise v s)) = sink_log s"
  "accepted (snd (new_promise v s)) = accepted s"
  "requests (snd (new_promise v s)) = requests s"
  by (simp_all add: new_promise_def)

lemma fold_reject_fields [simp]:
  "close_request (fold (reject e) ps s) = close_request s"
  "in_flight_write_request (fold (reject e) ps s) = in_flight_write_request s"
  "in_flight_close_request (fold (reject e) ps s) = in_flight_close_request s"
  "pending_abort_request (fold (reject e) ps s) = pending_abort_request s"
  "state (fold (reject e) ps s) = state s"
  "the_writer (fold (reject e) ps s) = the_writer s"
  "write_requests (fold (reject e) ps s) = write_requests s"
  "queue (fold (reject e) ps s) = queue s"
  "queue_total_size (fold (reject e) ps s) = queue_total_size s"
  "started (fold (reject e) ps s) = started s"
  "strategy_hwm (fold (reject e) ps s) = strategy_hwm s"
  "algorithms (fold (reject e) ps s) = algorithms s"
  "jobs (fold (reject e) ps s) = jobs s"
  "sink_log (fold (reject e) ps s) = sink_log s"
  "accepted (fold (reject e) ps s) = accepted s"
  "requests (fold (reject e) ps s) = requests s"
  by (induction ps arbitrary: s) simp_all

lemma ensure_ready_fields [simp]:
  "close_request (writable_stream_default_writer_ensure_ready_promise_rejected e i s) = close_request s"
  "in_flight_write_request (writable_stream_default_writer_ensure_ready_promise_rejected e i s) = in_flight_write_request s"
  "in_flight_close_request (writable_stream_default_writer_ensure_ready_promise_rejected e i s) = in_flight_close_request s"
  "pending_abort_request (writable_stream_default_writer_ensure_ready_promise_rejected e i s) = pending_abort_request s"
  "state (writable_stream_default_writer_ensure_ready_promise_rejected e i s) = state s"
  "the_writer (writable_stream_default_writer_ensure_ready_promise_rejected e i s) = the_writer s"
  "write_requests (writable_stream_default_writer_ensure_ready_promise_rejected e i s) = write_requests s"
  "queue (writable_stream_default_writer_ensure_ready_promise_rejected e i s) = queue s"
  "queue_total_size (writable_stream_default_writer_ensure_ready_promise_rejected e i s) = queue_total_size s"
  "started (writable_stream_default_writer_ensure_ready_promise_rejected e i s) = started s"
  "strategy_hwm (writable_stream_default_writer_ensure_ready_promise_rejected e i s) = strategy_hwm s"
  "algorithms (writable_stream_default_writer_ensure_ready_promise_rejected e i s) = algorithms s"
  "jobs (writable_stream_default_writer_ensure_ready_promise_rejected e i s) = jobs s"
  "sink_log (writable_stream_default_writer_ensure_ready_promise_rejected e i s) = sink_log s"
  "accepted (writable_stream_default_writer_ensure_ready_promise_rejected e i s) = accepted s"
  "requests (writable_stream_default_writer_ensure_ready_promise_rejected e i s) = requests s"
  by (simp_all add: writable_stream_default_writer_ensure_ready_promise_rejected_def Let_def new_promise_def)

lemma ensure_closed_fields [simp]:
  "close_request (writable_stream_default_writer_ensure_closed_promise_rejected e i s) = close_request s"
  "in_flight_write_request (writable_stream_default_writer_ensure_closed_promise_rejected e i s) = in_flight_write_request s"
  "in_flight_close_request (writable_stream_default_writer_ensure_closed_promise_rejected e i s) = in_flight_close_request s"
  "pending_abort_request (writable_stream_default_writer_ensure_closed_promise_rejected e i s) = pending_abort_request s"
  "state (writable_stream_default_writer_ensure_closed_promise_rejected e i s) = state s"
  "the_writer (writable_stream_default_writer_ensure_closed_promise_rejected e i s) = the_writer s"
  "write_requests (writable_stream_default_writer_ensure_closed_promise_rejected e i s) = write_requests s"
  "queue (writable_stream_default_writer_ensure_closed_promise_rejected e i s) = queue s"
  "queue_total_size (writable_stream_default_writer_ensure_closed_promise_rejected e i s) = queue_total_size s"
  "started (writable_stream_default_writer_ensure_closed_promise_rejected e i s) = started s"
  "strategy_hwm (writable_stream_default_writer_ensure_closed_promise_rejected e i s) = strategy_hwm s"
  "algorithms (writable_stream_default_writer_ensure_closed_promise_rejected e i s) = algorithms s"
  "jobs (writable_stream_default_writer_ensure_closed_promise_rejected e i s) = jobs s"
  "sink_log (writable_stream_default_writer_ensure_closed_promise_rejected e i s) = sink_log s"
  "accepted (writable_stream_default_writer_ensure_closed_promise_rejected e i s) = accepted s"
  "requests (writable_stream_default_writer_ensure_closed_promise_rejected e i s) = requests s"
  by (simp_all add: writable_stream_default_writer_ensure_closed_promise_rejected_def Let_def new_promise_def)

lemma backpressure_fields [simp]:
  "close_request (writable_stream_update_backpressure w bp s) = close_request s"
  "in_flight_write_request (writable_stream_update_backpressure w bp s) = in_flight_write_request s"
  "in_flight_close_request (writable_stream_update_backpressure w bp s) = in_flight_close_request s"
  "pending_abort_request (writable_stream_update_backpressure w bp s) = pending_abort_request s"
  "state (writable_stream_update_backpressure w bp s) = state s"
  "the_writer (writable_stream_update_backpressure w bp s) = the_writer s"
  "write_requests (writable_stream_update_backpressure w bp s) = write_requests s"
  "queue (writable_stream_update_backpressure w bp s) = queue s"
  "queue_total_size (writable_stream_update_backpressure w bp s) = queue_total_size s"
  "started (writable_stream_update_backpressure w bp s) = started s"
  "strategy_hwm (writable_stream_update_backpressure w bp s) = strategy_hwm s"
  "algorithms (writable_stream_update_backpressure w bp s) = algorithms s"
  "jobs (writable_stream_update_backpressure w bp s) = jobs s"
  "sink_log (writable_stream_update_backpressure w bp s) = sink_log s"
  "accepted (writable_stream_update_backpressure w bp s) = accepted s"
  "requests (writable_stream_update_backpressure w bp s) = requests s"
  by (simp_all add: writable_stream_update_backpressure_def with_writer_def new_promise_def split: option.splits)

lemma reject_close_fields [simp]:
  "in_flight_write_request (writable_stream_reject_close_and_closed_promise_if_needed w s) = in_flight_write_request s"
  "in_flight_close_request (writable_stream_reject_close_and_closed_promise_if_needed w s) = in_flight_close_request s"
  "pending_abort_request (writable_stream_reject_close_and_closed_promise_if_needed w s) = pending_abort_request s"
  "state (writable_stream_reject_close_and_closed_promise_if_needed w s) = state s"
  "the_writer (writable_stream_reject_close_and_closed_promise_if_needed w s) = the_writer s"
  "write_requests (writable_stream_reject_close_and_closed_promise_if_needed w s) = write_requests s"
  "queue (writable_stream_reject_close_and_closed_promise_if_needed w s) = queue s"
  "queue_total_size (writable_stream_reject_close_and_closed_promise_if_needed w s) = queue_total_size s"
  "started (writable_stream_reject_close_and_closed_promise_if_needed w s) = started s"
  "strategy_hwm (writable_stream_reject_close_and_closed_promise_if_needed w s) = strategy_hwm s"
  "algorithms (writable_stream_reject_close_and_closed_promise_if_needed w s) = algorithms s"
  "jobs (writable_stream_reject_close_and_closed_promise_if_needed w s) = jobs s"
  "sink_log (writable_stream_reject_close_and_closed_promise_if_needed w s) = sink_log s"
  "accepted (writable_stream_reject_close_and_closed_promise_if_needed w s) = accepted s"
  "requests (writable_stream_reject_close_and_closed_promise_if_needed w s) = requests s"
  "close_request (writable_stream_reject_close_and_closed_promise_if_needed w s) = None"
  by (simp_all add: writable_stream_reject_close_and_closed_promise_if_needed_def with_writer_def Let_def split: option.splits)

section \<open>Promises that are owed\<close>

definition vals :: "wsys \<Rightarrow> bool" where
  "vals s \<longleftrightarrow> (\<forall>p\<in>set (requests s). p < length (promises s))"

definition pend :: "wsys \<Rightarrow> nat set" where
  "pend s = {p \<in> set (requests s). promises s ! p = Pending}"

definition owed :: "wsys \<Rightarrow> nat set" where
  "owed s = set (write_requests s) \<union> set_option (in_flight_write_request s)
     \<union> set_option (close_request s) \<union> set_option (in_flight_close_request s)"

text \<open>A step that only settles promises or makes new ones that were not handed out: what is still
  pending was pending before, and is none of \<open>ps\<close>.\<close>

definition settles :: "nat set \<Rightarrow> wsys \<Rightarrow> wsys \<Rightarrow> bool" where
  "settles ps s s' \<longleftrightarrow> requests s' = requests s \<and> (vals s \<longrightarrow> vals s' \<and> pend s' \<subseteq> pend s - ps)"

lemma settles_refl [simp]: "settles {} s s"
  by (simp add: settles_def)

lemma settles_trans: "settles ps s s1 \<Longrightarrow> settles qs s1 s2 \<Longrightarrow> settles (ps \<union> qs) s s2"
  by (auto simp: settles_def)

lemma settles_none: "settles ps s s' \<Longrightarrow> settles {} s s'"
  by (auto simp: settles_def)

lemma settles_settle: "v \<noteq> Pending \<Longrightarrow> settles {p} s (settle v p s)"
  by (auto simp: settles_def settle_def vals_def pend_def nth_list_update)

lemma settles_resolve: "settles {p} s (resolve_undefined p s)"
  by (simp add: resolve_undefined_def settles_settle)

lemma settles_reject: "settles {p} s (reject e p s)"
  by (simp add: reject_def settles_settle)

lemma settles_new: "settles {} s (snd (new_promise v s))"
  by (fastforce simp: settles_def new_promise_def vals_def pend_def nth_append)

lemma settles_upd:
  assumes "settles ps s s'" "promises t = promises s'" "requests t = requests s'"
  shows "settles ps s t"
  using assms by (auto simp: settles_def vals_def pend_def)

text \<open>Settling one more promise after an update of the other fields.\<close>

lemma settles_then:
  assumes "settles ps s s1" "promises s2 = promises s1" "requests s2 = requests s1"
  shows "settles ps s (resolve_undefined q s2)" "settles ps s (reject e q s2)"
  using settles_trans [OF settles_upd [OF assms] settles_none [OF settles_resolve [of q s2]]]
    settles_trans [OF settles_upd [OF assms] settles_none [OF settles_reject [of q s2 e]]] by simp_all

lemma settles_fold: "settles (set ps) s (fold (reject e) ps s)"
proof (induction ps arbitrary: s)
  case (Cons p ps)
  from settles_trans [OF settles_reject [of p s e] Cons.IH [of "reject e p s"]] show ?case by simp
qed simp

lemma settles_ready: "settles {} s (writable_stream_default_writer_ensure_ready_promise_rejected e i s)"
  using settles_none [OF settles_reject [of _ s e]] settles_new [of s "Rejected e"]
  by (auto simp: writable_stream_default_writer_ensure_ready_promise_rejected_def Let_def new_promise_def
      intro: settles_upd)

lemma settles_closed: "settles {} s (writable_stream_default_writer_ensure_closed_promise_rejected e i s)"
  using settles_none [OF settles_reject [of _ s e]] settles_new [of s "Rejected e"]
  by (auto simp: writable_stream_default_writer_ensure_closed_promise_rejected_def Let_def new_promise_def
      intro: settles_upd)

lemma settles_backpressure: "settles {} s (writable_stream_update_backpressure w bp s)"
proof (rule settles_upd)
  let ?f = "\<lambda>i s. if bp \<noteq> backpressure s then
          (if bp then let (q, s) = new_promise Pending s
             in s\<lparr>writers := (writers s)[i := (writers s ! i)\<lparr>ready_promise := q\<rparr>]\<rparr>
           else resolve_undefined (ready_promise (writers s ! i)) s)
        else s"
  show "settles {} s (with_writer w ?f s)"
    using settles_none [OF settles_resolve [of _ s]] settles_new [of s Pending]
    by (auto simp: with_writer_def new_promise_def intro: settles_upd split: option.splits)
qed (simp_all add: writable_stream_update_backpressure_def)

lemma settles_reject_close:
  "settles (set_option (close_request s)) s (writable_stream_reject_close_and_closed_promise_if_needed w s)"
proof -
  let ?s = "case close_request s of Some p \<Rightarrow> (reject (stored_error s) p s)\<lparr>close_request := None\<rparr> | None \<Rightarrow> s"
  have "settles (set_option (close_request s)) s ?s"
    by (auto split: option.splits intro: settles_upd [OF settles_reject])
  moreover have "settles {} ?s (with_writer w (\<lambda>i s. reject (stored_error s) (closed_promise (writers s ! i)) s) ?s)"
    by (auto simp: with_writer_def split: option.splits intro: settles_none [OF settles_reject])
  ultimately show ?thesis
    using settles_trans by (fastforce simp: writable_stream_reject_close_and_closed_promise_if_needed_def Let_def)
qed

section \<open>The invariant\<close>

fun is_close :: "job \<Rightarrow> bool" where
  "is_close (J_Close _) = True"
| "is_close _ = False"

fun is_abort :: "job \<Rightarrow> bool" where
  "is_abort (J_Abort _) = True"
| "is_abort _ = False"

definition alive :: "wsys \<Rightarrow> bool" where
  "alive s \<longleftrightarrow> state s = Writable \<or> (\<exists>e. state s = Erroring e)"

definition marked :: "nat option \<Rightarrow> nat" where
  "marked r = (if r = None then 0 else 1)"

text \<open>The reactions that wait are those of the operations in flight.\<close>

definition inv_jobs :: "wsys \<Rightarrow> bool" where
  "inv_jobs s \<longleftrightarrow>
     count_list (jobs s) J_Start = (if started s then 0 else 1)
     \<and> count_list (jobs s) J_Write = marked (in_flight_write_request s)
     \<and> length (filter is_close (jobs s)) = marked (in_flight_close_request s)"

definition inv_flight :: "wsys \<Rightarrow> bool" where
  "inv_flight s \<longleftrightarrow>
     (in_flight_write_request s = None \<or> in_flight_close_request s = None)
     \<and> (\<not> started s \<longrightarrow> in_flight_write_request s = None \<and> in_flight_close_request s = None \<and> alive s)
     \<and> (in_flight_write_request s \<noteq> None \<longrightarrow> queue s \<noteq> [] \<and> alive s)
     \<and> (in_flight_close_request s \<noteq> None \<longrightarrow>
          queue s = [] \<and> close_request s = None \<and> write_requests s = [] \<and> sink_log s = accepted s \<and> alive s)"

text \<open>The queue of a stream that takes chunks: the chunk in flight, the chunks of the write requests, and
  the close sentinel if a close is requested.\<close>

definition inv_queue :: "wsys \<Rightarrow> bool" where
  "inv_queue s \<longleftrightarrow> (\<exists>cs. map fst (queue s) = cs @ (if close_request s = None then [] else [Close_Sentinel])
     \<and> Close_Sentinel \<notin> set cs
     \<and> length cs = marked (in_flight_write_request s) + length (write_requests s)
     \<and> accepted s = sink_log s @ drop (marked (in_flight_write_request s)) cs)"

definition idle :: "wsys \<Rightarrow> bool" where
  "idle s \<longleftrightarrow> in_flight_write_request s = None \<and> in_flight_close_request s = None"

definition inv_state :: "wsys \<Rightarrow> bool" where
  "inv_state s \<longleftrightarrow> (case state s of
       Writable \<Rightarrow> pending_abort_request s = None
         \<and> (in_flight_close_request s = None \<longrightarrow> algorithms s \<and> inv_queue s)
     | Erroring _ \<Rightarrow> (\<forall>p r. pending_abort_request s = Some (p, r, False) \<longrightarrow> algorithms s \<or> in_flight_close_request s \<noteq> None)
     | Closed \<Rightarrow> queue s = [] \<and> write_requests s = [] \<and> pending_abort_request s = None \<and> close_request s = None
         \<and> sink_log s = accepted s
     | Errored _ \<Rightarrow> queue s = [] \<and> write_requests s = [] \<and> pending_abort_request s = None
         \<and> (close_request s \<noteq> None \<longrightarrow> (\<exists>j\<in>set (jobs s). is_abort j)))"

text \<open>Nothing is left to do for a stream that waits for nothing.\<close>

definition inv_busy :: "wsys \<Rightarrow> bool" where
  "inv_busy s \<longleftrightarrow> started s \<and> idle s \<longrightarrow> (state s = Writable \<longrightarrow> queue s = []) \<and> (\<forall>e. state s \<noteq> Erroring e)"

definition inv_abort :: "wsys \<Rightarrow> bool" where
  "inv_abort s \<longleftrightarrow> (\<exists>j\<in>set (jobs s). is_abort j) \<longrightarrow> \<not> alive s"

definition inv_weak :: "wsys \<Rightarrow> bool" where
  "inv_weak s \<longleftrightarrow> inv_jobs s \<and> inv_flight s \<and> inv_abort s \<and> prefix (sink_log s) (accepted s) \<and> vals s \<and> pend s \<subseteq> owed s"

definition inv_base :: "wsys \<Rightarrow> bool" where
  "inv_base s \<longleftrightarrow> inv_weak s \<and> inv_state s"

definition winv :: "wsys \<Rightarrow> bool" where
  "winv s \<longleftrightarrow> inv_base s \<and> inv_busy s"

lemmas inv_defs = inv_base_def inv_weak_def inv_abort_def inv_jobs_def inv_flight_def inv_state_def marked_def alive_def idle_def owed_def

lemma winv_start: "winv (set_up_writable_stream_default_controller hwm)"
  by (simp add: winv_def inv_defs inv_busy_def inv_queue_def set_up_writable_stream_default_controller_def Let_def vals_def pend_def)

lemma errored_ok:
  assumes "state s = Errored e" "queue s = []" "write_requests s = []" "pending_abort_request s = None" "idle s" "started s"
    "inv_jobs s" "prefix (sink_log s) (accepted s)" "vals s" "pend s \<subseteq> set_option (close_request s)"
    "close_request s \<noteq> None \<Longrightarrow> \<exists>j\<in>set (jobs s). is_abort j"
  shows "winv s"
  using assms by (auto simp: winv_def inv_base_def inv_weak_def inv_abort_def alive_def inv_flight_def inv_state_def inv_busy_def idle_def owed_def)

lemma finish_erroring_ok:
  assumes "inv_jobs s" "idle s" "started s" "prefix (sink_log s) (accepted s)" "vals s" "pend s \<subseteq> owed s"
    "\<And>p r. pending_abort_request s = Some (p, r, False) \<Longrightarrow> algorithms s"
  shows "\<exists>s'. writable_stream_finish_erroring w e s = Some s' \<and> winv s'"
proof -
  let ?s0 = "reset_queue (s\<lparr>state := Errored e\<rparr>)"
  define t where "t = (fold (reject e) (write_requests s) ?s0)\<lparr>write_requests := []\<rparr>"
  have t: "state t = Errored e" "queue t = []" "write_requests t = []" "pending_abort_request t = pending_abort_request s"
    "in_flight_write_request t = None" "in_flight_close_request t = None" "started t" "jobs t = jobs s" "close_request t = close_request s"
    "sink_log t = sink_log s" "accepted t = accepted s" "algorithms t = algorithms s" "requests t = requests s"
    using assms(2,3) by (simp_all add: t_def reset_queue_def idle_def)
  have "settles (set (write_requests s)) ?s0 t" unfolding t_def by (rule settles_upd [OF settles_fold]) simp_all
  then have v: "vals t" "pend t \<subseteq> set_option (close_request t)"
    using assms(2,5,6) t by (auto simp: settles_def vals_def pend_def reset_queue_def owed_def idle_def)
  have final: "winv (writable_stream_reject_close_and_closed_promise_if_needed w u)"
    if "settles {} t u" "state u = Errored e" "queue u = []" "write_requests u = []" "pending_abort_request u = None"
      "idle u" "started u" "jobs u = jobs s" "close_request u = close_request s" "sink_log u = sink_log s" "accepted u = accepted s"
      "requests u = requests s" for u
  proof (rule errored_ok)
    let ?u = "writable_stream_reject_close_and_closed_promise_if_needed w u"
    have "settles (set_option (close_request u)) t ?u"
      using settles_trans [OF that(1) settles_reject_close [of u w]] by simp
    then show "vals ?u" "pend ?u \<subseteq> set_option (close_request ?u)" using v t that by (auto simp: settles_def)
    show "inv_jobs ?u" using assms(1,2,3) that by (auto simp: inv_jobs_def idle_def)
  qed (use that assms in \<open>auto simp: idle_def\<close>)
  show ?thesis
  proof (cases "pending_abort_request s")
    case None
    then have "writable_stream_finish_erroring w e s = Some (writable_stream_reject_close_and_closed_promise_if_needed w t)"
      by (simp add: writable_stream_finish_erroring_def Let_def t_def reset_queue_def)
    moreover have "winv (writable_stream_reject_close_and_closed_promise_if_needed w t)"
      by (rule final) (use t None in \<open>auto simp: idle_def\<close>)
    ultimately show ?thesis by blast
  next
    case (Some a)
    obtain p r b where a: "a = (p, r, b)" by (cases a)
    let ?t = "t\<lparr>pending_abort_request := None\<rparr>"
    have eq: "writable_stream_finish_erroring w e s = (if b then Some (writable_stream_reject_close_and_closed_promise_if_needed w (reject e p ?t)) else abort_steps p ?t)"
      using Some a by (simp add: writable_stream_finish_erroring_def Let_def t_def reset_queue_def)
    show ?thesis
    proof (cases b)
      case True
      have "settles {} t (reject e p ?t)"
        by (rule settles_none [OF settles_trans [OF settles_upd [OF settles_refl] settles_reject]]) simp_all
      then have "winv (writable_stream_reject_close_and_closed_promise_if_needed w (reject e p ?t))"
        by (rule final) (use t in \<open>auto simp: idle_def\<close>)
      with eq True show ?thesis by simp
    next
      case False
      with Some a assms(7) have "algorithms s" by simp
      then have "abort_steps p ?t = Some (?t\<lparr>algorithms := False, jobs := jobs s @ [J_Abort p]\<rparr>)"
        using t by (simp add: abort_steps_def)
      moreover have "winv (?t\<lparr>algorithms := False, jobs := jobs s @ [J_Abort p]\<rparr>)"
        by (rule errored_ok) (use t v assms in \<open>auto simp: idle_def inv_jobs_def vals_def pend_def\<close>)
      ultimately show ?thesis using eq False by simp
    qed
  qed
qed

lemma start_erroring_ok:
  assumes "inv_weak s" "alive s"
    "pending_abort_request s = None \<or> algorithms s \<or> in_flight_close_request s \<noteq> None"
  shows "\<exists>s'. writable_stream_start_erroring w e s = Some s' \<and> winv s'"
proof -
  let ?s0 = "s\<lparr>state := Erroring e\<rparr>"
  define t where "t = with_writer w (writable_stream_default_writer_ensure_ready_promise_rejected e) ?s0"
  have st: "settles {} ?s0 t" by (auto simp: t_def with_writer_def settles_ready split: option.splits)
  have t: "state t = Erroring e" "queue t = queue s" "write_requests t = write_requests s"
    "pending_abort_request t = pending_abort_request s" "in_flight_write_request t = in_flight_write_request s"
    "in_flight_close_request t = in_flight_close_request s" "started t = started s" "jobs t = jobs s"
    "close_request t = close_request s" "sink_log t = sink_log s" "accepted t = accepted s" "algorithms t = algorithms s"
    "requests t = requests s"
    by (simp_all add: t_def with_writer_def split: option.splits)
  have v: "vals t" "pend t \<subseteq> owed t"
    using st assms(1) t by (auto simp: settles_def vals_def pend_def inv_weak_def owed_def)
  have j: "inv_jobs t" using assms(1) t by (simp add: inv_weak_def inv_jobs_def)
  show ?thesis
  proof (cases "idle t \<and> started t")
    case True
    have "\<exists>s'. writable_stream_finish_erroring w e t = Some s' \<and> winv s'"
      by (rule finish_erroring_ok) (use True j v t assms in \<open>auto simp: inv_weak_def idle_def\<close>)
    with True show ?thesis
      by (simp add: writable_stream_start_erroring_def t_def [symmetric] Let_def writable_stream_has_operation_marked_in_flight_def idle_def)
  next
    case False
    have "inv_flight t" using assms(1) by (auto simp: inv_weak_def inv_flight_def t alive_def)
    moreover have "inv_abort t" "prefix (sink_log t) (accepted t)" using assms(1,2) by (auto simp: inv_weak_def inv_abort_def t alive_def)
    moreover have "inv_state t" using assms(3) by (auto simp: inv_state_def t)
    moreover have "inv_busy t" using False by (auto simp: inv_busy_def idle_def t)
    ultimately have "winv t" using j v by (simp add: winv_def inv_base_def inv_weak_def)
    with False show ?thesis
      by (auto simp: writable_stream_start_erroring_def t_def [symmetric] Let_def writable_stream_has_operation_marked_in_flight_def idle_def)
  qed
qed

lemma deal_with_rejection_ok:
  assumes "inv_weak s" "started s" "idle s" "alive s" "state s = Writable \<Longrightarrow> pending_abort_request s = None"
    "\<And>p r e. state s = Erroring e \<Longrightarrow> pending_abort_request s = Some (p, r, False) \<Longrightarrow> algorithms s"
  shows "\<exists>s'. writable_stream_deal_with_rejection w e s = Some s' \<and> winv s'"
proof (cases "state s = Writable")
  case True
  with start_erroring_ok [OF assms(1,4), of w e] assms(5) show ?thesis by (simp add: writable_stream_deal_with_rejection_def)
next
  case False
  with assms(4) obtain e' where e: "state s = Erroring e'" by (auto simp: alive_def)
  have "\<exists>s'. writable_stream_finish_erroring w e' s = Some s' \<and> winv s'"
    by (rule finish_erroring_ok) (use assms e in \<open>auto simp: inv_weak_def\<close>)
  with e show ?thesis by (simp add: writable_stream_deal_with_rejection_def)
qed

lemma process_close_ok:
  assumes "inv_base s" "state s = Writable" "idle s" "started s" "queue s = x # q" "fst x = Close_Sentinel"
  shows "\<exists>s'. writable_stream_default_controller_process_close w s = Some s' \<and> winv s'"
proof -
  from assms obtain cs where cs: "map fst (queue s) = cs @ (if close_request s = None then [] else [Close_Sentinel])"
    "Close_Sentinel \<notin> set cs" "length cs = length (write_requests s)" "accepted s = sink_log s @ cs" "algorithms s"
    by (auto simp: inv_base_def inv_state_def inv_queue_def marked_def idle_def)
  with assms(5,6) have "cs = []" by (cases cs) auto
  with cs assms(5) obtain p where p: "close_request s = Some p" "q = []" "write_requests s = []" "accepted s = sink_log s"
    by (cases "close_request s") auto
  let ?s = "s\<lparr>close_request := None, in_flight_close_request := Some p, queue := [],
    queue_total_size := (if queue_total_size s - snd x < 0 then 0 else queue_total_size s - snd x), algorithms := False, jobs := jobs s @ [J_Close w]\<rparr>"
  have "writable_stream_default_controller_process_close w s = Some ?s"
    using p cs(5) assms(5) by (simp add: writable_stream_default_controller_process_close_def writable_stream_mark_close_request_in_flight_def
        dequeue_value_def writable_stream_default_controller_clear_algorithms_def Let_def)
  moreover have "winv ?s"
    using p assms by (auto simp: winv_def inv_defs inv_busy_def vals_def pend_def)
  ultimately show ?thesis by blast
qed

lemma process_write_ok:
  assumes "inv_base s" "state s = Writable" "idle s" "started s" "queue s = x # q" "fst x \<noteq> Close_Sentinel"
  shows "\<exists>s'. writable_stream_default_controller_process_write (fst x) s = Some s' \<and> winv s'"
proof -
  from assms obtain cs where cs: "map fst (queue s) = cs @ (if close_request s = None then [] else [Close_Sentinel])"
    "Close_Sentinel \<notin> set cs" "length cs = length (write_requests s)" "accepted s = sink_log s @ cs" "algorithms s"
    by (auto simp: inv_base_def inv_state_def inv_queue_def marked_def idle_def)
  with assms(5,6) obtain ds where ds: "cs = fst x # ds" by (cases cs) (auto split: if_splits)
  with cs(3) obtain p ps where p: "write_requests s = p # ps" "length ps = length ds" by (cases "write_requests s") auto
  let ?s = "s\<lparr>write_requests := ps, in_flight_write_request := Some p, jobs := jobs s @ [J_Write], sink_log := sink_log s @ [fst x]\<rparr>"
  have "writable_stream_default_controller_process_write (fst x) s = Some ?s"
    using p cs(5) by (simp add: writable_stream_default_controller_process_write_def writable_stream_mark_first_write_request_in_flight_def)
  moreover have "inv_queue ?s"
    unfolding inv_queue_def by (rule exI [of _ cs]) (use cs ds p in \<open>simp add: marked_def\<close>)
  moreover have "inv_weak ?s" "pending_abort_request s = None"
    using p assms cs ds by (auto simp: inv_defs vals_def pend_def)
  ultimately show ?thesis using assms cs(5) by (auto simp: winv_def inv_base_def inv_state_def inv_busy_def idle_def)
qed

lemma advance_ok:
  assumes "inv_base s" "\<And>e. state s = Erroring e \<Longrightarrow> in_flight_close_request s = None"
  shows "\<exists>s'. writable_stream_default_controller_advance_queue_if_needed w s = Some s' \<and> winv s'"
proof (cases "\<not> started s \<or> in_flight_write_request s \<noteq> None")
  case True
  then show ?thesis using assms(1)
    by (auto simp: writable_stream_default_controller_advance_queue_if_needed_def winv_def inv_busy_def idle_def)
next
  case False
  note adv = writable_stream_default_controller_advance_queue_if_needed_def
  consider e where "state s = Erroring e" | "queue s = []" "\<And>e. state s \<noteq> Erroring e"
    | x q where "queue s = x # q" "\<And>e. state s \<noteq> Erroring e" by (cases "queue s") blast+
  then show ?thesis
  proof cases
    case 1
    have "\<exists>s'. writable_stream_finish_erroring w e s = Some s' \<and> winv s'"
      by (rule finish_erroring_ok) (use 1 False assms in \<open>auto simp: inv_base_def inv_weak_def inv_state_def idle_def\<close>)
    with 1 False show ?thesis by (simp add: adv)
  next
    case 2
    then have "winv s" using assms(1) by (auto simp: winv_def inv_busy_def)
    with 2 False show ?thesis by (cases "state s") (auto simp: adv)
  next
    case 3
    then have st: "state s = Writable" using assms(1) by (cases "state s") (auto simp: inv_base_def inv_state_def)
    have "idle s" using 3 False assms(1) by (auto simp: inv_base_def inv_weak_def inv_flight_def idle_def)
    with 3 st False process_close_ok [OF assms(1) st, of x q w] process_write_ok [OF assms(1) st, of x q]
    show ?thesis by (auto simp: adv)
  qed
qed

section \<open>The operations keep the invariant\<close>

definition same_core :: "wsys \<Rightarrow> wsys \<Rightarrow> bool" where
  "same_core s t \<longleftrightarrow> close_request t = close_request s \<and> in_flight_write_request t = in_flight_write_request s
     \<and> in_flight_close_request t = in_flight_close_request s \<and> pending_abort_request t = pending_abort_request s
     \<and> state t = state s \<and> write_requests t = write_requests s \<and> queue t = queue s \<and> started t = started s
     \<and> algorithms t = algorithms s \<and> jobs t = jobs s \<and> sink_log t = sink_log s \<and> accepted t = accepted s"

lemma same_core_inv:
  assumes "same_core s t"
  shows "inv_jobs t = inv_jobs s" "inv_flight t = inv_flight s" "inv_abort t = inv_abort s" "inv_state t = inv_state s"
    "inv_busy t = inv_busy s" "owed t = owed s" "prefix (sink_log t) (accepted t) = prefix (sink_log s) (accepted s)"
proof -
  note eqs = assms [unfolded same_core_def]
  show "inv_jobs t = inv_jobs s" "inv_flight t = inv_flight s" "inv_abort t = inv_abort s"
    "inv_busy t = inv_busy s" "owed t = owed s" "prefix (sink_log t) (accepted t) = prefix (sink_log s) (accepted s)"
    by (simp_all add: eqs inv_jobs_def inv_flight_def inv_abort_def alive_def inv_busy_def idle_def owed_def)
  have "inv_queue t = inv_queue s" by (simp add: eqs inv_queue_def)
  then show "inv_state t = inv_state s" by (cases "state s") (simp_all add: eqs inv_state_def)
qed

lemma inv_base_frame:
  assumes "inv_base s" "settles {} s t" "same_core s t"
  shows "inv_base t"
  using assms by (auto simp: inv_base_def inv_weak_def same_core_inv settles_def)

lemma winv_frame:
  assumes "winv s" "settles {} s t" "same_core s t"
  shows "winv t"
  using assms inv_base_frame [of s t] by (simp add: winv_def same_core_inv)

lemma winv_new_promise: "winv s \<Longrightarrow> winv (snd (new_promise v s))"
  by (rule winv_frame [OF _ settles_new]) (simp_all add: same_core_def)

lemma writable_facts:
  assumes "winv s" "state s = Writable"
  shows "alive s" "pending_abort_request s = None" "inv_weak s"
  using assms by (auto simp: winv_def inv_base_def inv_state_def alive_def)

lemma controller_error_ok:
  assumes "inv_weak s" "state s = Writable" "pending_abort_request s = None"
  shows "\<exists>s'. writable_stream_default_controller_error w e s = Some s' \<and> winv s'"
  unfolding writable_stream_default_controller_error_def
  by (rule start_erroring_ok)
    (use assms in \<open>auto simp: writable_stream_default_controller_clear_algorithms_def inv_defs vals_def pend_def\<close>)

lemma error_if_needed_ok:
  assumes "winv s"
  shows "\<exists>s'. writable_stream_default_controller_error_if_needed w e s = Some s' \<and> winv s'"
  using assms controller_error_ok [of s w e] writable_facts [OF assms]
  by (auto simp: writable_stream_default_controller_error_if_needed_def)

lemma update_backpressure_base: "inv_base s \<Longrightarrow> inv_base (update_backpressure_if_open w s)"
  by (auto simp: update_backpressure_if_open_def same_core_def intro: inv_base_frame [OF _ settles_backpressure])

lemma update_backpressure_if_open_fields [simp]:
  "state (update_backpressure_if_open w s) = state s"
  "in_flight_close_request (update_backpressure_if_open w s) = in_flight_close_request s"
  by (simp_all add: update_backpressure_if_open_def)

lemma controller_write_ok:
  assumes "winv s" "state s = Writable" "\<not> writable_stream_close_queued_or_in_flight s" "v \<noteq> Close_Sentinel"
  shows "\<exists>s'. writable_stream_default_controller_write w v sz (snd (writable_stream_add_write_request s)) = Some s' \<and> winv s'"
proof -
  let ?t = "snd (writable_stream_add_write_request s)" let ?p = "length (promises s)"
  have t: "?t = s\<lparr>promises := promises s @ [Pending], write_requests := write_requests s @ [?p], requests := requests s @ [?p]\<rparr>"
    by (simp add: writable_stream_add_write_request_def new_promise_def)
  have w: "inv_weak s" "inv_state s" using assms(1) by (simp_all add: winv_def inv_base_def)
  have "inv_flight ?t" "inv_jobs ?t" "inv_abort ?t" "prefix (sink_log ?t) (accepted ?t)"
    using w(1) assms(3) unfolding t
    by (simp_all add: inv_weak_def inv_flight_def inv_jobs_def inv_abort_def alive_def writable_stream_close_queued_or_in_flight_def)
  moreover have "vals ?t" "pend ?t \<subseteq> owed ?t"
    using w(1) unfolding t by (auto simp: inv_weak_def vals_def pend_def owed_def nth_append less_Suc_eq)
  ultimately have weak: "inv_weak ?t" by (simp add: inv_weak_def)
  show ?thesis
  proof (cases "enqueue_value_with_size v sz ?t")
    case (Err e)
    from controller_error_ok [OF weak, of w e] assms(2) w(2) t Err show ?thesis
      by (auto simp: writable_stream_default_controller_write_def writable_stream_default_controller_error_if_needed_def inv_state_def)
  next
    case (Ok u)
    then obtain r where u: "u = ?t\<lparr>queue := queue s @ [(v, r)], queue_total_size := queue_total_size s + r\<rparr>"
      unfolding t by (auto simp: enqueue_value_with_size_def split: option.splits f64.splits)
    let ?u = "u\<lparr>accepted := accepted u @ [v]\<rparr>"
    from w(2) assms(2,3) obtain cs where cs: "map fst (queue s) = cs" "Close_Sentinel \<notin> set cs"
      "length cs = marked (in_flight_write_request s) + length (write_requests s)"
      "accepted s = sink_log s @ drop (marked (in_flight_write_request s)) cs"
      by (auto simp: inv_state_def inv_queue_def writable_stream_close_queued_or_in_flight_def)
    have "inv_queue ?u"
      unfolding inv_queue_def
      by (rule exI [of _ "cs @ [v]"]) (use cs assms(3,4) in \<open>auto simp: u t writable_stream_close_queued_or_in_flight_def marked_def\<close>)
    moreover have "inv_weak ?u"
    proof -
      have "inv_flight ?u" "inv_jobs ?u" "inv_abort ?u"
        using weak assms(3) unfolding u t
        by (simp_all add: inv_weak_def inv_flight_def inv_jobs_def inv_abort_def alive_def writable_stream_close_queued_or_in_flight_def)
      moreover have "prefix (sink_log ?u) (accepted ?u)" using cs(4) by (simp add: u t)
      moreover have "vals ?u" "pend ?u \<subseteq> owed ?u" using weak unfolding u t by (simp_all add: inv_weak_def vals_def pend_def owed_def)
      ultimately show ?thesis by (simp add: inv_weak_def)
    qed
    ultimately have "inv_base ?u" using w(2) assms(2,3) unfolding u t
      by (auto simp: inv_base_def inv_state_def writable_stream_close_queued_or_in_flight_def)
    from advance_ok [OF update_backpressure_base [OF this, of w], of w] assms(2) Ok show ?thesis
      by (simp add: writable_stream_default_controller_write_def u t)
  next
    case Panic
    then show ?thesis by (auto simp: enqueue_value_with_size_def split: option.splits f64.splits)
  qed
qed

lemma writer_write_ok:
  assumes "winv s" "v \<noteq> Close_Sentinel" "size_fn \<noteq> Panic"
  shows "\<exists>p s'. writer_write i v size_fn s = Some (p, s') \<and> winv s'"
proof -
  have new: "\<exists>p s'. Some (new_promise x t) = Some (p, s') \<and> winv s'" if "winv t" for x t
    using winv_new_promise [OF that, of x] by (metis prod.collapse)
  obtain sz t where t: "writable_stream_default_controller_get_chunk_size (Some i) size_fn s = Some (sz, t)" "winv t"
    using assms(1,3) error_if_needed_ok [OF assms(1), of "Some i"]
    by (cases "if algorithms s then size_fn else Ok (Fin 1)")
      (fastforce simp: writable_stream_default_controller_get_chunk_size_def split: if_splits)+
  let ?q = "snd (writable_stream_add_write_request t)"
  have "\<exists>s'. writable_stream_default_controller_write (Some i) v sz ?q = Some s' \<and> winv s'"
    if "state t = Writable" "\<not> writable_stream_close_queued_or_in_flight t"
    using controller_write_ok [OF t(2) that assms(2)] .
  then have "\<exists>p s'. (let (p, s) = writable_stream_add_write_request t
      in map_option (Pair p) (writable_stream_default_controller_write (Some i) v sz s)) = Some (p, s') \<and> winv s'"
    if "state t = Writable" "\<not> writable_stream_close_queued_or_in_flight t"
    using that by (auto simp: case_prod_beta)
  with new [OF t(2)] new [OF assms(1)] t(1) show ?thesis
    by (simp add: writer_write_def writable_stream_default_writer_write_def split: wstate.splits)
qed

lemma stream_close_ok:
  assumes "winv s" "\<not> writable_stream_close_queued_or_in_flight s"
  shows "\<exists>p s'. writable_stream_close w s = Some (p, s') \<and> winv s'"
proof (cases "alive s")
  case False
  then show ?thesis using winv_new_promise [OF assms(1)]
    by (cases "state s") (auto simp: writable_stream_close_def alive_def new_promise_def)
next
  case True
  let ?p = "length (promises s)"
  define u where "u = s\<lparr>promises := promises s @ [Pending], close_request := Some ?p, requests := requests s @ [?p]\<rparr>"
  define t where "t = with_writer w (\<lambda>i s. if backpressure s \<and> state s = Writable
      then resolve_undefined (ready_promise (writers s ! i)) s else s) u"
  define z where "z = t\<lparr>queue := queue t @ [(Close_Sentinel, 0)], queue_total_size := queue_total_size t\<rparr>"
  have n: "close_request s = None" "in_flight_close_request s = None" "inv_weak s" "inv_state s"
    using assms by (simp_all add: writable_stream_close_queued_or_in_flight_def winv_def inv_base_def)
  have core: "same_core u t" "requests t = requests u"
    by (auto simp: t_def with_writer_def same_core_def split: option.splits)
  have "settles {} u t" by (auto simp: t_def with_writer_def split: option.splits intro: settles_none [OF settles_resolve])
  moreover have "vals u" "pend u \<subseteq> owed u"
    using n by (auto simp: u_def inv_weak_def owed_def vals_def pend_def nth_append less_Suc_eq)
  ultimately have v: "vals t" "pend t \<subseteq> owed t"
    using core by (auto simp: settles_def owed_def same_core_def)
  have f: "close_request t = Some ?p" "queue t = queue s" "state t = state s" "in_flight_write_request t = in_flight_write_request s"
    "in_flight_close_request t = None" "write_requests t = write_requests s" "started t = started s" "jobs t = jobs s"
    "sink_log t = sink_log s" "accepted t = accepted s" "algorithms t = algorithms s" "pending_abort_request t = pending_abort_request s"
    using core n by (simp_all add: same_core_def u_def)
  have "inv_flight z" using n(3) f by (auto simp: z_def inv_weak_def inv_flight_def alive_def)
  moreover have "inv_jobs z" "inv_abort z" "prefix (sink_log z) (accepted z)"
    using n f by (simp_all add: z_def inv_weak_def inv_jobs_def inv_abort_def alive_def)
  moreover have "vals z" "pend z \<subseteq> owed z" using v by (simp_all add: z_def vals_def pend_def owed_def)
  ultimately have weak: "inv_weak z" by (simp add: inv_weak_def)
  have "inv_state z"
  proof (cases "state s = Writable")
    case True
    with n obtain cs where "map fst (queue s) = cs" "Close_Sentinel \<notin> set cs"
      "length cs = marked (in_flight_write_request s) + length (write_requests s)"
      "accepted s = sink_log s @ drop (marked (in_flight_write_request s)) cs"
      by (auto simp: inv_state_def inv_queue_def)
    then have "inv_queue z" by (auto simp: inv_queue_def z_def f)
    with True n f show ?thesis by (simp add: inv_state_def z_def)
  next
    case False
    with \<open>alive s\<close> n f show ?thesis by (auto simp: inv_state_def z_def alive_def)
  qed
  with weak have "inv_base z" by (simp add: inv_base_def)
  from advance_ok [OF this, of w] f have "\<exists>s'. writable_stream_default_controller_advance_queue_if_needed w z = Some s' \<and> winv s'"
    by (simp add: z_def)
  moreover have "writable_stream_close w s = map_option (Pair ?p) (writable_stream_default_controller_advance_queue_if_needed w z)"
    using True by (auto simp: writable_stream_close_def new_promise_def Let_def writable_stream_default_controller_close_def
        enqueue_value_with_size_def is_non_negative_number_def z_def t_def u_def alive_def)
  ultimately show ?thesis by auto
qed

lemma stream_abort_ok:
  assumes "winv s"
  shows "\<exists>p s'. writable_stream_abort w r s = Some (p, s') \<and> winv s'"
proof -
  consider "\<not> alive s" | p b c where "alive s" "pending_abort_request s = Some (p, b, c)" | e where "state s = Erroring e" "pending_abort_request s = None"
    | "state s = Writable" "pending_abort_request s = None" by (cases "pending_abort_request s") (auto simp: alive_def)
  then show ?thesis
  proof cases
    case 1
    then show ?thesis using winv_new_promise [OF assms]
      by (cases "state s") (auto simp: writable_stream_abort_def alive_def new_promise_def)
  next
    case 2
    with assms show ?thesis by (auto simp: writable_stream_abort_def alive_def)
  next
    case 3
    let ?t = "(snd (new_promise Pending s))\<lparr>pending_abort_request := Some (length (promises s), R_Undefined, True)\<rparr>"
    have "winv ?t" using winv_new_promise [OF assms, of Pending] 3
      by (auto simp: winv_def inv_defs inv_busy_def vals_def pend_def)
    with 3 show ?thesis by (simp add: writable_stream_abort_def new_promise_def)
  next
    case 4
    let ?t = "(snd (new_promise Pending s))\<lparr>pending_abort_request := Some (length (promises s), r, False)\<rparr>"
    have "inv_weak ?t" using winv_new_promise [OF assms, of Pending]
      by (auto simp: winv_def inv_defs vals_def pend_def)
    moreover have "algorithms s \<or> in_flight_close_request s \<noteq> None"
      using assms 4 by (auto simp: winv_def inv_base_def inv_state_def)
    ultimately have "\<exists>s'. writable_stream_start_erroring w r ?t = Some s' \<and> winv s'"
      using 4 by (intro start_erroring_ok) (auto simp: alive_def)
    with 4 show ?thesis by (auto simp: writable_stream_abort_def new_promise_def)
  qed
qed

lemma count_remove1: "j \<in> set js \<Longrightarrow> count_list (remove1 j js) k = count_list js k - (if k = j then 1 else 0)"
  by (induction js) (auto simp: count_list_0_iff)

lemma filter_remove1: "j \<in> set js \<Longrightarrow> length (filter P (remove1 j js)) = length (filter P js) - (if P j then 1 else 0)"
proof (induction js)
  case (Cons a js)
  have "P j \<Longrightarrow> j \<in> set js \<Longrightarrow> 0 < length (filter P js)"
    by (auto simp: filter_empty_conv)
  with Cons show ?case by auto
qed simp

lemma start_settled_ok:
  assumes "winv s" "J_Start \<in> set (jobs s)"
  shows "\<exists>s'. start_settled r (s\<lparr>jobs := remove1 J_Start (jobs s)\<rparr>) = Some s' \<and> winv s'"
proof -
  let ?s = "s\<lparr>jobs := remove1 J_Start (jobs s), started := True\<rparr>"
  have b: "inv_base s" using assms(1) by (simp add: winv_def)
  have "count_list (jobs s) J_Start \<noteq> 0" using assms(2) by (simp add: count_list_0_iff)
  with b have ns: "\<not> started s" "count_list (jobs s) J_Start = 1" by (auto simp: inv_defs split: if_splits)
  with b have n: "idle s" "alive s" "inv_state s" by (auto simp: inv_base_def inv_weak_def inv_flight_def idle_def)
  have "inv_jobs ?s" using b ns by (simp add: inv_base_def inv_weak_def inv_jobs_def count_remove1 [OF assms(2)] filter_remove1 [OF assms(2)])
  moreover have "inv_flight ?s" using n by (simp add: inv_flight_def idle_def)
  moreover have "inv_abort ?s" using b by (auto simp: inv_base_def inv_weak_def inv_abort_def alive_def dest!: set_mp [OF set_remove1_subset])
  ultimately have weak: "inv_weak ?s" using b by (simp add: inv_base_def inv_weak_def vals_def pend_def owed_def)
  have "inv_state ?s" using n by (auto simp: inv_state_def alive_def inv_queue_def)
  then have base: "inv_base ?s" using weak by (simp add: inv_base_def)
  have rej: "\<exists>s'. writable_stream_deal_with_rejection (the_writer s) e ?s = Some s' \<and> winv s'" for e
    by (rule deal_with_rejection_ok [OF weak]) (use n in \<open>auto simp: idle_def alive_def inv_state_def\<close>)
  from advance_ok [OF base, of "the_writer s"] n(1) rej show ?thesis
    by (cases r) (simp_all add: start_settled_def idle_def)
qed

lemma write_settled_ok:
  assumes "winv s" "J_Write \<in> set (jobs s)"
  shows "\<exists>s'. write_settled r (s\<lparr>jobs := remove1 J_Write (jobs s)\<rparr>) = Some s' \<and> winv s'"
proof -
  have b: "inv_base s" using assms(1) by (simp add: winv_def)
  have "count_list (jobs s) J_Write \<noteq> 0" using assms(2) by (simp add: count_list_0_iff)
  with b obtain p where p: "in_flight_write_request s = Some p" "count_list (jobs s) J_Write = 1"
    by (auto simp: inv_defs split: if_splits)
  with b have f: "in_flight_close_request s = None" "alive s" "started s" "queue s \<noteq> []"
    by (auto simp: inv_base_def inv_weak_def inv_flight_def)
  then obtain x q where q: "queue s = x # q" by (cases "queue s") auto
  have no_abort: "\<forall>j\<in>set (jobs s). \<not> is_abort j" using b f(2) by (auto simp: inv_base_def inv_weak_def inv_abort_def)
  have weak: "inv_weak t" if "settles {p} s t" "in_flight_write_request t = None" "in_flight_close_request t = None" "started t"
    "jobs t = remove1 J_Write (jobs s)" "sink_log t = sink_log s" "accepted t = accepted s" "requests t = requests s"
    "write_requests t = write_requests s" "close_request t = close_request s" for t
  proof -
    have "inv_jobs t" using b p f that by (simp add: inv_base_def inv_weak_def inv_jobs_def count_remove1 [OF assms(2)] filter_remove1 [OF assms(2)] marked_def)
    moreover have "inv_flight t" using that by (simp add: inv_flight_def)
    moreover have "inv_abort t" using that(5) no_abort by (auto simp: inv_abort_def dest!: set_mp [OF set_remove1_subset])
    moreover have "vals t" "pend t \<subseteq> owed t" using b that p f(1) by (auto simp: inv_base_def inv_weak_def settles_def owed_def)
    ultimately show ?thesis using b that by (simp add: inv_base_def inv_weak_def)
  qed
  show ?thesis
  proof (cases "\<exists>e. r = Err e")
    case True
    then obtain e where r: "r = Err e" by blast
    let ?s = "s\<lparr>jobs := remove1 J_Write (jobs s)\<rparr>"
    let ?u = "if state s = Writable then writable_stream_default_controller_clear_algorithms ?s else ?s"
    let ?t = "reject e p (?u\<lparr>in_flight_write_request := None\<rparr>)"
    have "settles {p} s ?t"
      by (rule settles_trans [OF settles_upd [OF settles_refl] settles_reject, of _ s p, simplified])
        (simp_all add: writable_stream_default_controller_clear_algorithms_def)
    then have "inv_weak ?t"
      by (rule weak) (use f in \<open>simp_all add: writable_stream_default_controller_clear_algorithms_def\<close>)
    then have "\<exists>s'. writable_stream_deal_with_rejection (the_writer s) e ?t = Some s' \<and> winv s'"
      by (rule deal_with_rejection_ok)
        (use f b p in \<open>auto simp: writable_stream_default_controller_clear_algorithms_def idle_def alive_def inv_base_def inv_state_def\<close>)
    then show ?thesis using p
      by (auto simp: r write_settled_def writable_stream_finish_in_flight_write_with_error_def Let_def
          writable_stream_default_controller_clear_algorithms_def)
  next
    case False
    let ?s = "s\<lparr>jobs := remove1 J_Write (jobs s), in_flight_write_request := None\<rparr>"
    define tot where "tot = (if queue_total_size s - snd x < 0 then 0 else queue_total_size s - snd x)"
    let ?t = "(resolve_undefined p ?s)\<lparr>queue := q, queue_total_size := tot\<rparr>"
    have "settles {p} s (resolve_undefined p ?s)"
      by (rule settles_trans [OF settles_upd [OF settles_refl] settles_resolve, of _ s p, simplified]) simp_all
    then have "settles {p} s ?t" by (rule settles_upd) simp_all
    then have w: "inv_weak ?t" by (rule weak) (use f in simp_all)
    have "inv_state ?t"
    proof (cases "state s = Writable")
      case True
      with b f p obtain cs where cs: "map fst (queue s) = cs @ (if close_request s = None then [] else [Close_Sentinel])"
        "Close_Sentinel \<notin> set cs" "length cs = Suc (length (write_requests s))" "accepted s = sink_log s @ drop 1 cs" "algorithms s"
        by (auto simp: inv_base_def inv_state_def inv_queue_def marked_def)
      then obtain c ds where "cs = c # ds" by (cases cs) auto
      with cs q have "inv_queue ?t" by (auto simp: inv_queue_def marked_def)
      with True b f cs show ?thesis by (simp add: inv_base_def inv_state_def)
    next
      case False
      with b f show ?thesis by (auto simp: inv_base_def inv_state_def alive_def)
    qed
    with w have "inv_base ?t" by (simp add: inv_base_def)
    from advance_ok [OF update_backpressure_base [OF this, of "the_writer s"], of "the_writer s"] f
    have "\<exists>s'. writable_stream_default_controller_advance_queue_if_needed (the_writer s) (update_backpressure_if_open (the_writer s) ?t) = Some s' \<and> winv s'"
      by simp
    moreover have "write_settled r (s\<lparr>jobs := remove1 J_Write (jobs s)\<rparr>) = writable_stream_default_controller_advance_queue_if_needed (the_writer s) (update_backpressure_if_open (the_writer s) ?t)"
      using False p q by (cases r) (simp_all add: write_settled_def writable_stream_finish_in_flight_write_def dequeue_value_def Let_def tot_def)
    ultimately show ?thesis by simp
  qed
qed

lemma close_in_flight:
  assumes "winv s" "J_Close w \<in> set (jobs s)"
  obtains p where "in_flight_close_request s = Some p" "in_flight_write_request s = None" "started s" "alive s"
    "queue s = []" "close_request s = None" "write_requests s = []" "sink_log s = accepted s"
    "length (filter is_close (jobs s)) = 1" "\<forall>j\<in>set (jobs s). \<not> is_abort j"
proof -
  have b: "inv_jobs s" "inv_flight s" "inv_abort s" using assms(1) by (simp_all add: winv_def inv_base_def inv_weak_def)
  have "filter is_close (jobs s) \<noteq> []" using assms(2) by (auto simp: filter_empty_conv intro!: bexI [of _ "J_Close w"])
  with b(1) obtain p where p: "in_flight_close_request s = Some p" "length (filter is_close (jobs s)) = 1"
    by (cases "in_flight_close_request s") (auto simp: inv_jobs_def marked_def)
  with b(2) have f: "in_flight_write_request s = None" "started s" "alive s" "queue s = []" "close_request s = None"
    "write_requests s = []" "sink_log s = accepted s" by (auto simp: inv_flight_def)
  with b(3) have "\<forall>j\<in>set (jobs s). \<not> is_abort j" by (auto simp: inv_abort_def)
  with p f that show thesis by blast
qed

lemma close_settled_weak:
  assumes "winv s" "J_Close w \<in> set (jobs s)" "in_flight_close_request s = Some p" "settles {p} s t"
    "jobs t = remove1 (J_Close w) (jobs s)" "in_flight_close_request t = None" "in_flight_write_request t = None"
    "started t" "sink_log t = accepted t" "write_requests t = []" "close_request t = None"
  shows "inv_weak t"
proof -
  have b: "inv_weak s" using assms(1) by (simp add: winv_def inv_base_def)
  from assms(1,2) obtain q where f: "in_flight_write_request s = None" "started s" "close_request s = None" "write_requests s = []"
    "length (filter is_close (jobs s)) = 1" "\<forall>j\<in>set (jobs s). \<not> is_abort j" by (rule close_in_flight)
  have "inv_jobs t" using b f assms
    by (simp add: inv_weak_def inv_jobs_def count_remove1 [OF assms(2)] filter_remove1 [OF assms(2)] marked_def)
  moreover have "inv_flight t" using assms by (simp add: inv_flight_def)
  moreover have "inv_abort t" using assms(5) f(6) by (auto simp: inv_abort_def dest!: set_mp [OF set_remove1_subset])
  moreover have "vals t" "pend t \<subseteq> owed t" using b assms f by (auto simp: inv_weak_def settles_def owed_def)
  ultimately show ?thesis using assms by (simp add: inv_weak_def)
qed

lemma close_settled_ok:
  assumes "winv s" "J_Close w \<in> set (jobs s)"
  shows "\<exists>s'. close_settled w r (s\<lparr>jobs := remove1 (J_Close w) (jobs s)\<rparr>) = Some s' \<and> winv s'"
proof -
  from assms obtain p where p: "in_flight_close_request s = Some p" and f: "in_flight_write_request s = None" "started s" "alive s"
    "queue s = []" "close_request s = None" "write_requests s = []" "sink_log s = accepted s" by (rule close_in_flight)
  let ?s = "s\<lparr>jobs := remove1 (J_Close w) (jobs s), in_flight_close_request := None\<rparr>"
  have weak: "inv_weak t" if "settles {p} s t" "same_core (?s\<lparr>state := state t, pending_abort_request := pending_abort_request t\<rparr>) t" for t
    by (rule close_settled_weak [OF assms p that(1)]) (use that(2) f in \<open>auto simp: same_core_def\<close>)
  show ?thesis
  proof (cases "\<exists>e. r = Err e")
    case True
    then obtain e where r: "r = Err e" by blast
    define t where "t = (case pending_abort_request s of
        Some (q, _, _) \<Rightarrow> reject e q ((reject e p ?s)\<lparr>pending_abort_request := None\<rparr>) | None \<Rightarrow> reject e p ?s)"
    have "settles {p} s (reject e p ?s)"
      by (rule settles_trans [OF settles_upd [OF settles_refl] settles_reject, of _ s p, simplified]) simp_all
    then have "settles {p} s t"
      by (auto simp: t_def split: option.splits intro: settles_then(2))
    then have "inv_weak t" by (rule weak) (auto simp: t_def same_core_def split: option.splits)
    moreover have "idle t" "alive t" "started t" "pending_abort_request t = None"
      using f by (auto simp: t_def idle_def alive_def split: option.splits)
    ultimately have "\<exists>s'. writable_stream_deal_with_rejection w e t = Some s' \<and> winv s'"
      by (intro deal_with_rejection_ok) auto
    then show ?thesis using p
      by (simp add: r close_settled_def writable_stream_finish_in_flight_close_with_error_def t_def Let_def)
  next
    case False
    define u where "u = (case (state s, pending_abort_request s) of
        (Erroring _, Some (q, _, _)) \<Rightarrow> resolve_undefined q ((resolve_undefined p ?s)\<lparr>pending_abort_request := None\<rparr>)
      | _ \<Rightarrow> resolve_undefined p ?s)"
    define t where "t = with_writer w (\<lambda>i s. resolve_undefined (closed_promise (writers s ! i)) s) (u\<lparr>state := Closed\<rparr>)"
    have "settles {p} s (resolve_undefined p ?s)"
      by (rule settles_trans [OF settles_upd [OF settles_refl] settles_resolve, of _ s p, simplified]) simp_all
    then have "settles {p} s u"
      by (auto simp: u_def split: wstate.splits option.splits intro: settles_then(1))
    then have st: "settles {p} s t"
      by (auto simp: t_def with_writer_def split: option.splits intro: settles_then(1) settles_upd)
    have c: "same_core (?s\<lparr>state := Closed, pending_abort_request := None\<rparr>) t"
      using f assms(1) by (auto simp: t_def u_def same_core_def with_writer_def winv_def inv_base_def inv_state_def alive_def
          split: wstate.splits option.splits)
    from st have "inv_weak t" by (rule weak) (use c in \<open>auto simp: same_core_def\<close>)
    with c f have "winv t" by (auto simp: same_core_def winv_def inv_base_def inv_state_def inv_busy_def)
    moreover have "close_settled w r (s\<lparr>jobs := remove1 (J_Close w) (jobs s)\<rparr>) = Some t" using False p
      by (cases r) (simp_all add: close_settled_def writable_stream_finish_in_flight_close_def t_def u_def Let_def cong: wstate.case_cong)
    ultimately show ?thesis by simp
  qed
qed

lemma abort_settled_ok:
  assumes "winv s" "J_Abort p \<in> set (jobs s)"
  shows "\<exists>s'. abort_settled p r (s\<lparr>jobs := remove1 (J_Abort p) (jobs s)\<rparr>) = Some s' \<and> winv s'"
proof -
  have b: "inv_weak s" "inv_state s" using assms(1) by (simp_all add: winv_def inv_base_def)
  then have na: "\<not> alive s" using assms(2) bexI [of is_abort "J_Abort p" "set (jobs s)"] by (auto simp: inv_weak_def inv_abort_def)
  then have i: "idle s" "started s" using b by (auto simp: inv_weak_def inv_flight_def idle_def)
  define t where "t = (case r of Err e \<Rightarrow> reject e p (s\<lparr>jobs := remove1 (J_Abort p) (jobs s)\<rparr>)
    | _ \<Rightarrow> resolve_undefined p (s\<lparr>jobs := remove1 (J_Abort p) (jobs s)\<rparr>))"
  let ?u = "writable_stream_reject_close_and_closed_promise_if_needed (the_writer t) t"
  have "settles {} s t"
    by (cases r) (auto simp: t_def intro: settles_then [OF settles_refl])
  from settles_trans [OF this settles_reject_close [of t "the_writer t"]]
  have st: "settles (set_option (close_request t)) s ?u" by simp
  have c: "same_core (s\<lparr>jobs := remove1 (J_Abort p) (jobs s)\<rparr>) t" by (cases r) (simp_all add: t_def same_core_def)
  have "inv_jobs ?u" using b c
    by (simp add: inv_weak_def inv_jobs_def same_core_def count_remove1 [OF assms(2)] filter_remove1 [OF assms(2)])
  moreover have "inv_flight ?u" "inv_abort ?u" using c i na by (auto simp: inv_flight_def inv_abort_def same_core_def idle_def alive_def)
  moreover have "vals ?u" "pend ?u \<subseteq> owed ?u" using b st c i by (auto simp: inv_weak_def settles_def owed_def same_core_def idle_def)
  ultimately have "inv_weak ?u" using b c by (simp add: inv_weak_def same_core_def)
  moreover have "inv_state ?u" "inv_busy ?u" using b na c by (auto simp: inv_state_def inv_busy_def same_core_def alive_def split: wstate.splits)
  ultimately have "winv ?u" by (simp add: winv_def inv_base_def)
  moreover have "abort_settled p r (s\<lparr>jobs := remove1 (J_Abort p) (jobs s)\<rparr>) = Some ?u" by (simp add: abort_settled_def t_def [symmetric] Let_def)
  ultimately show ?thesis by simp
qed

lemma get_writer_ok:
  assumes "winv s"
  shows "\<exists>s'. wexec Op_Get_Writer s = Some s' \<and> winv s'"
proof (cases "is_writable_stream_locked s")
  case True
  with assms show ?thesis by (simp add: wexec_def set_up_writable_stream_default_writer_def)
next
  case False
  obtain r c where rc: "(case state s of
       Writable \<Rightarrow> (if \<not> writable_stream_close_queued_or_in_flight s \<and> backpressure s then Pending else Fulfilled, Pending)
     | Erroring e \<Rightarrow> (Rejected e, Pending) | Closed \<Rightarrow> (Fulfilled, Fulfilled) | Errored e \<Rightarrow> (Rejected e, Rejected e)) = (r, c)"
    by (meson surj_pair)
  let ?u = "snd (new_promise c (snd (new_promise r s)))"
  have "winv ?u" using assms by (intro winv_new_promise)
  then have "winv (?u\<lparr>writers := ws, the_writer := w\<rparr>)" for ws w
    by (rule winv_frame) (auto simp: same_core_def intro: settles_upd [OF settles_refl])
  with False rc show ?thesis
    by (simp add: wexec_def set_up_writable_stream_default_writer_def new_promise_def Let_def)
qed

lemma release_ok:
  assumes "winv s"
  shows "winv (release_lock i s)"
proof -
  let ?e = "R_Type_Error ''Writer was released and can no longer be used to monitor the stream's closedness''"
  let ?t = "writable_stream_default_writer_ensure_closed_promise_rejected ?e i
      (writable_stream_default_writer_ensure_ready_promise_rejected ?e i s)"
  have "settles {} s ?t" using settles_trans [OF settles_ready settles_closed, of s ?e i ?e i] by simp
  then have "settles {} s (?t\<lparr>the_writer := w, writers := ws\<rparr>)" for w ws by (rule settles_upd) simp_all
  then have "winv (?t\<lparr>the_writer := w, writers := ws\<rparr>)" for w ws
    by (rule winv_frame [OF assms]) (simp add: same_core_def)
  with assms show ?thesis by (simp add: release_lock_def writable_stream_default_writer_release_def Let_def)
qed

lemma settle_job_ok:
  assumes "winv s"
  shows "\<exists>s'. settle_job j r s = Some s' \<and> winv s'"
  using assms start_settled_ok [OF assms, of r] write_settled_ok [OF assms, of r] close_settled_ok [OF assms, of _ r]
    abort_settled_ok [OF assms, of _ r]
  by (cases j) (auto simp: settle_job_def)

text \<open>The chunk of \<open>write\<close> is not the close sentinel (see \<open>sentinel_chunk_panics\<close>), and the size function
  of the strategy returns or throws.\<close>

fun allowed :: "wop \<Rightarrow> bool" where
  "allowed (Op_Write _ v sz) \<longleftrightarrow> v \<noteq> Close_Sentinel \<and> sz \<noteq> Panic"
| "allowed _ \<longleftrightarrow> True"

lemma promise_ok: "winv s \<Longrightarrow> \<exists>s'. (\<exists>p. new_promise v s = (p, s')) \<and> winv s'"
  using winv_new_promise [of s v] by (metis prod.collapse)

lemma wexec_ok:
  assumes "allowed x" "winv s"
  shows "\<exists>s'. wexec x s = Some s' \<and> winv s'"
proof (cases x)
  case Op_Get_Writer
  with get_writer_ok [OF assms(2)] show ?thesis by simp
next
  case (Op_Write i v sz)
  with assms writer_write_ok [OF assms(2), of v sz i] show ?thesis by (auto simp: wexec_def)
next
  case (Op_Writer_Close i)
  with assms(2) stream_close_ok [OF assms(2), of "Some i"] promise_ok [OF assms(2)] show ?thesis
    by (auto simp: wexec_def writer_close_def)
next
  case (Op_Writer_Abort i r)
  with assms(2) stream_abort_ok [OF assms(2), of "Some i" r] promise_ok [OF assms(2)] show ?thesis
    by (auto simp: wexec_def writer_abort_def)
next
  case (Op_Release i)
  with assms(2) release_ok [OF assms(2), of i] show ?thesis by (simp add: wexec_def)
next
  case Op_Close
  with stream_close_ok [OF assms(2), of None] promise_ok [OF assms(2)] show ?thesis by (auto simp: wexec_def stream_close_def)
next
  case (Op_Abort r)
  with stream_abort_ok [OF assms(2), of None r] promise_ok [OF assms(2)] show ?thesis by (auto simp: wexec_def stream_abort_def)
next
  case (Op_Error e)
  with assms(2) writable_facts [OF assms(2)] controller_error_ok [of s "the_writer s" e] show ?thesis
    by (auto simp: wexec_def controller_error_def)
next
  case (Op_Settle j r)
  with settle_job_ok [OF assms(2)] show ?thesis by (simp add: wexec_def)
qed

interpretation wm: machine wexec allowed winv
  by unfold_locales (rule wexec_ok)

section \<open>The sink that settles its promises\<close>

text \<open>The settlements a stream can still ask its sink for. Every settlement takes one of them away.\<close>

definition work :: "wsys \<Rightarrow> nat" where
  "work s = length (jobs s) + length (write_requests s) + marked (close_request s) + (if pending_abort_request s = None then 0 else 1)"

lemma work_cong:
  "jobs t = jobs s \<Longrightarrow> write_requests t = write_requests s \<Longrightarrow> close_request t = close_request s
   \<Longrightarrow> pending_abort_request t = pending_abort_request s \<Longrightarrow> work t = work s"
  by (simp add: work_def)

lemma work_reject_close: "work (writable_stream_reject_close_and_closed_promise_if_needed w s) \<le> work s"
  by (simp add: work_def marked_def)

lemma work_finish_erroring: "writable_stream_finish_erroring w e s = Some s' \<Longrightarrow> work s' \<le> work s \<and> requests s' = requests s"
  by (auto simp: writable_stream_finish_erroring_def Let_def abort_steps_def work_def marked_def reset_queue_def
      split: option.splits if_splits)

lemma work_start_erroring:
  assumes "writable_stream_start_erroring w e s = Some s'"
  shows "work s' \<le> work s \<and> requests s' = requests s"
proof -
  let ?t = "with_writer w (writable_stream_default_writer_ensure_ready_promise_rejected e) (s\<lparr>state := Erroring e\<rparr>)"
  have "work ?t = work s" by (rule work_cong) (simp_all add: with_writer_def split: option.splits)
  moreover have "requests ?t = requests s" by (simp add: with_writer_def split: option.splits)
  ultimately show ?thesis using assms work_finish_erroring [of w e ?t s']
    by (auto simp: writable_stream_start_erroring_def Let_def split: if_splits)
qed

lemma work_deal: "writable_stream_deal_with_rejection w e s = Some s' \<Longrightarrow> work s' \<le> work s \<and> requests s' = requests s"
  by (auto simp: writable_stream_deal_with_rejection_def split: wstate.splits dest: work_start_erroring work_finish_erroring)

lemma work_process_close: "writable_stream_default_controller_process_close w s = Some s' \<Longrightarrow> work s' \<le> work s \<and> requests s' = requests s"
  by (auto simp: writable_stream_default_controller_process_close_def writable_stream_mark_close_request_in_flight_def
      dequeue_value_def writable_stream_default_controller_clear_algorithms_def work_def marked_def Let_def
      split: option.splits list.splits if_splits)

lemma work_process_write: "writable_stream_default_controller_process_write v s = Some s' \<Longrightarrow> work s' \<le> work s \<and> requests s' = requests s"
  by (auto simp: writable_stream_default_controller_process_write_def writable_stream_mark_first_write_request_in_flight_def
      work_def split: option.splits list.splits if_splits)

lemma work_advance: "writable_stream_default_controller_advance_queue_if_needed w s = Some s' \<Longrightarrow> work s' \<le> work s \<and> requests s' = requests s"
  by (auto simp: writable_stream_default_controller_advance_queue_if_needed_def split: if_splits wstate.splits list.splits
      dest: work_finish_erroring work_process_close work_process_write)

lemma work_started: "start_settled r s = Some s' \<Longrightarrow> work s' \<le> work s \<and> requests s' = requests s"
  using work_cong [of "s\<lparr>started := True\<rparr>" s]
  by (cases r) (auto simp: start_settled_def Let_def dest!: work_deal work_advance)

lemma work_written:
  assumes "write_settled r s = Some s'"
  shows "work s' \<le> work s \<and> requests s' = requests s"
proof (cases "\<exists>e. r = Err e")
  case True
  then obtain e where r: "r = Err e" by blast
  let ?u = "if state s = Writable then writable_stream_default_controller_clear_algorithms s else s"
  from assms r obtain p where "writable_stream_deal_with_rejection (the_writer ?u) e (reject e p (?u\<lparr>in_flight_write_request := None\<rparr>)) = Some s'"
    by (auto simp: write_settled_def Let_def writable_stream_finish_in_flight_write_with_error_def split: option.splits)
  from work_deal [OF this] show ?thesis
    using work_cong [of "reject e p (?u\<lparr>in_flight_write_request := None\<rparr>)" s]
    by (simp add: writable_stream_default_controller_clear_algorithms_def split: if_splits)
next
  case False
  with assms obtain u t where u: "writable_stream_finish_in_flight_write s = Some u" "dequeue_value u = Some t"
    "writable_stream_default_controller_advance_queue_if_needed (the_writer t) (update_backpressure_if_open (the_writer t) t) = Some s'"
    by (cases r) (auto simp: write_settled_def split: Option.bind_splits)
  have "work u = work s \<and> requests u = requests s" using u(1)
    by (auto simp: writable_stream_finish_in_flight_write_def work_def split: option.splits)
  moreover have "work t = work u \<and> requests t = requests u" using u(2) by (auto simp: dequeue_value_def Let_def work_def split: list.splits)
  moreover have "work (update_backpressure_if_open (the_writer t) t) = work t"
    by (rule work_cong) (simp_all add: update_backpressure_if_open_def)
  moreover have "requests (update_backpressure_if_open (the_writer t) t) = requests t"
    by (simp add: update_backpressure_if_open_def)
  ultimately show ?thesis using work_advance [OF u(3)] by simp
qed

lemma work_closed:
  assumes "close_settled w r s = Some s'"
  shows "work s' \<le> work s \<and> requests s' = requests s"
proof (cases "\<exists>e. r = Err e")
  case True
  then obtain e where r: "r = Err e" by blast
  from assms obtain t where "writable_stream_deal_with_rejection w e t = Some s'" "work t \<le> work s" "requests t = requests s"
    by (auto simp: r close_settled_def writable_stream_finish_in_flight_close_with_error_def Let_def work_def split: option.splits)
  with work_deal [of w e t s'] show ?thesis by simp
next
  case False
  with assms have "writable_stream_finish_in_flight_close w s = Some s'" by (cases r) (auto simp: close_settled_def)
  then show ?thesis
    by (auto simp: writable_stream_finish_in_flight_close_def Let_def with_writer_def work_def split: option.splits wstate.splits)
qed

lemma work_aborted: "abort_settled p r s = Some s' \<Longrightarrow> work s' \<le> work s \<and> requests s' = requests s"
  by (cases r) (auto simp: abort_settled_def work_def marked_def)

lemma settle_job_work:
  assumes "settle_job j r s = Some s'" "j \<in> set (jobs s)"
  shows "work s' < work s \<and> requests s' = requests s"
proof -
  have "work (s\<lparr>jobs := remove1 j (jobs s)\<rparr>) < work s"
    using assms(2) length_pos_if_in_set [of j "jobs s"] by (simp add: work_def length_remove1)
  moreover have "work s' \<le> work (s\<lparr>jobs := remove1 j (jobs s)\<rparr>) \<and> requests s' = requests s"
    using assms by (cases j) (auto simp: settle_job_def dest: work_started work_written work_closed work_aborted)
  ultimately show ?thesis by simp
qed

text \<open>The sink settles what it owes, in any order and with any results.\<close>

primrec settle_all :: "(nat \<times> (reason, unit) res) list \<Rightarrow> wsys \<Rightarrow> wsys option" where
  "settle_all [] s = Some s"
| "settle_all (x # xs) s = (if jobs s = [] then Some s
     else case settle_job (jobs s ! (fst x mod length (jobs s))) (snd x) s of None \<Rightarrow> None | Some s' \<Rightarrow> settle_all xs s')"

lemma settle_all_ok:
  "winv s \<Longrightarrow> work s \<le> length xs \<Longrightarrow> \<exists>s'. settle_all xs s = Some s' \<and> winv s' \<and> jobs s' = [] \<and> requests s' = requests s"
proof (induction xs arbitrary: s)
  case (Cons x xs)
  show ?case
  proof (cases "jobs s = []")
    case False
    let ?j = "jobs s ! (fst x mod length (jobs s))"
    from settle_job_ok [OF Cons.prems(1)] obtain t where t: "settle_job ?j (snd x) s = Some t" "winv t" by blast
    from settle_job_work [OF t(1)] False Cons.prems(2) have "work t \<le> length xs" "requests t = requests s" by simp_all
    from Cons.IH [OF t(2) this(1)] this(2) t(1) False show ?thesis by simp
  qed (use Cons.prems in simp)
qed (simp add: work_def)

lemma quiet_settled:
  assumes "winv s" "jobs s = []"
  shows "\<forall>p\<in>set (requests s). promises s ! p \<noteq> Pending"
proof -
  have i: "started s" "idle s" using assms by (auto simp: winv_def inv_base_def inv_weak_def inv_jobs_def marked_def idle_def split: if_splits)
  then have "owed s = {}" using assms
    by (auto simp: winv_def inv_base_def inv_weak_def inv_state_def inv_busy_def inv_queue_def owed_def idle_def split: wstate.splits if_splits)
  then show ?thesis using assms by (auto simp: winv_def inv_base_def inv_weak_def pend_def)
qed

section \<open>Properties\<close>

text \<open>C18: no sequence of calls on a writable stream, its writers and its controller, interleaved with any
  settlements of the promises of the sink, reaches a panic of the stream: every \<open>expect\<close> and \<open>panic!\<close> of
  the controller and the stream is out of reach, as long as no chunk is the close sentinel.\<close>

theorem writable_stream_never_panics:
  assumes "list_all allowed xs"
  shows "run wexec xs (set_up_writable_stream_default_controller hwm) \<noteq> None"
  using wm.run_keeps [OF assms winv_start] by fastforce

text \<open>C19: the sink of a writable stream is given the accepted chunks in the order of the writes, none
  lost and none twice, and all of them before the stream is closed.\<close>

theorem sink_gets_accepted_chunks:
  assumes "list_all allowed xs" "run wexec xs (set_up_writable_stream_default_controller hwm) = Some s"
  shows "prefix (sink_log s) (accepted s) \<and> (state s = Closed \<longrightarrow> sink_log s = accepted s)"
  using wm.run_keeps [OF assms(1) winv_start, of hwm] assms(2)
  by (auto simp: winv_def inv_base_def inv_weak_def inv_state_def)

text \<open>C20: once the sink settles its promises, in any order and with any results, no promise that
  \<open>write\<close> or \<open>close\<close> handed out stays pending, after at most \<open>work s\<close> settlements.\<close>

theorem requests_settle:
  assumes "list_all allowed xs" "run wexec xs (set_up_writable_stream_default_controller hwm) = Some s"
    "work s \<le> length rs"
  shows "\<exists>t. settle_all rs s = Some t \<and> jobs t = [] \<and> (\<forall>p\<in>set (requests s). promises t ! p \<noteq> Pending)"
proof -
  have "winv s" using wm.run_keeps [OF assms(1) winv_start, of hwm] assms(2) by auto
  from settle_all_ok [OF this assms(3)] quiet_settled show ?thesis by fastforce
qed

text \<open>A writer writes two chunks and closes; the sink fulfills its promises one after the other.\<close>

definition demo :: "wop list" where
  "demo = [Op_Get_Writer, Op_Write 0 (Chunk 7) (Ok (Fin 1)), Op_Write 0 (Chunk 8) (Ok (Fin 2)), Op_Writer_Close 0,
     Op_Settle J_Start (Ok ())]"

definition demo_end :: "wop list" where
  "demo_end = demo @ [Op_Settle J_Write (Ok ()), Op_Settle J_Write (Ok ()), Op_Settle (J_Close (Some 0)) (Ok ())]"

lemma demo_allowed: "list_all allowed demo" "list_all allowed demo_end"
  by (simp_all add: demo_def demo_end_def)

theorem writable_stream_never_panics_witness:
  "list_all allowed demo_end \<and> run wexec demo_end (set_up_writable_stream_default_controller (Fin 1)) \<noteq> None"
  using writable_stream_never_panics [OF demo_allowed(2)] demo_allowed(2) by simp

definition demo_state :: wsys where
  "demo_state = the (run wexec demo (set_up_writable_stream_default_controller (Fin 1)))"

lemma demo_run: "run wexec demo (set_up_writable_stream_default_controller (Fin 1)) = Some demo_state"
  using wm.run_keeps [OF demo_allowed(1) winv_start, of "Fin 1"] by (auto simp: demo_state_def)

lemma demo_facts: "work demo_state = 3 \<and> requests demo_state = [2, 4, 5]"
  unfolding demo_state_def demo_def by code_simp

definition closed_state :: wsys where
  "closed_state = the (run wexec demo_end (set_up_writable_stream_default_controller (Fin 1)))"

lemma closed_run: "run wexec demo_end (set_up_writable_stream_default_controller (Fin 1)) = Some closed_state"
  using wm.run_keeps [OF demo_allowed(2) winv_start, of "Fin 1"] by (auto simp: closed_state_def)

lemma closed_facts: "state closed_state = Closed \<and> accepted closed_state = [Chunk 7, Chunk 8]"
  unfolding closed_state_def demo_end_def demo_def by code_simp

theorem sink_gets_accepted_chunks_witness:
  "run wexec demo_end (set_up_writable_stream_default_controller (Fin 1)) = Some closed_state
   \<and> state closed_state = Closed \<and> sink_log closed_state = [Chunk 7, Chunk 8]"
  using sink_gets_accepted_chunks [OF demo_allowed(2) closed_run] closed_run closed_facts by simp

theorem requests_settle_witness:
  "run wexec demo (set_up_writable_stream_default_controller (Fin 1)) = Some demo_state \<and> requests demo_state = [2, 4, 5]
   \<and> (\<exists>t. settle_all [(0, Ok ()), (1, Err R_Undefined), (0, Ok ())] demo_state = Some t
        \<and> (\<forall>p\<in>{2, 4, 5}. promises t ! p \<noteq> Pending))"
  using requests_settle [OF demo_allowed(1) demo_run, of "[(0, Ok ()), (1, Err R_Undefined), (0, Ok ())]"] demo_run demo_facts
  by auto

text \<open>The close sentinel is the registered symbol of that name, so a program can write it as a chunk:
  the controller then starts a close that nobody requested, and panics.\<close>

lemma sentinel_chunk_panics:
  "run wexec [Op_Get_Writer, Op_Write 0 Close_Sentinel (Ok (Fin 1)), Op_Settle J_Start (Ok ())]
     (set_up_writable_stream_default_controller (Fin 1)) = None"
  by code_simp

text \<open>The reaction to the promise of a close keeps the writer of the time of the call: a writer that took
  the lock while the close was in flight never sees its closed promise settle.\<close>

lemma late_writer_never_closed:
  "map_option (\<lambda>s. (state s, promises s ! closed_promise (writers s ! 1)))
     (run wexec [Op_Get_Writer, Op_Writer_Close 0, Op_Settle J_Start (Ok ()), Op_Release 0, Op_Get_Writer,
        Op_Settle (J_Close (Some 0)) (Ok ())]
      (set_up_writable_stream_default_controller (Fin 1)))
   = Some (Closed, Pending)"
  by code_simp

end
