(* ===== verification/Buffer_Module.thy ===== *)
theory Buffer_Module
  imports Encoding
begin

text \<open>
  The \<open>Buffer\<close> class, \<open>raster_runtime_buffer/src/buffer.rs\<close>, with the views of
  \<open>raster_runtime_utils/src/bytes.rs\<close> it stands on. Array buffers live in a store, views are ranges of
  an array buffer, so that two views can share bytes; a detached buffer has no bytes. The conversion of
  an index argument may run user code (\<open>valueOf\<close>), which can change the store: it is a parameter.
\<close>

section \<open>Values, array buffers and views\<close>

type_synonym store = "byte list option list"

record view =
  v_buf :: nat
  v_off :: nat
  v_len :: nat

text \<open>\<open>Buffer\<close> is a subclass of \<open>Uint8Array\<close>; of the other typed arrays only \<open>Uint8ClampedArray\<close> is told apart.\<close>

datatype view_class = Buffer_View | Uint8_View | Typed_View | Clamped_View | Data_View

datatype jsval = J_Undefined | J_Null | J_Int int | J_Float "64 word" | J_Big int | J_String rstring
  | J_Array "jsval list" | J_View view_class view | J_ArrayBuffer nat | J_Other nat

datatype js_error = Type_Error string | Range_Error string | Message string | Thrown nat

definition buffer_bytes :: "store \<Rightarrow> nat \<Rightarrow> byte list option" where
  "buffer_bytes st b = (if b < length st then st ! b else None)"

text \<open>A view that does not fit its buffer, or whose buffer is detached, has no region.\<close>

definition as_raw :: "store \<Rightarrow> view \<Rightarrow> byte list option" where
  "as_raw st v = (case buffer_bytes st (v_buf v) of
       None \<Rightarrow> None
     | Some bs \<Rightarrow> if v_off v + v_len v \<le> length bs then Some (take (v_len v) (drop (v_off v) bs)) else None)"

definition ERROR_MSG_NOT_ARRAY_BUFFER :: string where
  "ERROR_MSG_NOT_ARRAY_BUFFER = ''Not an ArrayBuffer''"

definition ERROR_MSG_ARRAY_BUFFER_DETACHED :: string where
  "ERROR_MSG_ARRAY_BUFFER_DETACHED = ''ArrayBuffer is detached''"

definition DETACHED :: js_error where
  "DETACHED = Message ERROR_MSG_ARRAY_BUFFER_DETACHED"

text \<open>
  What the engine bindings do: the conversion of an array element to a byte, of a value to a string, of a
  value to a number (it may run user code, which changes the store), and the bytes of a typed array
  whose buffer is detached.
\<close>

record host =
  h_u8 :: "jsval \<Rightarrow> (js_error, byte) res"
  h_string :: "jsval \<Rightarrow> rstring option"
  h_number :: "jsval \<Rightarrow> store \<Rightarrow> (js_error, 64 word) res \<times> store"
  h_detached :: "(js_error, byte list) res"

definition or_throw :: "(string, 'a) res \<Rightarrow> (js_error, 'a) res" where
  "or_throw r = (case r of Ok x \<Rightarrow> Ok x | Err e \<Rightarrow> Err (Message e) | Panic \<Rightarrow> Panic)"

definition checked_add :: "nat \<Rightarrow> nat \<Rightarrow> nat option" where
  "checked_add a b = (if a + b < 2 ^ 64 then Some (a + b) else None)"

section \<open>Numbers\<close>

text \<open>A double is its bit pattern: sign, 11 bits of exponent, 52 bits of mantissa.\<close>

definition f64_make :: "bool \<Rightarrow> nat \<Rightarrow> nat \<Rightarrow> 64 word" where
  "f64_make s e m = word_of_nat ((if s then 2 ^ 63 else 0) + e * 2 ^ 52 + m)"

definition f64_sign :: "64 word \<Rightarrow> bool" where
  "f64_sign x \<longleftrightarrow> 2 ^ 63 \<le> unat x"

definition f64_exp :: "64 word \<Rightarrow> nat" where
  "f64_exp x = unat x div 2 ^ 52 mod 2 ^ 11"

definition f64_mant :: "64 word \<Rightarrow> nat" where
  "f64_mant x = unat x mod 2 ^ 52"

text \<open>The magnitude of a finite double is \<open>f64_sig x * 2 ^ (f64_scale x)\<close>, with a scale of at least -1074.\<close>

definition f64_sig :: "64 word \<Rightarrow> nat" where
  "f64_sig x = (if f64_exp x = 0 then f64_mant x else 2 ^ 52 + f64_mant x)"

definition f64_scale :: "64 word \<Rightarrow> int" where
  "f64_scale x = (if f64_exp x = 0 then - 1074 else int (f64_exp x) - 1075)"

definition f64_finite :: "64 word \<Rightarrow> bool" where
  "f64_finite x \<longleftrightarrow> f64_exp x \<noteq> 2047"

definition f64_nan :: "64 word \<Rightarrow> bool" where
  "f64_nan x \<longleftrightarrow> f64_exp x = 2047 \<and> f64_mant x \<noteq> 0"

text \<open>The integer part of the magnitude, and whether there is a fraction.\<close>

definition f64_whole :: "64 word \<Rightarrow> nat" where
  "f64_whole x = (if 0 \<le> f64_scale x then f64_sig x * 2 ^ nat (f64_scale x) else f64_sig x div 2 ^ nat (- f64_scale x))"

definition f64_fract :: "64 word \<Rightarrow> bool" where
  "f64_fract x \<longleftrightarrow> f64_scale x < 0 \<and> f64_sig x mod 2 ^ nat (- f64_scale x) \<noteq> 0"

definition clamp_i64 :: "int \<Rightarrow> int" where
  "clamp_i64 n = max (- (2 ^ 63)) (min (2 ^ 63 - 1) n)"

text \<open>The cast \<open>as i64\<close> truncates and saturates; no number becomes 0.\<close>

definition f64_to_i64 :: "64 word \<Rightarrow> int" where
  "f64_to_i64 x =
     (if f64_nan x then 0
      else if \<not> f64_finite x then (if f64_sign x then - (2 ^ 63) else 2 ^ 63 - 1)
      else clamp_i64 (if f64_sign x then - int (f64_whole x) else int (f64_whole x)))"

fun bit_len :: "nat \<Rightarrow> nat" where
  "bit_len n = (if n = 0 then 0 else Suc (bit_len (n div 2)))"

declare bit_len.simps [simp del]

text \<open>An integer below \<open>2 ^ 53\<close> as a double; the conversion is exact.\<close>

definition f64_of_int :: "int \<Rightarrow> 64 word" where
  "f64_of_int n =
     (if n = 0 then 0
      else let a = nat \<bar>n\<bar>; e = bit_len a - 1
        in f64_make (n < 0) (1023 + e) ((a - 2 ^ e) * 2 ^ (52 - e)))"

text \<open>The cast to a single rounds to the nearest value, and to an even mantissa in the middle.\<close>

definition round_even :: "nat \<Rightarrow> nat \<Rightarrow> nat" where
  "round_even m k =
     (let q = m div 2 ^ k; r = m mod 2 ^ k
      in if 2 * r > 2 ^ k \<or> (2 * r = 2 ^ k \<and> q mod 2 = 1) then Suc q else q)"

definition f64_to_f32 :: "64 word \<Rightarrow> 32 word" where
  "f64_to_f32 x =
     (let s = (if f64_sign x then 2 ^ 31 else 0); e = f64_exp x; m = f64_mant x
      in if e = 2047 then word_of_nat (s + 255 * 2 ^ 23 + (if m = 0 then 0 else 2 ^ 22 + m div 2 ^ 29 mod 2 ^ 22))
         else if e \<le> 896 then
           (if e < 873 then word_of_nat s else word_of_nat (s + round_even (2 ^ 52 + m) (926 - e)))
         else word_of_nat (s + min (255 * 2 ^ 23) ((e - 897) * 2 ^ 23 + round_even (2 ^ 52 + m) 29)))"

definition f32_to_f64 :: "32 word \<Rightarrow> 64 word" where
  "f32_to_f64 y =
     (let n = unat y; s = (2 ^ 31 \<le> n); e = n div 2 ^ 23 mod 2 ^ 8; m = n mod 2 ^ 23
      in if e = 255 then f64_make s 2047 (if m = 0 then 0 else 2 ^ 51 + m mod 2 ^ 22 * 2 ^ 29)
         else if e = 0 then
           (if m = 0 then f64_make s 0 0
            else let b = bit_len m - 1 in f64_make s (874 + b) ((m - 2 ^ b) * 2 ^ (52 - b)))
         else f64_make s (e + 896) (m * 2 ^ 29))"

text \<open>\<open>Value::as_number\<close>: the number of an integer or a double, as the double's bits.\<close>

definition as_number :: "jsval \<Rightarrow> 64 word option" where
  "as_number v = (case v of J_Int i \<Rightarrow> Some (f64_of_int i) | J_Float x \<Rightarrow> Some x | _ \<Rightarrow> None)"

section \<open>Bytes of JS values\<close>

datatype object_bytes = OB_Typed view | OB_View view | OB_ArrayBuffer nat | OB_Vec "byte list"

text \<open>A \<open>DataView\<close> of a detached buffer answers no getter; a detached clamped array has offset and length 0.\<close>

definition from_array_buffer :: "store \<Rightarrow> jsval \<Rightarrow> object_bytes option" where
  "from_array_buffer st x =
     (case x of
        J_View Data_View v \<Rightarrow> if buffer_bytes st (v_buf v) = None then None else Some (OB_View v)
      | J_View Clamped_View v \<Rightarrow> Some (OB_View (if as_raw st v = None then v\<lparr>v_off := 0, v_len := 0\<rparr> else v))
      | J_View _ v \<Rightarrow> Some (OB_Typed v)
      | J_ArrayBuffer b \<Rightarrow> Some (OB_ArrayBuffer b)
      | _ \<Rightarrow> None)"

definition as_bytes :: "store \<Rightarrow> object_bytes \<Rightarrow> (js_error, byte list) res" where
  "as_bytes st ob =
     (case (case ob of
          OB_Typed v \<Rightarrow> as_raw st v
        | OB_ArrayBuffer b \<Rightarrow> buffer_bytes st b
        | OB_View v \<Rightarrow> (case buffer_bytes st (v_buf v) of
              None \<Rightarrow> None
            | Some full \<Rightarrow> (case checked_add (v_off v) (v_len v) of
                  None \<Rightarrow> None
                | Some e \<Rightarrow> if e > length full then None else slice full (v_off v) e))
        | OB_Vec bs \<Rightarrow> Some bs) of
      None \<Rightarrow> Err DETACHED | Some bs \<Rightarrow> Ok bs)"

definition typed_array_view_bounds :: "store \<Rightarrow> view \<Rightarrow> (js_error, nat \<times> nat \<times> nat) res" where
  "typed_array_view_bounds st v = (if as_raw st v = None then Err DETACHED else Ok (v_buf v, v_len v, v_off v))"

definition get_array_buffer :: "store \<Rightarrow> object_bytes \<Rightarrow> (js_error, (nat \<times> nat \<times> nat) option) res" where
  "get_array_buffer st ob =
     (case ob of
        OB_ArrayBuffer b \<Rightarrow> Ok (Some (b, (case buffer_bytes st b of Some bs \<Rightarrow> length bs | None \<Rightarrow> 0), 0))
      | OB_View v \<Rightarrow> Ok (Some (v_buf v, v_len v, v_off v))
      | OB_Typed v \<Rightarrow> rmap Some (typed_array_view_bounds st v)
      | OB_Vec _ \<Rightarrow> Ok None)"

definition get_start_end_indexes :: "nat \<Rightarrow> nat option \<Rightarrow> nat \<Rightarrow> nat \<times> nat" where
  "get_start_end_indexes source_len target_len offset =
     (if offset > source_len then (0, 0)
      else let target_len = (case target_len of Some n \<Rightarrow> n | None \<Rightarrow> source_len - offset)
        in if offset + target_len > source_len then (offset, source_len) else (offset, target_len + offset))"

primrec collect_u8 :: "host \<Rightarrow> jsval list \<Rightarrow> (js_error, byte list) res" where
  "collect_u8 h [] = Ok []"
| "collect_u8 h (x # xs) = rbind (h_u8 h x) (\<lambda>b. rmap (\<lambda>bs. b # bs) (collect_u8 h xs))"

definition get_array_bytes :: "host \<Rightarrow> jsval \<Rightarrow> nat \<Rightarrow> nat option \<Rightarrow> (js_error, byte list option) res" where
  "get_array_bytes h x offset len =
     (case x of
        J_Array xs \<Rightarrow> (case get_start_end_indexes (length xs) len offset of (start, stop) \<Rightarrow>
            rmap Some (collect_u8 h (take (stop - start) (drop start xs))))
      | _ \<Rightarrow> Ok None)"

definition bytes_from_js_string :: "rstring \<Rightarrow> nat \<Rightarrow> nat option \<Rightarrow> (js_error, byte list) res" where
  "bytes_from_js_string s offset len =
     (case get_start_end_indexes (length (utf8_bytes s)) len offset of (start, stop) \<Rightarrow> or_panic (slice (utf8_bytes s) start stop))"

definition object_bytes_from_offset :: "host \<Rightarrow> store \<Rightarrow> jsval \<Rightarrow> nat \<Rightarrow> nat option \<Rightarrow> (js_error, object_bytes) res" where
  "object_bytes_from_offset h st x offset len =
     (case x of
        J_Undefined \<Rightarrow> Ok (OB_Vec [])
      | J_String s \<Rightarrow> rmap OB_Vec (bytes_from_js_string s offset len)
      | _ \<Rightarrow> rbind (get_array_bytes h x offset len) (\<lambda>r. case r of
          Some bs \<Rightarrow> Ok (OB_Vec bs)
        | None \<Rightarrow> (case from_array_buffer st x of
              Some ob \<Rightarrow> Ok ob
            | None \<Rightarrow> (case h_string h x of
                  Some s \<Rightarrow> rmap OB_Vec (bytes_from_js_string s offset len)
                | None \<Rightarrow> Err (Message ''value must be typed DataView, Buffer, ArrayBuffer, Uint8Array or interpretable as string'')))))"

text \<open>\<open>TypedArray::<u8>::from_object\<close>, and the slice of a typed array.\<close>

definition u8_view :: "jsval \<Rightarrow> (js_error, view) res" where
  "u8_view x = (case x of J_View Buffer_View v \<Rightarrow> Ok v | J_View Uint8_View v \<Rightarrow> Ok v
     | _ \<Rightarrow> Err (Type_Error ''Error converting from js object into type TypedArray''))"

definition is_object :: "jsval \<Rightarrow> bool" where
  "is_object x = (case x of J_Array _ \<Rightarrow> True | J_View _ _ \<Rightarrow> True | J_ArrayBuffer _ \<Rightarrow> True | J_Other _ \<Rightarrow> True | _ \<Rightarrow> False)"

definition as_ref :: "host \<Rightarrow> store \<Rightarrow> view \<Rightarrow> (js_error, byte list) res" where
  "as_ref h st v = (case as_raw st v of Some bs \<Rightarrow> Ok bs | None \<Rightarrow> h_detached h)"

section \<open>Making buffers\<close>

definition buffer_into_js :: "byte list \<Rightarrow> store \<Rightarrow> view \<times> store" where
  "buffer_into_js bytes st = (\<lparr>v_buf = length st, v_off = 0, v_len = length bytes\<rparr>, st @ [Some bytes])"

text \<open>The constructor of the view refuses a range outside the buffer.\<close>

definition from_array_buffer_offset_length :: "store \<Rightarrow> nat \<Rightarrow> nat \<Rightarrow> nat \<Rightarrow> (js_error, view) res" where
  "from_array_buffer_offset_length st b offset len =
     (case buffer_bytes st b of
        None \<Rightarrow> Err (Type_Error ''ArrayBuffer is detached'')
      | Some bs \<Rightarrow> if offset + len \<le> length bs then Ok \<lparr>v_buf = b, v_off = offset, v_len = len\<rparr>
          else Err (Range_Error ''invalid length''))"

definition from_encoding :: "codecs \<Rightarrow> byte list \<Rightarrow> string option \<Rightarrow> store \<Rightarrow> (js_error, view \<times> store) res" where
  "from_encoding c bytes encoding st =
     (case encoding of
        Some e \<Rightarrow> rbind (or_throw (from_str e)) (\<lambda>enc. rbind (or_throw (decode_bytes_of c enc bytes)) (\<lambda>bs. Ok (buffer_into_js bs st)))
      | None \<Rightarrow> Ok (buffer_into_js bytes st))"

definition from_string_encoding :: "codecs \<Rightarrow> rstring \<Rightarrow> string option \<Rightarrow> store \<Rightarrow> (js_error, view \<times> store) res" where
  "from_string_encoding c s encoding st =
     (case encoding of
        Some e \<Rightarrow> rbind (or_throw (from_str e)) (\<lambda>enc. rbind (or_throw (decode_from_string c enc s)) (\<lambda>bs. Ok (buffer_into_js bs st)))
      | None \<Rightarrow> Ok (buffer_into_js (utf8_bytes s) st))"

text \<open>The remainder by the length of the fill panics when the fill is empty.\<close>

definition alloc_byte_ref :: "byte list \<Rightarrow> nat \<Rightarrow> store \<Rightarrow> (js_error, view \<times> store) res" where
  "alloc_byte_ref byte_ref len st =
     (if 0 < len \<and> byte_ref = [] then Panic
      else Ok (buffer_into_js (map (\<lambda>i. byte_ref ! (i mod length byte_ref)) [0..<len]) st))"

definition alloc :: "codecs \<Rightarrow> nat \<Rightarrow> jsval option \<Rightarrow> string option \<Rightarrow> store \<Rightarrow> (js_error, view \<times> store) res" where
  "alloc c len fill encoding st =
     (case fill of
        Some (J_String s) \<Rightarrow>
          (case encoding of
             Some e \<Rightarrow> rbind (or_throw (from_str e)) (\<lambda>enc. rbind (or_throw (decode_from_string c enc s)) (\<lambda>bs. alloc_byte_ref bs len st))
           | None \<Rightarrow> alloc_byte_ref (utf8_bytes s) len st)
      | Some (J_Int i) \<Rightarrow> Ok (buffer_into_js (replicate len (word_of_int i)) st)
      | Some x \<Rightarrow>
          (case from_array_buffer st x of
             Some ob \<Rightarrow> rbind (as_bytes st ob) (\<lambda>bs. alloc_byte_ref bs len st)
           | None \<Rightarrow> Ok (buffer_into_js (replicate len 0) st))
      | None \<Rightarrow> Ok (buffer_into_js (replicate len 0) st))"

definition byte_length :: "codecs \<Rightarrow> host \<Rightarrow> jsval \<Rightarrow> string option \<Rightarrow> store \<Rightarrow> (js_error, nat) res" where
  "byte_length c h x encoding st =
     (case encoding of
        Some e \<Rightarrow> rbind (or_throw (from_str e)) (\<lambda>enc. rbind (object_bytes_from_offset h st x 0 None) (\<lambda>a.
            rbind (as_bytes st a) (\<lambda>bytes. rmap length (or_throw (decode_bytes_of c enc bytes)))))
      | None \<Rightarrow>
          (case x of
             J_String s \<Rightarrow> Ok (length (utf8_bytes s))
           | J_Array xs \<Rightarrow> (case collect_u8 h xs of
                 Ok _ \<Rightarrow> Ok (length xs) | Err _ \<Rightarrow> Err (Message ''array value is not u8'') | Panic \<Rightarrow> Panic)
           | _ \<Rightarrow> (case from_array_buffer st x of
                 Some ob \<Rightarrow> rmap length (as_bytes st ob)
               | None \<Rightarrow> Err (Message ''value must be typed DataView, Buffer, ArrayBuffer, Uint8Array or string''))))"

fun concat_loop :: "host \<Rightarrow> store \<Rightarrow> nat option \<Rightarrow> jsval list \<Rightarrow> nat \<Rightarrow> byte list \<Rightarrow> (js_error, byte list) res" where
  "concat_loop h st max_length [] tot bytes = Ok bytes"
| "concat_loop h st max_length (x # xs) tot bytes =
     rbind (u8_view x) (\<lambda>v. rbind (as_ref h st v) (\<lambda>bytes_ref.
       if bytes_ref = [] then concat_loop h st max_length xs tot bytes
       else case max_length of
           None \<Rightarrow> concat_loop h st max_length xs tot (bytes @ bytes_ref)
         | Some m \<Rightarrow>
             let tot = tot + length bytes_ref in
             if tot > m
             then rbind (or_panic (usub m (tot - length bytes_ref))) (\<lambda>diff.
                  rmap (\<lambda>part. bytes @ part) (or_panic (slice bytes_ref 0 diff)))
             else concat_loop h st max_length xs tot (bytes @ bytes_ref)))"

definition concat_buffers :: "host \<Rightarrow> jsval list \<Rightarrow> nat option \<Rightarrow> store \<Rightarrow> (js_error, view \<times> store) res" where
  "concat_buffers h xs max_length st = rmap (\<lambda>bs. buffer_into_js bs st) (concat_loop h st max_length xs 0 [])"

datatype from_arg = Arg_Encoding string | Arg_Offset nat | Arg_Other

definition buffer_from :: "codecs \<Rightarrow> host \<Rightarrow> jsval \<Rightarrow> from_arg \<Rightarrow> nat option \<Rightarrow> store \<Rightarrow> (js_error, view \<times> store) res" where
  "buffer_from c h x arg len st =
     (let encoding = (case arg of Arg_Encoding e \<Rightarrow> Some e | _ \<Rightarrow> None);
          offset = (case arg of Arg_Offset n \<Rightarrow> n | _ \<Rightarrow> 0)
      in case x of
           J_String s \<Rightarrow> from_string_encoding c s encoding st
         | _ \<Rightarrow> rbind (get_array_bytes h x offset len) (\<lambda>r. case r of
             Some bytes \<Rightarrow> from_encoding c bytes encoding st
           | None \<Rightarrow> (case from_array_buffer st x of
               Some ob \<Rightarrow> rbind (as_bytes st ob) (\<lambda>bytes.
                 case get_start_end_indexes (length bytes) len offset of (start, stop) \<Rightarrow>
                   if (case x of J_View Buffer_View _ \<Rightarrow> True | _ \<Rightarrow> False) \<or> encoding \<noteq> None
                   then from_encoding c bytes encoding st
                   else rbind (get_array_buffer st ob) (\<lambda>ab. rbind (or_panic ab) (\<lambda>(b, _, source_offset).
                     rmap (\<lambda>v. (v, st)) (from_array_buffer_offset_length st b (start + source_offset) (stop - start)))))
             | None \<Rightarrow> (case h_string h x of
                 Some s \<Rightarrow> from_string_encoding c s encoding st
               | None \<Rightarrow> Err (Message ''value must be typed DataView, Buffer, ArrayBuffer, Uint8Array or interpretable as string'')))))"

definition is_buffer :: "jsval \<Rightarrow> bool" where
  "is_buffer x = (case x of J_View Buffer_View _ \<Rightarrow> True | _ \<Rightarrow> False)"

text \<open>The argument is the label of a string, \<open>None\<close> for any other value.\<close>

definition is_encoding :: "string option \<Rightarrow> bool" where
  "is_encoding label = (case label of Some e \<Rightarrow> (case from_str e of Ok _ \<Rightarrow> True | _ \<Rightarrow> False) | None \<Rightarrow> False)"

section \<open>Copying, comparing, slicing\<close>

text \<open>\<open>9007199254740991\<close> and its negation as doubles.\<close>

definition MAX_SAFE_INTEGER :: nat where
  "MAX_SAFE_INTEGER = 2 ^ 53 - 1"

definition is_integral_number :: "64 word \<Rightarrow> bool" where
  "is_integral_number n \<longleftrightarrow> f64_finite n \<and> \<not> f64_fract n"

text \<open>The magnitude is above the largest safe integer.\<close>

definition unsafe_integer :: "64 word \<Rightarrow> bool" where
  "unsafe_integer n \<longleftrightarrow> MAX_SAFE_INTEGER < f64_whole n \<or> (MAX_SAFE_INTEGER = f64_whole n \<and> f64_fract n)"

definition f64_floor :: "64 word \<Rightarrow> int" where
  "f64_floor n = (if f64_sign n then - int (f64_whole n) - (if f64_fract n then 1 else 0) else int (f64_whole n))"

definition to_integer_default_zero :: "64 word \<Rightarrow> int" where
  "to_integer_default_zero n = (if f64_nan n \<or> \<not> f64_finite n \<or> unsafe_integer n then 0 else f64_floor n)"

definition preserve_integral_number :: "64 word \<Rightarrow> int" where
  "preserve_integral_number n = f64_to_i64 n"

definition normalize_copy_index :: "host \<Rightarrow> jsval option \<Rightarrow> int \<Rightarrow> store \<Rightarrow> (js_error, int) res \<times> store" where
  "normalize_copy_index h value default_if_undefined st =
     (case value of
        None \<Rightarrow> (Ok default_if_undefined, st)
      | Some J_Undefined \<Rightarrow> (Ok default_if_undefined, st)
      | Some x \<Rightarrow>
          (case as_number x of
             Some n \<Rightarrow> if is_integral_number n then (Ok (preserve_integral_number n), st)
               else (Ok (to_integer_default_zero n), st)
           | None \<Rightarrow> (case h_number h x st of (r, st) \<Rightarrow> (rmap to_integer_default_zero r, st))))"

text \<open>The bytes \<open>src\<close> are put at position \<open>i\<close> of buffer \<open>b\<close>.\<close>

definition splice :: "byte list \<Rightarrow> nat \<Rightarrow> byte list \<Rightarrow> byte list" where
  "splice bs i src = take i bs @ src @ drop (i + length src) bs"

definition put_bytes :: "store \<Rightarrow> nat \<Rightarrow> nat \<Rightarrow> byte list \<Rightarrow> store" where
  "put_bytes st b i src = (case buffer_bytes st b of None \<Rightarrow> st | Some bs \<Rightarrow> st[b := Some (splice bs i src)])"

text \<open>The last part of \<open>copy\<close>, after the conversions: the regions are read again.\<close>

definition copy_regions :: "store \<Rightarrow> view \<Rightarrow> view \<Rightarrow> nat \<Rightarrow> nat \<Rightarrow> nat \<Rightarrow> (js_error, nat) res \<times> store" where
  "copy_regions st source target target_start source_start source_end =
     (case (as_raw st source, as_raw st target) of
        (Some source_raw, Some target_raw) \<Rightarrow>
          if source_start \<ge> source_end \<or> target_start \<ge> length target_raw then (Ok 0, st)
          else let source_end = min source_end (length source_raw) in
            if source_end \<le> source_start then (Ok 0, st)
            else (case (usub source_end source_start, usub (length source_raw) source_start, usub (length target_raw) target_start) of
                (Some a, Some b, Some d) \<Rightarrow>
                  let copyable = min (min a b) d in
                  if copyable = 0 then (Ok 0, st)
                  else if (case checked_add source_start copyable of Some e \<Rightarrow> e > length source_raw | None \<Rightarrow> True)
                     \<or> (case checked_add target_start copyable of Some e \<Rightarrow> e > length target_raw | None \<Rightarrow> True) then (Ok 0, st)
                  else (Ok copyable, put_bytes st (v_buf target) (v_off target + target_start)
                         (take copyable (drop source_start source_raw)))
              | _ \<Rightarrow> (Panic, st))
      | _ \<Rightarrow> (Ok 0, st))"

definition copy :: "host \<Rightarrow> jsval \<Rightarrow> jsval \<Rightarrow> jsval option \<Rightarrow> jsval option \<Rightarrow> jsval option \<Rightarrow> store
    \<Rightarrow> (js_error, nat) res \<times> store" where
  "copy h this target target_start source_start source_end st =
     (case u8_view this of
        Ok source_view \<Rightarrow> (case u8_view target of
          Ok target_view \<Rightarrow> (case normalize_copy_index h target_start 0 st of
            (Ok target_start, st) \<Rightarrow>
              if target_start < 0 then (Err (Range_Error ''The value of targetStart is out of range.''), st)
              else (case normalize_copy_index h source_start 0 st of
                (Ok source_start, st) \<Rightarrow>
                  let source_length_for_check = (case as_raw st source_view of Some r \<Rightarrow> length r | None \<Rightarrow> 0) in
                  if source_start < 0 \<or> source_start > int source_length_for_check
                  then (Err (Range_Error ''The value of sourceStart is out of range.''), st)
                  else (case normalize_copy_index h source_end (int source_length_for_check) st of
                    (Ok source_end, st) \<Rightarrow>
                      if source_end < 0 then (Err (Range_Error ''The value of sourceEnd is out of range.''), st)
                      else copy_regions st source_view target_view (nat target_start) (nat source_start) (nat source_end)
                  | (Err e, st) \<Rightarrow> (Err e, st) | (Panic, st) \<Rightarrow> (Panic, st))
              | (Err e, st) \<Rightarrow> (Err e, st) | (Panic, st) \<Rightarrow> (Panic, st))
          | (Err e, st) \<Rightarrow> (Err e, st) | (Panic, st) \<Rightarrow> (Panic, st))
        | Err e \<Rightarrow> (Err (if is_object target then e else Type_Error ''Target must be a Uint8Array or Buffer''), st) | Panic \<Rightarrow> (Panic, st))
      | Err e \<Rightarrow> (Err e, st) | Panic \<Rightarrow> (Panic, st))"

text \<open>\<open>same\<close>: the argument is the receiver itself.\<close>

definition equals :: "host \<Rightarrow> bool \<Rightarrow> jsval \<Rightarrow> jsval \<Rightarrow> store \<Rightarrow> (js_error, bool) res" where
  "equals h same this other st =
     (case u8_view this of
        Ok this_view \<Rightarrow>
          if same then Ok True
          else (case u8_view other of
            Ok other_view \<Rightarrow> rbind (as_ref h st this_view) (\<lambda>a. rbind (as_ref h st other_view) (\<lambda>b.
              if length a \<noteq> length b then Ok False else if a = [] then Ok True else Ok (a = b)))
          | _ \<Rightarrow> Err (Type_Error ''The otherBuffer argument must be an instance of Buffer or Uint8Array''))
      | _ \<Rightarrow> Err (Type_Error ''The receiver must be an instance of Buffer or Uint8Array''))"

definition clamp_index :: "int \<Rightarrow> int \<Rightarrow> int" where
  "clamp_index view_length s = (if s < 0 then max (view_length + s) 0 else min s view_length)"

definition subarray :: "jsval \<Rightarrow> int option \<Rightarrow> int option \<Rightarrow> store \<Rightarrow> (js_error, view) res" where
  "subarray this start stop st =
     rbind (u8_view this) (\<lambda>view.
       if as_raw st view = None then Err DETACHED
       else let view_offset = int (v_off view); view_length = int (v_len view);
            start_index = (case start of None \<Rightarrow> 0 | Some s \<Rightarrow> clamp_index view_length s);
            end_index = (case stop of None \<Rightarrow> view_length | Some e \<Rightarrow> clamp_index view_length e);
            len = nat (max (end_index - start_index) 0);
            new_offset = nat (max (view_offset + start_index) 0)
          in from_array_buffer_offset_length st (v_buf view) new_offset len)"

section \<open>Text\<close>

definition to_string :: "codecs \<Rightarrow> host \<Rightarrow> jsval \<Rightarrow> string option \<Rightarrow> int option \<Rightarrow> int option \<Rightarrow> store \<Rightarrow> (js_error, rstring) res" where
  "to_string c h this encoding start stop st =
     rbind (u8_view this) (\<lambda>v. rbind (as_ref h st v) (\<lambda>bytes.
       let start = min (case start of Some s \<Rightarrow> nat (max s 0) | None \<Rightarrow> 0) (length bytes);
           stop = min (case stop of Some e \<Rightarrow> nat (max e 0) | None \<Rightarrow> length bytes) (length bytes)
       in rbind (or_panic (slice bytes start stop)) (\<lambda>bytes.
            rbind (or_throw (from_optional_str encoding)) (\<lambda>enc. or_throw (encode_to_string c enc bytes True)))))"

text \<open>The byte offsets at which the characters of a string start.\<close>

fun char_indices :: "nat \<Rightarrow> rstring \<Rightarrow> nat list" where
  "char_indices i [] = []"
| "char_indices i (c # s) = i # char_indices (i + length (utf8_encode c)) s"

definition safe_byte_slice :: "rstring \<Rightarrow> nat \<Rightarrow> byte list \<times> nat" where
  "safe_byte_slice s stop =
     (let bytes = utf8_bytes s in
      if length bytes \<le> stop then (bytes, length bytes)
      else let valid_end = (case rev (filter (\<lambda>i. i \<le> stop) (char_indices 0 s)) of [] \<Rightarrow> 0 | i # _ \<Rightarrow> i)
        in (take valid_end bytes, valid_end))"

datatype write_arg = Arg_Str string | Arg_Int int | Arg_Any

text \<open>\<open>usize\<close> arithmetic of the release build, which wraps around.\<close>

definition usize_of_int :: "int \<Rightarrow> nat" where
  "usize_of_int i = nat (i mod 2 ^ 64)"

definition wrapping_sub :: "nat \<Rightarrow> nat \<Rightarrow> nat" where
  "wrapping_sub a b = nat ((int a - int b) mod 2 ^ 64)"

definition get_write_parameters :: "write_arg list \<Rightarrow> nat \<Rightarrow> nat \<times> nat \<times> string" where
  "get_write_parameters args len =
     (case args of
        [] \<Rightarrow> (0, len, ''utf8'')
      | Arg_Str s # _ \<Rightarrow> (0, len, s)
      | v1 # rest \<Rightarrow>
          let offset = (case v1 of Arg_Int i \<Rightarrow> usize_of_int i | _ \<Rightarrow> 0) in
          case rest of
            [] \<Rightarrow> (offset, len, ''utf8'')
          | Arg_Str s # _ \<Rightarrow> (offset, wrapping_sub len offset, s)
          | v2 # rest \<Rightarrow>
              let l = (case v2 of Arg_Int i \<Rightarrow> min (usize_of_int i) (wrapping_sub len offset) | _ \<Rightarrow> wrapping_sub len offset)
              in (offset, l, case rest of Arg_Str s # _ \<Rightarrow> s | _ \<Rightarrow> ''utf8''))"

text \<open>\<open>target_bytes[offset..offset + n].copy_from_slice(src)\<close> on the whole array buffer, with \<open>n = src.len()\<close>.\<close>

definition copy_into :: "store \<Rightarrow> nat \<Rightarrow> nat \<Rightarrow> byte list \<Rightarrow> (js_error, store) res" where
  "copy_into st b offset src =
     (case buffer_bytes st b of
        None \<Rightarrow> Err DETACHED
      | Some bs \<Rightarrow> (case slice bs offset ((offset + length src) mod 2 ^ 64) of
            None \<Rightarrow> Panic
          | Some _ \<Rightarrow> Ok (put_bytes st b offset src)))"

definition write_string :: "codecs \<Rightarrow> host \<Rightarrow> jsval \<Rightarrow> nat \<Rightarrow> rstring \<Rightarrow> write_arg list \<Rightarrow> store \<Rightarrow> (js_error, nat \<times> store) res" where
  "write_string c h this this_len s args st =
     (case get_write_parameters args this_len of (offset, len, encoding) \<Rightarrow>
       rbind (object_bytes_from_offset h st this 0 None) (\<lambda>target.
       rbind (get_array_buffer st target) (\<lambda>r. case r of
         None \<Rightarrow> Ok (0, st)
       | Some (b, _, _) \<Rightarrow>
           if buffer_bytes st b = None then Err DETACHED
           else rbind (or_throw (from_str encoding)) (\<lambda>encoder.
             if as_label encoder = ''utf-8'' then
               (case safe_byte_slice s (min len (length (utf8_bytes s))) of (source_slice, valid_length) \<Rightarrow>
                  rmap (\<lambda>st. (valid_length, st)) (copy_into st b offset source_slice))
             else rbind (or_throw (decode_from_string c encoder s)) (\<lambda>decode_bytes.
                  let writable_length = min len (length decode_bytes)
                  in rmap (\<lambda>st. (writable_length, st)) (copy_into st b offset (take writable_length decode_bytes)))))))"

section \<open>Reading and writing numbers\<close>

datatype number_kind = Int8 | UInt8 | Int16 | UInt16 | Int32 | UInt32 | Float32 | Float64 | BigInt | BigUInt

fun bits :: "number_kind \<Rightarrow> nat" where
  "bits Int8 = 8" | "bits UInt8 = 8" | "bits Int16 = 16" | "bits UInt16 = 16" | "bits Int32 = 32" | "bits UInt32 = 32"
| "bits Float32 = 32" | "bits Float64 = 64" | "bits BigInt = 64" | "bits BigUInt = 64"

definition is_signed :: "number_kind \<Rightarrow> bool" where
  "is_signed k \<longleftrightarrow> k = Int8 \<or> k = Int16 \<or> k = Int32"

text \<open>The loops over \<open>0..byte_count\<close> run over the list of the indices.\<close>

primrec shifted_loop :: "endian \<Rightarrow> nat \<Rightarrow> nat list \<Rightarrow> 64 word \<Rightarrow> byte list" where
  "shifted_loop en n [] val = []"
| "shifted_loop en n (i # js) val =
     (let shift = (case en of Big \<Rightarrow> (n - 1 - i) * 8 | Little \<Rightarrow> i * 8)
      in ucast (drop_bit shift val) # shifted_loop en n js (val AND NOT (push_bit shift 0xFF)))"

definition shifted_bytes :: "64 word \<Rightarrow> nat \<Rightarrow> endian \<Rightarrow> byte list" where
  "shifted_bytes val n_bits en = (let n = n_bits div 8 in shifted_loop en n [0..<n] val)"

primrec endian_loop :: "endian \<Rightarrow> nat list \<Rightarrow> 64 word \<Rightarrow> byte list" where
  "endian_loop en [] val = []"
| "endian_loop en (i # js) val =
     ucast (case en of Big \<Rightarrow> drop_bit (56 - i * 8) val | Little \<Rightarrow> drop_bit (i * 8) val)
     # endian_loop en js (case en of Big \<Rightarrow> val AND NOT (push_bit ((7 - i) * 8) 0xFF) | Little \<Rightarrow> val AND NOT (push_bit (i * 8) 0xFF))"

definition endian_bytes :: "64 word \<Rightarrow> endian \<Rightarrow> byte list" where
  "endian_bytes val en = endian_loop en [0..<8] val"

text \<open>\<open>to_be_bytes\<close> and \<open>to_le_bytes\<close> of a pattern of \<open>n\<close> bytes, and their inverses.\<close>

definition be_bytes :: "nat \<Rightarrow> nat \<Rightarrow> byte list" where
  "be_bytes n v = map (\<lambda>i. word_of_nat (v div 256 ^ (n - 1 - i))) [0..<n]"

definition to_bytes :: "endian \<Rightarrow> nat \<Rightarrow> nat \<Rightarrow> byte list" where
  "to_bytes en n v = (case en of Big \<Rightarrow> be_bytes n v | Little \<Rightarrow> rev (be_bytes n v))"

definition from_be :: "byte list \<Rightarrow> nat" where
  "from_be bs = foldl (\<lambda>acc b. acc * 256 + unat b) 0 bs"

definition from_bytes :: "endian \<Rightarrow> byte list \<Rightarrow> nat" where
  "from_bytes en bs = (case en of Big \<Rightarrow> from_be bs | Little \<Rightarrow> from_be (rev bs))"

definition signed_of :: "nat \<Rightarrow> nat \<Rightarrow> int" where
  "signed_of n_bits v = (if v < 2 ^ (n_bits - 1) then int v else int v - 2 ^ n_bits)"

definition number_bytes :: "jsval \<Rightarrow> endian \<Rightarrow> number_kind \<Rightarrow> (js_error, nat \<times> byte list) res" where
  "number_bytes value en kind =
     (case kind of
        BigInt \<Rightarrow> (case value of
            J_Big n \<Rightarrow> if - (2 ^ 63) \<le> n \<and> n < 2 ^ 63 then Ok (8, endian_bytes (word_of_int n) en)
              else Err (Message ''BigInt out of range'')
          | _ \<Rightarrow> Err (Type_Error ''Expected BigInt''))
      | BigUInt \<Rightarrow> Err (Type_Error ''Uint64 is not supported'')
      | Float32 \<Rightarrow> (case as_number value of
            None \<Rightarrow> Err (Type_Error ''Expected number'')
          | Some x \<Rightarrow> Ok (4, to_bytes en 4 (unat (f64_to_f32 x))))
      | Float64 \<Rightarrow> (case as_number value of
            None \<Rightarrow> Err (Type_Error ''Expected number'')
          | Some x \<Rightarrow> Ok (8, to_bytes en 8 (unat x)))
      | _ \<Rightarrow> (case as_number value of
            None \<Rightarrow> Err (Type_Error ''Expected number'')
          | Some x \<Rightarrow>
              let int_val = f64_to_i64 x;
                  bit_mask = 2 ^ bits kind - 1;
                  max_val = (if is_signed kind then 2 ^ (bits kind - 1) - 1 else bit_mask);
                  min_val = (if is_signed kind then - max_val - 1 else 0)
              in if int_val < min_val \<or> int_val > max_val then Err (Range_Error ''Value out of range'')
                 else Ok (bits kind div 8, shifted_bytes (word_of_int (int_val AND bit_mask)) (bits kind) en)))"

definition write_buf :: "host \<Rightarrow> jsval \<Rightarrow> jsval \<Rightarrow> nat option \<Rightarrow> endian \<Rightarrow> number_kind \<Rightarrow> store \<Rightarrow> (js_error, nat \<times> store) res" where
  "write_buf h this value offset en kind st =
     (let offset = (case offset of Some n \<Rightarrow> n | None \<Rightarrow> 0) in
      rbind (number_bytes value en kind) (\<lambda>(byte_count, bytes).
      rbind (object_bytes_from_offset h st this 0 None) (\<lambda>target.
      rbind (get_array_buffer st target) (\<lambda>r. case r of
        None \<Rightarrow> Err (Message ERROR_MSG_NOT_ARRAY_BUFFER)
      | Some (b, view_length, view_offset) \<Rightarrow>
          if (case checked_add offset byte_count of Some e \<Rightarrow> e > view_length | None \<Rightarrow> True)
          then Err (Range_Error ''The specified offset is out of range'')
          else (case buffer_bytes st b of
              None \<Rightarrow> Err DETACHED
            | Some raw \<Rightarrow>
                if (case checked_add view_offset view_length of Some e \<Rightarrow> e > length raw | None \<Rightarrow> True)
                then Err (Range_Error ''The specified offset is out of range'')
                else (case slice raw (view_offset + offset) (view_offset + offset + byte_count) of
                    None \<Rightarrow> Panic
                  | Some part \<Rightarrow> if length part \<noteq> length bytes then Panic
                      else Ok (offset + byte_count, put_bytes st b (view_offset + offset) bytes)))))))"

definition read_value :: "endian \<Rightarrow> number_kind \<Rightarrow> byte list \<Rightarrow> (js_error, jsval) res" where
  "read_value en kind bytes =
     (let n = from_bytes en bytes in
      case kind of
        BigInt \<Rightarrow> Ok (J_Big (signed_of 64 n))
      | BigUInt \<Rightarrow> Err (Type_Error ''Uint64 is not supported'')
      | Float32 \<Rightarrow> Ok (J_Float (f32_to_f64 (word_of_nat n)))
      | Float64 \<Rightarrow> Ok (J_Float (word_of_nat n))
      | Int8 \<Rightarrow> Ok (J_Int (signed_of 8 n))
      | UInt8 \<Rightarrow> Ok (J_Int (int n))
      | Int16 \<Rightarrow> Ok (J_Int (signed_of 16 n))
      | UInt16 \<Rightarrow> Ok (J_Int (int n))
      | Int32 \<Rightarrow> Ok (J_Int (signed_of 32 n))
      | UInt32 \<Rightarrow> Ok (J_Float (f64_of_int (int n))))"

definition read_buf :: "host \<Rightarrow> jsval \<Rightarrow> nat option \<Rightarrow> endian \<Rightarrow> number_kind \<Rightarrow> store \<Rightarrow> (js_error, jsval) res" where
  "read_buf h this offset en kind st =
     rbind (object_bytes_from_offset h st this 0 None) (\<lambda>target.
     rbind (get_array_buffer st target) (\<lambda>r. case r of
       None \<Rightarrow> Err (Message ERROR_MSG_NOT_ARRAY_BUFFER)
     | Some (b, view_length, view_offset) \<Rightarrow>
         (case buffer_bytes st b of
            None \<Rightarrow> Err DETACHED
          | Some raw \<Rightarrow>
              if (case checked_add view_offset view_length of Some e \<Rightarrow> e > length raw | None \<Rightarrow> True)
              then Err (Range_Error ''The value of offset is out of range'')
              else let start = (case offset of Some n \<Rightarrow> n | None \<Rightarrow> 0); byte_count = bits kind div 8 in
                case checked_add start byte_count of
                  None \<Rightarrow> Err (Range_Error ''The value of offset is out of range'')
                | Some e \<Rightarrow>
                    if e > view_length then Err (Range_Error ''The value of offset is out of range'')
                    else rbind (or_panic (slice raw (view_offset + start) (view_offset + start + byte_count)))
                      (read_value en kind))))"

end
