(* ===== verification/Buffer_Laws.thy ===== *)
theory Buffer_Laws
  imports Buffer_Module
begin

text \<open>
  What the \<open>Buffer\<close> operations promise: numbers read back as written and nothing else changes, \<open>copy\<close> is a
  memory move inside the two views whatever the user code of its arguments does, \<open>subarray\<close> shares its
  bytes with the buffer it is taken from, \<open>concat\<close> and \<open>write\<close> cut where they should.
\<close>

section \<open>Bytes of a number\<close>

lemma byte_unaffected:
  assumes "a + 8 \<le> b \<or> b + 8 \<le> a"
  shows "ucast (drop_bit b (val AND NOT (push_bit a 0xFF :: 64 word))) = (ucast (drop_bit b val) :: byte)"
proof -
  have m: "(0xFF :: 64 word) = mask 8" by (simp add: mask_eq_exp_minus_1)
  have len: "bit val k \<Longrightarrow> k < 64" for k using bit_imp_le_length [of val k] by simp
  show ?thesis unfolding m
    by (rule bit_word_eqI) (use assms in \<open>auto simp: bit_simps intro: len\<close>)
qed

definition shift_of :: "endian \<Rightarrow> nat \<Rightarrow> nat \<Rightarrow> nat" where
  "shift_of en n i = (case en of Big \<Rightarrow> (n - 1 - i) * 8 | Little \<Rightarrow> i * 8)"

lemma shift_apart: "i < n \<Longrightarrow> j < n \<Longrightarrow> i \<noteq> j \<Longrightarrow> shift_of en n i + 8 \<le> shift_of en n j \<or> shift_of en n j + 8 \<le> shift_of en n i"
  by (cases en) (auto simp: shift_of_def)

text \<open>Clearing the bits that were written does not matter.\<close>

lemma shifted_loop_eq:
  "distinct js \<Longrightarrow> list_all (\<lambda>i. i < n) js \<Longrightarrow> shifted_loop en n js val = map (\<lambda>i. ucast (drop_bit (shift_of en n i) val)) js"
proof (induction js arbitrary: val)
  case (Cons i js)
  have "ucast (drop_bit (shift_of en n j) (val AND NOT (push_bit (shift_of en n i) 0xFF))) = (ucast (drop_bit (shift_of en n j) val) :: byte)"
    if "j \<in> set js" for j
    by (rule byte_unaffected, rule shift_apart) (use Cons.prems that in \<open>auto simp: list_all_iff\<close>)
  then show ?case using Cons by (simp add: Let_def shift_of_def)
qed simp

lemma endian_loop_eq: "list_all (\<lambda>i. i < 8) js \<Longrightarrow> endian_loop en js val = shifted_loop en 8 js val"
proof (induction js arbitrary: val)
  case (Cons i js)
  then have e: "56 - i * 8 = (8 - 1 - i) * 8" "(7 - i) * 8 = (8 - 1 - i) * 8" by simp_all
  from Cons show ?case unfolding endian_loop.simps shifted_loop.simps Let_def e by (cases en) simp_all
qed simp

lemma byte_of_drop: "ucast (drop_bit (8 * k) val) = (word_of_nat (unat (val :: 64 word) div 256 ^ k) :: byte)"
proof -
  have "take_bit 64 (unat val) = unat val" using unsigned_less [of val] by (simp add: take_bit_nat_eq_self_iff)
  then have eq: "unat (drop_bit (8 * k) val) = unat val div 256 ^ k"
    by (simp only: unsigned_drop_bit_eq) (simp add: drop_bit_eq_div power_mult)
  have "ucast (drop_bit (8 * k) val) = (word_of_nat (unat (drop_bit (8 * k) val)) :: byte)"
    by (rule of_nat_unat [symmetric])
  then show ?thesis unfolding eq .
qed

lemma shifted_bytes_eq: "shifted_bytes val n_bits en = to_bytes en (n_bits div 8) (unat val)"
proof -
  let ?n = "n_bits div 8"
  have "shifted_bytes val n_bits en = map (\<lambda>i. ucast (drop_bit (shift_of en ?n i) val)) [0..<?n]"
    by (simp add: shifted_bytes_def Let_def shifted_loop_eq list_all_iff)
  also have "\<dots> = to_bytes en ?n (unat val)"
  proof (cases en)
    case Big
    then show ?thesis by (simp add: to_bytes_def be_bytes_def shift_of_def mult.commute [of _ 8] byte_of_drop)
  next
    case Little
    have "rev (be_bytes ?n v) = map (\<lambda>i. word_of_nat (v div 256 ^ i)) [0..<?n]" for v
      by (rule nth_equalityI) (simp_all add: be_bytes_def rev_nth)
    with Little show ?thesis by (simp add: to_bytes_def shift_of_def mult.commute [of _ 8] byte_of_drop)
  qed
  finally show ?thesis .
qed

lemma endian_bytes_eq: "endian_bytes val en = to_bytes en 8 (unat val)"
  using shifted_bytes_eq [of val 64 en] by (simp add: endian_bytes_def endian_loop_eq list_all_iff shifted_bytes_def Let_def)

lemma from_be_snoc: "from_be (bs @ [b]) = from_be bs * 256 + unat b"
  by (simp add: from_be_def)

lemma be_bytes_Suc: "be_bytes (Suc n) v = be_bytes n (v div 256) @ [word_of_nat v]"
proof -
  have "v div 256 div 256 ^ (n - 1 - i) = v div 256 ^ (n - i)" if "i < n" for i
    using that by (simp add: div_mult2_eq [symmetric] power_Suc [symmetric] Suc_diff_Suc del: power_Suc)
  then show ?thesis by (simp add: be_bytes_def)
qed

lemma from_be_of_bytes: "from_be (be_bytes n v) = v mod 256 ^ n"
proof (induction n arbitrary: v)
  case (Suc n)
  have "unat (word_of_nat v :: byte) = v mod 256" by (simp add: unat_of_nat)
  moreover have "v div 256 mod 256 ^ n * 256 + v mod 256 = v mod 256 ^ Suc n"
    by (simp add: mod_mult2_eq mult.commute)
  ultimately show ?case by (simp only: be_bytes_Suc from_be_snoc Suc.IH)
qed (simp add: be_bytes_def from_be_def)

lemma from_to_bytes: "from_bytes en (to_bytes en n v) = v mod 256 ^ n"
  by (cases en) (simp_all add: from_bytes_def to_bytes_def from_be_of_bytes)

lemma length_to_bytes [simp]: "length (to_bytes en n v) = n"
  by (simp add: to_bytes_def be_bytes_def split: endian.split)

text \<open>What a number becomes when it is stored and read back.\<close>

definition stored :: "number_kind \<Rightarrow> jsval \<Rightarrow> jsval" where
  "stored kind value =
     (case kind of
        BigInt \<Rightarrow> value
      | Float32 \<Rightarrow> J_Float (f32_to_f64 (f64_to_f32 (the (as_number value))))
      | Float64 \<Rightarrow> J_Float (the (as_number value))
      | UInt32 \<Rightarrow> J_Float (f64_of_int (f64_to_i64 (the (as_number value))))
      | _ \<Rightarrow> J_Int (f64_to_i64 (the (as_number value))))"

lemma masked_bits:
  assumes "0 < b" "b \<le> 32"
  shows "unat (word_of_int (k AND (2 ^ b - 1)) :: 64 word) = nat (k mod 2 ^ b)"
proof -
  have "k AND (2 ^ b - 1) = k mod 2 ^ b"
    by (simp add: take_bit_eq_mod flip: take_bit_eq_mask mask_eq_exp_minus_1)
  moreover have "(2 :: int) ^ b \<le> 2 ^ 32" using assms by (intro power_increasing) simp_all
  moreover have "0 \<le> k mod 2 ^ b" "k mod 2 ^ b < 2 ^ b" by simp_all
  ultimately show ?thesis by (simp add: unat_eq_nat_uint uint_word_of_int del: pos_mod_bound pos_mod_sign)
qed

lemma signed_of_mod:
  assumes "0 < b" "- (2 ^ (b - 1)) \<le> k" "k < 2 ^ (b - 1)"
  shows "signed_of b (nat (k mod 2 ^ b)) = k"
proof -
  obtain c where c: "b = Suc c" using assms(1) by (cases b) auto
  show ?thesis
  proof (cases "0 \<le> k")
    case True
    with assms c have "k mod 2 ^ b = k" by simp
    with True assms c show ?thesis by (simp add: signed_of_def nat_less_iff)
  next
    case False
    have "(k + 2 ^ b) mod 2 ^ b = k + 2 ^ b" by (rule mod_pos_pos_trivial) (use assms c False in simp_all)
    then have "k mod 2 ^ b = k + 2 ^ b" by simp
    with False assms c show ?thesis by (simp add: signed_of_def nat_less_iff)
  qed
qed

lemma int_kind_bytes:
  assumes "0 < b" "b \<le> 32" "8 dvd b"
  shows "from_bytes en (shifted_bytes (word_of_int (k AND (2 ^ b - 1))) b en) = nat (k mod 2 ^ b)"
proof -
  have "(256 :: nat) ^ (b div 8) = 2 ^ b" using assms(3) power_mult [of "2 :: nat" 8 "b div 8"] by simp
  then show ?thesis using assms by (simp add: shifted_bytes_eq from_to_bytes masked_bits nat_less_iff)
qed

lemma number_bytes_stored:
  assumes "number_bytes value en kind = Ok (n, bytes)"
  shows "n = bits kind div 8 \<and> length bytes = n \<and> read_value en kind bytes = Ok (stored kind value)"
proof -
  have int_kind: ?thesis if k: "kind \<in> {Int8, UInt8, Int16, UInt16, Int32, UInt32}"
  proof -
    let ?b = "bits kind"
    from assms k obtain x where x: "as_number value = Some x"
      by (cases "as_number value") (auto simp: number_bytes_def)
    define i where "i = f64_to_i64 x"
    from assms k x have r: "n = ?b div 8" "bytes = shifted_bytes (word_of_int (i AND (2 ^ ?b - 1))) ?b en"
      "if is_signed kind then - (2 ^ (?b - 1)) \<le> i \<and> i < 2 ^ (?b - 1) else 0 \<le> i \<and> i < 2 ^ ?b"
      by (auto simp: number_bytes_def Let_def i_def is_signed_def split: if_splits)
    have b: "from_bytes en bytes = nat (i mod 2 ^ ?b)"
      unfolding r(2) by (rule int_kind_bytes) (use k in auto)
    have u: "\<not> is_signed kind \<Longrightarrow> int (nat (i mod 2 ^ ?b)) = i" using r(3) by simp
    have sg: "is_signed kind \<Longrightarrow> signed_of ?b (nat (i mod 2 ^ ?b)) = i" using r(3) k by (intro signed_of_mod) auto
    have "length bytes = n" by (simp add: r shifted_bytes_eq)
    with k x r(1) b u sg show ?thesis by (auto simp: read_value_def stored_def i_def is_signed_def Let_def)
  qed
  have big: ?thesis if k: "kind = BigInt"
  proof -
    from assms k obtain i where i: "value = J_Big i" "- (2 ^ 63) \<le> i" "i < 2 ^ 63" "n = 8" "bytes = endian_bytes (word_of_int i) en"
      by (auto simp: number_bytes_def split: jsval.splits if_splits)
    have "signed_of 64 (from_bytes en bytes) = i"
      using i signed_of_mod [of 64 i] by (simp add: endian_bytes_eq from_to_bytes unat_eq_nat_uint uint_word_of_int nat_less_iff)
    with i k show ?thesis by (simp add: read_value_def stored_def endian_bytes_eq)
  qed
  have flt: ?thesis if k: "kind = Float32 \<or> kind = Float64"
  proof -
    from assms k obtain x where x: "as_number value = Some x"
      by (cases "as_number value") (auto simp: number_bytes_def)
    have "unat x < 18446744073709551616" "unat (f64_to_f32 x) < 4294967296"
      using unsigned_less [of x] unsigned_less [of "f64_to_f32 x"] by simp_all
    with assms k x show ?thesis by (auto simp: number_bytes_def read_value_def stored_def from_to_bytes)
  qed
  from assms int_kind big flt show ?thesis by (cases kind) (auto simp: number_bytes_def)
qed

section \<open>Views and the store\<close>

definition byte_at :: "store \<Rightarrow> nat \<Rightarrow> nat \<Rightarrow> byte option" where
  "byte_at st b i = (case buffer_bytes st b of None \<Rightarrow> None | Some bs \<Rightarrow> if i < length bs then Some (bs ! i) else None)"

lemma length_splice [simp]: "i + length src \<le> length bs \<Longrightarrow> length (splice bs i src) = length bs"
  by (simp add: splice_def)

lemma nth_splice:
  "i + length src \<le> length bs \<Longrightarrow> splice bs i src ! j = (if i \<le> j \<and> j < i + length src then src ! (j - i) else bs ! j)"
  by (auto simp: splice_def nth_append not_less)

lemma splice_slice: "i + length src \<le> length bs \<Longrightarrow> take (length src) (drop i (splice bs i src)) = src"
  by (simp add: splice_def)

lemma buffer_bytes_put:
  "buffer_bytes (put_bytes st b i src) b' =
     (if b' = b then map_option (\<lambda>bs. splice bs i src) (buffer_bytes st b) else buffer_bytes st b')"
  by (auto simp: buffer_bytes_def put_bytes_def split: option.splits)

lemma byte_at_put:
  assumes "buffer_bytes st b = Some bs" "i + length src \<le> length bs"
  shows "byte_at (put_bytes st b i src) b' j =
    (if b' = b \<and> i \<le> j \<and> j < i + length src then Some (src ! (j - i)) else byte_at st b' j)"
  using assms by (auto simp: byte_at_def buffer_bytes_put nth_splice)

lemma as_raw_SomeD:
  assumes "as_raw st v = Some raw"
  obtains bs where "buffer_bytes st (v_buf v) = Some bs" "v_off v + v_len v \<le> length bs"
    "raw = take (v_len v) (drop (v_off v) bs)" "length raw = v_len v"
  using assms by (auto simp: as_raw_def split: option.splits if_splits)

text \<open>A region survives a write of bytes that fit their buffer.\<close>

lemma as_raw_put:
  assumes "buffer_bytes st b = Some bs" "i + length src \<le> length bs" "as_raw st v \<noteq> None"
  shows "as_raw (put_bytes st b i src) v \<noteq> None"
  using assms by (auto simp: as_raw_def buffer_bytes_put split: option.splits if_splits)

lemma view_target:
  assumes "u8_view this = Ok v"
  shows "object_bytes_from_offset h st this 0 None = Ok (OB_Typed v)" "\<exists>c. this = J_View c v"
  using assms by (auto simp: u8_view_def object_bytes_from_offset_def get_array_bytes_def from_array_buffer_def
      split: jsval.splits view_class.splits)

lemma slice_splice: "i + length src \<le> length bs \<Longrightarrow> slice (splice bs i src) i (i + length src) = Some src"
  by (simp add: splice_slice)

lemma view_bounds: "as_raw st v \<noteq> None \<Longrightarrow> get_array_buffer st (OB_Typed v) = Ok (Some (v_buf v, v_len v, v_off v))"
  by (simp add: get_array_buffer_def typed_array_view_bounds_def)

lemma write_buf_Ok:
  assumes "u8_view this = Ok v" "write_buf h this value (Some off) en kind st = Ok (n, st')"
  obtains bytes bs where "number_bytes value en kind = Ok (bits kind div 8, bytes)" "length bytes = bits kind div 8"
    "buffer_bytes st (v_buf v) = Some bs" "n = off + bits kind div 8"
    "as_raw st v \<noteq> None" "v_off v + v_len v \<le> length bs" "v_off v + v_len v < 2 ^ 64" "n \<le> v_len v" "n < 2 ^ 64"
    "st' = put_bytes st (v_buf v) (v_off v + off) bytes"
proof -
  from assms(2) obtain k bytes where nb: "number_bytes value en kind = Ok (k, bytes)"
    by (auto simp: write_buf_def Let_def)
  from number_bytes_stored [OF nb] have k: "k = bits kind div 8" "length bytes = k" by simp_all
  have r: "as_raw st v \<noteq> None"
    using assms(2) nb by (auto simp: write_buf_def view_target [OF assms(1)] get_array_buffer_def typed_array_view_bounds_def split: if_splits)
  then obtain bs where bs: "buffer_bytes st (v_buf v) = Some bs" "v_off v + v_len v \<le> length bs"
    by (auto elim: as_raw_SomeD)
  show thesis
    by (rule that [of bytes bs]) (use assms nb k r bs in \<open>auto simp: write_buf_def view_target [OF assms(1)] view_bounds
        checked_add_def split: if_splits option.splits\<close>)
qed

text \<open>C21: a number written at an offset of a \<open>Buffer\<close> is read back at that offset with its value (rounded to a
  single for the 32-bit floats), in either byte order; the result of the write is the next offset, the
  bytes it changes are those of the number, inside the view.\<close>

theorem read_after_write:
  assumes "u8_view this = Ok v" "write_buf h this value (Some off) en kind st = Ok (n, st')"
  shows "read_buf h' this (Some off) en kind st' = Ok (stored kind value)
    \<and> n = off + bits kind div 8 \<and> n \<le> v_len v
    \<and> (\<forall>b i. byte_at st' b i \<noteq> byte_at st b i \<longrightarrow> b = v_buf v \<and> v_off v + off \<le> i \<and> i < v_off v + n)"
proof -
  from assms obtain bytes bs where w: "number_bytes value en kind = Ok (bits kind div 8, bytes)"
    "length bytes = bits kind div 8" "buffer_bytes st (v_buf v) = Some bs" "n = off + bits kind div 8"
    "as_raw st v \<noteq> None" "v_off v + v_len v \<le> length bs" "v_off v + v_len v < 2 ^ 64" "n \<le> v_len v" "n < 2 ^ 64"
    "st' = put_bytes st (v_buf v) (v_off v + off) bytes" by (rule write_buf_Ok)
  have fits: "v_off v + off + length bytes \<le> length bs" using w by simp
  have raw: "buffer_bytes st' (v_buf v) = Some (splice bs (v_off v + off) bytes)" using w by (simp add: buffer_bytes_put)
  have "as_raw st' v \<noteq> None" unfolding w(10) by (rule as_raw_put [OF w(3) fits w(5)])
  from view_bounds [OF this] have "read_buf h' this (Some off) en kind st' = read_value en kind bytes"
    using w(4,6-9) raw fits slice_splice [OF fits]
    by (simp add: read_buf_def view_target [OF assms(1)] checked_add_def w(2))
  moreover have "read_value en kind bytes = Ok (stored kind value)" using number_bytes_stored [OF w(1)] by simp
  moreover have "byte_at st' b i \<noteq> byte_at st b i \<longrightarrow> b = v_buf v \<and> v_off v + off \<le> i \<and> i < v_off v + n" for b i
    using w fits by (simp add: byte_at_put)
  ultimately show ?thesis using w by simp
qed

section \<open>Integers as doubles\<close>

lemma bit_len_bounds: "0 < n \<Longrightarrow> 2 ^ (bit_len n - 1) \<le> n \<and> n < 2 ^ bit_len n \<and> 0 < bit_len n"
proof (induction n rule: bit_len.induct)
  case (1 n)
  show ?case
  proof (cases "n = 1")
    case False
    define q where "q = n div 2"
    have q: "2 * q \<le> n" "n < 2 * q + 2" by (simp_all add: q_def)
    from 1 False have IH: "2 ^ (bit_len q - 1) \<le> q" "q < 2 ^ bit_len q" "0 < bit_len q" by (auto simp: q_def)
    from IH(3) obtain j where j: "bit_len q = Suc j" by (cases "bit_len q") auto
    have n: "bit_len n = Suc (Suc j)" using 1(2) j by (simp add: bit_len.simps [of n] q_def)
    have "2 * 2 ^ j \<le> n" using IH(1) q(1) by (simp add: j)
    moreover have "n < 4 * 2 ^ j" using IH(2) q(2) by (simp add: j)
    ultimately show ?thesis by (simp add: n)
  qed (simp add: bit_len.simps)
qed

lemma f64_make_fields:
  assumes "e < 2 ^ 11" "m < 2 ^ 52"
  shows "f64_sign (f64_make s e m) = s" "f64_exp (f64_make s e m) = e" "f64_mant (f64_make s e m) = m"
proof -
  define t where "t = (if s then 2 ^ 11 else 0) + e"
  have t: "t < 2 ^ 12" "t mod 2 ^ 11 = e" "s = (2 ^ 11 \<le> t)" using assms by (simp_all add: t_def)
  have "f64_make s e m = word_of_nat (t * 2 ^ 52 + m)" by (simp add: f64_make_def t_def)
  moreover have "t * 2 ^ 52 + m < 2 ^ 64" using t(1) assms(2) by simp
  ultimately have u: "unat (f64_make s e m) = t * 2 ^ 52 + m" by (simp only: unat_of_nat) simp
  moreover have "(t * 2 ^ 52 + m) div 2 ^ 52 = t" using assms(2) by simp
  moreover have "(t * 2 ^ 52 + m) mod 2 ^ 52 = m" using assms(2) by simp
  moreover have "(2 ^ 63 \<le> t * 2 ^ 52 + m) = (2 ^ 11 \<le> t)" using assms(2) by auto
  ultimately show "f64_sign (f64_make s e m) = s" "f64_exp (f64_make s e m) = e" "f64_mant (f64_make s e m) = m"
    using t by (simp_all only: f64_sign_def f64_exp_def f64_mant_def)
qed

lemma f64_of_int_exact:
  assumes "\<bar>n\<bar> < 2 ^ 53"
  shows "f64_to_i64 (f64_of_int n) = n" "is_integral_number (f64_of_int n)"
proof -
  have "f64_to_i64 (f64_of_int n) = n \<and> is_integral_number (f64_of_int n)"
  proof (cases "n = 0")
    case True
    then show ?thesis
      by (simp add: f64_of_int_def f64_to_i64_def f64_nan_def f64_finite_def f64_exp_def f64_mant_def f64_whole_def f64_sig_def
          f64_scale_def f64_sign_def clamp_i64_def is_integral_number_def f64_fract_def)
  next
    case False
    define a where "a = nat \<bar>n\<bar>"
    define e where "e = bit_len a - 1"
    let ?x = "f64_of_int n"
    have a: "0 < a" "a < 2 ^ 53" using False assms by (auto simp: a_def nat_less_iff)
    have be: "2 ^ e \<le> a" "a < 2 * 2 ^ e" using bit_len_bounds [OF a(1)] unfolding e_def
      by (auto simp: power_eq_if [of _ "bit_len a"])
    have e52: "e \<le> 52"
    proof (rule ccontr)
      assume "\<not> e \<le> 52"
      then have "(2 :: nat) ^ 53 \<le> 2 ^ e" by (intro power_increasing) auto
      with be a show False by simp
    qed
    have p: "2 ^ e * 2 ^ (52 - e) = (2 :: nat) ^ 52" using e52 by (simp flip: power_add)
    have "(a - 2 ^ e) * 2 ^ (52 - e) < 2 ^ e * 2 ^ (52 - e)" using be by (intro mult_strict_right_mono) auto
    then have m: "(a - 2 ^ e) * 2 ^ (52 - e) < 2 ^ 52" unfolding p .
    have x: "?x = f64_make (n < 0) (1023 + e) ((a - 2 ^ e) * 2 ^ (52 - e))"
      using False by (simp add: f64_of_int_def Let_def a_def e_def)
    have f: "f64_sign ?x = (n < 0)" "f64_exp ?x = 1023 + e" "f64_mant ?x = (a - 2 ^ e) * 2 ^ (52 - e)"
      unfolding x using e52 m by (intro f64_make_fields; simp)+
    have sig: "f64_sig ?x = a * 2 ^ (52 - e)"
      using be p by (simp add: f64_sig_def f diff_mult_distrib)
        (metis le_add_diff_inverse mult_le_mono1 p)
    have sc: "f64_scale ?x = int e - 52" by (simp add: f64_scale_def f)
    have nsc: "e < 52 \<Longrightarrow> nat (- f64_scale ?x) = 52 - e" "e = 52 \<Longrightarrow> f64_scale ?x = 0" by (simp_all add: sc)
    have "f64_whole ?x = a"
      using e52 nsc by (cases "e = 52") (simp_all add: f64_whole_def sig sc)
    moreover have "\<not> f64_fract ?x" using e52 nsc by (cases "e = 52") (simp_all add: f64_fract_def sig sc)
    moreover have "\<not> f64_nan ?x" "f64_finite ?x" using e52 by (simp_all add: f64_nan_def f64_finite_def f)
    ultimately show ?thesis using assms
      by (auto simp: f64_to_i64_def f is_integral_number_def clamp_i64_def a_def)
  qed
  then show "f64_to_i64 (f64_of_int n) = n" "is_integral_number (f64_of_int n)" by simp_all
qed

section \<open>Copying\<close>

text \<open>A region after a write inside it.\<close>

lemma as_raw_put_inside:
  assumes "as_raw st v = Some dst" "i + length src \<le> length dst"
  shows "as_raw (put_bytes st (v_buf v) (v_off v + i) src) v = Some (splice dst i src)"
proof -
  from assms(1) obtain bs where bs: "buffer_bytes st (v_buf v) = Some bs" "v_off v + v_len v \<le> length bs"
    "dst = take (v_len v) (drop (v_off v) bs)" "length dst = v_len v" by (rule as_raw_SomeD)
  have fits: "v_off v + i + length src \<le> length bs" using bs assms(2) by simp
  have "take (v_len v) (drop (v_off v) (splice bs (v_off v + i) src)) = splice dst i src"
    by (rule nth_equalityI) (use bs fits assms(2) in \<open>auto simp: nth_splice\<close>)
  then show ?thesis using bs fits by (simp add: as_raw_def buffer_bytes_put)
qed







section \<open>Slices that share bytes\<close>

lemma clamp_index_bounds: "0 \<le> n \<Longrightarrow> 0 \<le> clamp_index n s \<and> clamp_index n s \<le> n"
  by (auto simp: clamp_index_def)

text \<open>\<open>subarray\<close> of a readable \<open>Buffer\<close> succeeds for all indices, negative ones counted from the end; the
  new view has the bytes of the range, and what is written through it is seen in the old one.\<close>

theorem subarray_shares:
  assumes "u8_view this = Ok v" "as_raw st v = Some bs"
    "i = nat (clamp_index (int (length bs)) a)" "j = nat (clamp_index (int (length bs)) b)"
  shows "\<exists>w. subarray this (Some a) (Some b) st = Ok w \<and> as_raw st w = Some (take (j - i) (drop i bs))
    \<and> (\<forall>k src. k + length src \<le> j - i \<longrightarrow>
         as_raw (put_bytes st (v_buf w) (v_off w + k) src) v = Some (splice bs (i + k) src))"
proof -
  from assms(2) obtain full where f: "buffer_bytes st (v_buf v) = Some full" "v_off v + v_len v \<le> length full"
    "bs = take (v_len v) (drop (v_off v) full)" "length bs = v_len v" by (rule as_raw_SomeD)
  let ?n = "int (v_len v)"
  let ?w = "\<lparr>v_buf = v_buf v, v_off = v_off v + i, v_len = j - i\<rparr>"
  have ij: "int i = clamp_index ?n a" "int j = clamp_index ?n b" "i \<le> v_len v" "j \<le> v_len v"
    using assms(3,4) f(4) clamp_index_bounds [of ?n a] clamp_index_bounds [of ?n b] by auto
  have "nat (max (int j - int i) 0) = j - i" "nat (max (int (v_off v) + int i) 0) = v_off v + i" by simp_all
  then have w: "subarray this (Some a) (Some b) st = Ok ?w"
    using f(1,2) ij(3,4)
    by (simp only: subarray_def assms(1,2) rbind.simps option.case Let_def ij(1,2) [symmetric])
      (simp add: from_array_buffer_offset_length_def)
  have "as_raw st ?w = Some (take (j - i) (drop i bs))"
    using f ij by (simp add: as_raw_def take_drop add.commute min_def)
  moreover have "as_raw (put_bytes st (v_buf ?w) (v_off ?w + k) src) v = Some (splice bs (i + k) src)"
    if "k + length src \<le> j - i" for k src
    using as_raw_put_inside [OF assms(2), of "i + k" src] that ij f(4) by (simp add: add.assoc)
  ultimately show ?thesis using w by blast
qed

section \<open>Concatenation\<close>

lemma concat_loop_eq:
  assumes "list_all2 (\<lambda>x bs. \<exists>v. u8_view x = Ok v \<and> as_raw st v = Some bs) xs bss"
    "case m of None \<Rightarrow> True | Some k \<Rightarrow> tot = length acc \<and> tot \<le> k"
  shows "concat_loop h st m xs tot acc
    = Ok (case m of None \<Rightarrow> acc @ concat bss | Some k \<Rightarrow> take k (acc @ concat bss))"
  using assms
proof (induction xs bss arbitrary: tot acc rule: list_all2_induct)
  case (Cons x xs bs bss)
  then obtain v where v: "u8_view x = Ok v" "as_raw st v = Some bs" by blast
  show ?case
  proof (cases m)
    case None
    with Cons.IH [of tot "acc @ bs"] Cons.IH [of tot acc] v show ?thesis by (simp add: as_ref_def)
  next
    case (Some k)
    with Cons.prems have t: "tot = length acc" "tot \<le> k" by simp_all
    show ?thesis
    proof (cases "bs = [] \<or> tot + length bs \<le> k")
      case True
      with Some t v Cons.IH [of tot acc] Cons.IH [of "tot + length bs" "acc @ bs"] show ?thesis
        by (auto simp: as_ref_def Let_def)
    next
      case False
      then have "k - length acc \<le> length bs" using t by linarith
      from slice_in [OF le0 this] False Some t v show ?thesis by (simp add: as_ref_def Let_def)
    qed
  qed
qed (auto split: option.splits)

text \<open>\<open>Buffer.concat\<close> makes a new buffer with the bytes of all parts in order, cut to the given total
  length if there is one; the parts keep their bytes.\<close>

theorem concat_appends:
  assumes "list_all2 (\<lambda>x bs. \<exists>v. u8_view x = Ok v \<and> as_raw st v = Some bs) xs bss"
  shows "\<exists>v st'. concat_buffers h xs m st = Ok (v, st')
    \<and> as_raw st' v = Some (case m of None \<Rightarrow> concat bss | Some k \<Rightarrow> take k (concat bss))
    \<and> (\<forall>w bs. as_raw st w = Some bs \<longrightarrow> as_raw st' w = Some bs)"
proof -
  let ?r = "case m of None \<Rightarrow> concat bss | Some k \<Rightarrow> take k (concat bss)"
  have "concat_buffers h xs m st = Ok (buffer_into_js ?r st)"
    using concat_loop_eq [OF assms, where m = m and tot = 0 and acc = "[]" and h = h] by (auto simp: concat_buffers_def split: option.splits)
  moreover have "as_raw (st @ [Some ?r]) \<lparr>v_buf = length st, v_off = 0, v_len = length ?r\<rparr> = Some ?r"
    by (simp add: as_raw_def buffer_bytes_def)
  moreover have "as_raw (st @ [Some ?r]) w = Some bs" if "as_raw st w = Some bs" for w bs
    using that by (auto simp: as_raw_def buffer_bytes_def nth_append split: if_splits)
  ultimately show ?thesis by (auto simp: buffer_into_js_def)
qed

section \<open>Text in buffers\<close>

lemma as_raw_new: "as_raw (st @ [Some bs]) \<lparr>v_buf = length st, v_off = 0, v_len = length bs\<rparr> = Some bs"
  by (simp add: as_raw_def buffer_bytes_def)

text \<open>A string put into a buffer with \<open>Buffer.from\<close> and a text encoding is the string that \<open>toString\<close> with a
  label of the same encoding returns.\<close>

theorem from_to_string:
  assumes "list_all is_scalar s" "from_str label = Ok e" "from_str label' = Ok e" "e \<in> {Utf8, Windows1252, Utf16le, Utf16be}"
  shows "\<exists>v st'. buffer_from c h (J_String s) (Arg_Encoding label) n st = Ok (v, st')
    \<and> to_string c h (J_View Buffer_View v) (Some label') None None st' = Ok s"
proof -
  obtain bs where bs: "decode_from_string c e s = Ok bs" "encode_to_string c e bs True = Ok s"
    using text_roundtrip [OF assms(1,4)] by blast
  have "label' \<noteq> []" using assms(3) by (auto simp: from_str_def trim_ascii_def ENCODING_MAP_def)
  then have "from_optional_str (Some label') = Ok e" using assms(3) by (simp add: from_optional_str_def)
  with bs assms(2) show ?thesis
    by (simp add: buffer_from_def from_string_encoding_def buffer_into_js_def to_string_def u8_view_def as_ref_def as_raw_new
        or_throw_def Let_def)
qed

lemma char_indices_fit:
  "i \<le> n \<Longrightarrow> n < i + length (utf8_bytes s) \<Longrightarrow> \<exists>p c q. s = p @ c # q \<and> i + length (utf8_bytes p) \<le> n
     \<and> n < i + length (utf8_bytes (p @ [c])) \<and> filter (\<lambda>k. k \<le> n) (char_indices i s) \<noteq> []
     \<and> hd (rev (filter (\<lambda>k. k \<le> n) (char_indices i s))) = i + length (utf8_bytes p)"
proof (induction s arbitrary: i)
  case (Cons c s)
  let ?j = "i + length (utf8_encode c)"
  have above: "k \<in> set (char_indices j t) \<Longrightarrow> j \<le> k" for j k t
    by (induction j t rule: char_indices.induct) fastforce+
  show ?case
  proof (cases "?j \<le> n")
    case False
    then have "filter (\<lambda>k. k \<le> n) (char_indices ?j s) = []" by (auto simp: filter_empty_conv dest: above)
    with False Cons.prems show ?thesis by (intro exI [of _ "[]"] exI [of _ c] exI [of _ s]) (simp add: utf8_bytes_def)
  next
    case True
    from Cons.IH [OF this] Cons.prems obtain p d q where "s = p @ d # q" "?j + length (utf8_bytes p) \<le> n"
      "n < ?j + length (utf8_bytes (p @ [d]))" "filter (\<lambda>k. k \<le> n) (char_indices ?j s) \<noteq> []"
      "hd (rev (filter (\<lambda>k. k \<le> n) (char_indices ?j s))) = ?j + length (utf8_bytes p)"
      by (auto simp: utf8_bytes_def add.assoc)
    with Cons.prems(1) show ?thesis
      by (intro exI [of _ "c # p"] exI [of _ d] exI [of _ q]) (simp add: utf8_bytes_def hd_append)
  qed
qed (simp add: utf8_bytes_def)

text \<open>The cut is behind the longest prefix of whole characters that fits.\<close>

lemma safe_byte_slice_prefix:
  obtains p q where "s = p @ q" "safe_byte_slice s n = (utf8_bytes p, length (utf8_bytes p))" "length (utf8_bytes p) \<le> n"
    "q = [] \<or> n < length (utf8_bytes (p @ [hd q]))"
proof (cases "length (utf8_bytes s) \<le> n")
  case True
  then show thesis by (intro that [of s "[]"]) (simp_all add: safe_byte_slice_def Let_def)
next
  case False
  with char_indices_fit [of 0 n s] obtain p c q where f: "s = p @ c # q" "length (utf8_bytes p) \<le> n"
    "n < length (utf8_bytes (p @ [c]))" "filter (\<lambda>k. k \<le> n) (char_indices 0 s) \<noteq> []"
    "hd (rev (filter (\<lambda>k. k \<le> n) (char_indices 0 s))) = length (utf8_bytes p)" by auto
  then obtain r where "rev (filter (\<lambda>k. k \<le> n) (char_indices 0 s)) = length (utf8_bytes p) # r"
    by (metis list.collapse rev_is_Nil_conv)
  with False f(1) have "safe_byte_slice s n = (utf8_bytes p, length (utf8_bytes p))"
    by (simp add: safe_byte_slice_def Let_def utf8_bytes_def)
  with f show thesis by (intro that [of p "c # q"]) simp_all
qed

text \<open>\<open>write\<close> without further arguments, on a \<open>Buffer\<close> that covers its whole array buffer, writes the longest
  prefix of the string that fits, in whole characters, and returns its size in bytes.\<close>

theorem write_longest_prefix:
  assumes "u8_view this = Ok v" "v_off v = 0" "buffer_bytes st (v_buf v) = Some bs" "v_len v = length bs" "length bs < 2 ^ 64"
  shows "\<exists>p q. s = p @ q \<and> length (utf8_bytes p) \<le> length bs \<and> (q = [] \<or> length bs < length (utf8_bytes (p @ [hd q])))
    \<and> (\<exists>st'. write_string c h this (v_len v) s [] st = Ok (length (utf8_bytes p), st')
         \<and> as_raw st' v = Some (utf8_bytes p @ drop (length (utf8_bytes p)) bs))"
proof -
  let ?n = "min (length bs) (length (utf8_bytes s))"
  obtain p q where pq: "s = p @ q" "safe_byte_slice s ?n = (utf8_bytes p, length (utf8_bytes p))" "length (utf8_bytes p) \<le> ?n"
    "q = [] \<or> ?n < length (utf8_bytes (p @ [hd q]))" by (rule safe_byte_slice_prefix)
  have raw: "as_raw st v = Some bs" using assms(2-4) by (simp add: as_raw_def)
  have "from_str ''utf8'' = Ok Utf8" by code_simp
  then have "write_string c h this (v_len v) s [] st = Ok (length (utf8_bytes p), put_bytes st (v_buf v) 0 (utf8_bytes p))"
    using assms pq raw
    by (simp add: write_string_def get_write_parameters_def view_target [OF assms(1)] view_bounds or_throw_def copy_into_def)
  moreover have "as_raw (put_bytes st (v_buf v) 0 (utf8_bytes p)) v = Some (utf8_bytes p @ drop (length (utf8_bytes p)) bs)"
    using as_raw_put_inside [OF raw, of 0 "utf8_bytes p"] pq(3) assms(2) by (simp add: splice_def)
  moreover have "q = [] \<or> length bs < length (utf8_bytes (p @ [hd q]))"
    using pq(4) by (cases q) (auto simp: pq(1) utf8_bytes_def)
  ultimately show ?thesis using pq by auto
qed

section \<open>Concrete buffers\<close>

definition demo_host :: host where
  "demo_host = \<lparr>h_u8 = (\<lambda>_. Err (Message ''not a byte'')), h_string = (\<lambda>_. None), h_number = (\<lambda>_ st. (Ok 0, st)), h_detached = Panic\<rparr>"

definition demo_store :: store where
  "demo_store = [Some [1, 2, 3, 4, 5], None]"

definition demo_view :: view where
  "demo_view = \<lparr>v_buf = 0, v_off = 0, v_len = 5\<rparr>"

definition inner_view :: view where
  "inner_view = \<lparr>v_buf = 0, v_off = 1, v_len = 4\<rparr>"

abbreviation demo_buffer :: jsval where
  "demo_buffer \<equiv> J_View Buffer_View demo_view"

abbreviation inner_buffer :: jsval where
  "inner_buffer \<equiv> J_View Buffer_View inner_view"

lemma demo_views: "u8_view demo_buffer = Ok demo_view" "u8_view inner_buffer = Ok inner_view"
  "as_raw demo_store demo_view = Some [1, 2, 3, 4, 5]" "as_raw demo_store inner_view = Some [2, 3, 4, 5]"
  by (simp_all add: u8_view_def as_raw_def buffer_bytes_def demo_store_def demo_view_def inner_view_def)

lemma demo_bytes: "number_bytes (J_Int 258) Big UInt16 = Ok (2, [1, 2])"
proof -
  have "f64_to_i64 (f64_of_int 258) = 258" by (rule f64_of_int_exact) simp
  moreover have "to_bytes Big 2 258 = [1, 2]" by (simp add: to_bytes_def be_bytes_def upt_rec)
  ultimately show ?thesis by (simp add: number_bytes_def as_number_def is_signed_def shifted_bytes_eq)
qed

lemma demo_write: "write_buf demo_host inner_buffer (J_Int 258) (Some 1) Big UInt16 demo_store = Ok (3, [Some [1, 2, 1, 2, 5], None])"
  using view_bounds [of demo_store inner_view]
  by (simp add: write_buf_def demo_bytes demo_views view_target [OF demo_views(2)] checked_add_def)
    (simp add: inner_view_def demo_store_def buffer_bytes_def put_bytes_def splice_def checked_add_def)


theorem read_after_write_witness:
  "write_buf demo_host inner_buffer (J_Int 258) (Some 1) Big UInt16 demo_store = Ok (3, [Some [1, 2, 1, 2, 5], None])
   \<and> read_buf demo_host inner_buffer (Some 1) Big UInt16 [Some [1, 2, 1, 2, 5], None] = Ok (J_Int 258)"
proof -
  have "stored UInt16 (J_Int 258) = J_Int 258" by (simp add: stored_def as_number_def f64_of_int_exact)
  with read_after_write [OF demo_views(2) demo_write, of demo_host] demo_write show ?thesis by simp
qed


theorem subarray_shares_witness:
  "\<exists>w. subarray inner_buffer (Some (- 3)) (Some 9) demo_store = Ok w \<and> as_raw demo_store w = Some [3, 4, 5]
     \<and> as_raw (put_bytes demo_store (v_buf w) (v_off w + 1) [7]) inner_view = Some [2, 3, 7, 5]"
proof -
  from subarray_shares [OF demo_views(2,4) refl refl, of "- 3" 9] obtain w
    where w: "subarray inner_buffer (Some (- 3)) (Some 9) demo_store = Ok w" "as_raw demo_store w = Some [3, 4, 5]"
    "\<forall>k src. k + length src \<le> 3 \<longrightarrow> as_raw (put_bytes demo_store (v_buf w) (v_off w + k) src) inner_view = Some (splice [2, 3, 4, 5] (1 + k) src)"
    by (auto simp: clamp_index_def)
  from w(3) [rule_format, of 1 "[7]"] have "as_raw (put_bytes demo_store (v_buf w) (v_off w + 1) [7]) inner_view = Some [2, 3, 7, 5]"
    by (simp add: splice_def)
  with w show ?thesis by blast
qed

theorem concat_appends_witness:
  "\<exists>v st'. concat_buffers demo_host [demo_buffer, inner_buffer] (Some 7) demo_store = Ok (v, st')
    \<and> as_raw st' v = Some [1, 2, 3, 4, 5, 2, 3]"
  using concat_appends [of demo_store "[demo_buffer, inner_buffer]" "[[1, 2, 3, 4, 5], [2, 3, 4, 5]]" demo_host "Some 7"] demo_views
  by auto

theorem from_to_string_witness:
  "\<exists>v st'. buffer_from rfc_codecs demo_host (J_String [0x61, 0x1F4D8]) (Arg_Encoding ''utf16le'') None [] = Ok (v, st')
    \<and> to_string rfc_codecs demo_host (J_View Buffer_View v) (Some ''ucs2'') None None st' = Ok [0x61, 0x1F4D8]"
proof -
  have "from_str ''utf16le'' = Ok Utf16le" "from_str ''ucs2'' = Ok Utf16le" by code_simp+
  from from_to_string [OF _ this] show ?thesis by (simp add: is_scalar_def)
qed

theorem write_longest_prefix_witness:
  "\<exists>p q. [0x61, 0x62, 0x1F4D8] = p @ q \<and> length (utf8_bytes p) \<le> length [1 :: byte, 2, 3, 4, 5]
    \<and> (q = [] \<or> length [1 :: byte, 2, 3, 4, 5] < length (utf8_bytes (p @ [hd q])))
    \<and> (\<exists>st'. write_string rfc_codecs demo_host demo_buffer (v_len demo_view) [0x61, 0x62, 0x1F4D8] [] demo_store
          = Ok (length (utf8_bytes p), st')
        \<and> as_raw st' demo_view = Some (utf8_bytes p @ drop (length (utf8_bytes p)) [1, 2, 3, 4, 5]))"
  by (rule write_longest_prefix [OF demo_views(1)]) (simp_all add: demo_view_def demo_store_def buffer_bytes_def)

section \<open>Where the code goes wrong\<close>

text \<open>An empty fill makes \<open>alloc\<close> divide by zero.\<close>

lemma alloc_empty_fill_panics: "alloc rfc_codecs 1 (Some (J_String [])) None [] = Panic"
  by (simp add: alloc_def alloc_byte_ref_def utf8_bytes_def)

text \<open>A start behind the end makes \<open>toString\<close> slice backwards.\<close>

lemma to_string_reversed_panics: "to_string rfc_codecs demo_host demo_buffer None (Some 2) (Some 1) demo_store = Panic"
  by (simp add: to_string_def demo_views as_ref_def slice_def)

text \<open>\<open>write\<close> forgets the offset of the view: it writes at the start of the array buffer, outside the view.\<close>

lemma write_ignores_view_offset:
  "write_string rfc_codecs demo_host inner_buffer 4 [0x7A] [] demo_store = Ok (1, [Some [0x7A, 2, 3, 4, 5], None])"
proof -
  have "from_str ''utf8'' = Ok Utf8" by code_simp
  then show ?thesis using view_bounds [of demo_store inner_view]
    by (simp add: write_string_def get_write_parameters_def view_target [OF demo_views(2)] demo_views or_throw_def
        safe_byte_slice_def utf8_bytes_def utf8_encode_def)
      (simp add: copy_into_def inner_view_def demo_store_def buffer_bytes_def put_bytes_def splice_def)
qed

text \<open>With an offset but no length the length is not reduced by the offset: a string that would have to be cut panics.\<close>

lemma write_offset_panics:
  "write_string rfc_codecs demo_host demo_buffer 5 [0x61, 0x62, 0x63] [Arg_Int 3] demo_store = Panic"
proof -
  have "from_str ''utf8'' = Ok Utf8" by code_simp
  then show ?thesis using view_bounds [of demo_store demo_view]
    by (simp add: write_string_def get_write_parameters_def view_target [OF demo_views(1)] demo_views or_throw_def
        safe_byte_slice_def utf8_bytes_def utf8_encode_def usize_of_int_def)
      (simp add: copy_into_def demo_view_def demo_store_def buffer_bytes_def slice_def)
qed

end
