(* ===== verification/Timers.thy ===== *)
theory Timers
  imports Raster_Prelude
begin

text \<open>
  Timers, \<open>raster_runtime_timers/src/lib.rs\<close>, with the reference counts of the event loop,
  \<open>raster_runtime_utils/src/event_loop.rs\<close>, for one runtime. An instant is a number of milliseconds; the clock of the
  state never goes back. User code (the callbacks, the asynchronous hooks a timer calls, pending jobs and native
  drivers) is a program: from all that has happened it chooses the calls it makes, the time it takes and whether
  it throws. Its calls may be timer functions, or a request for a module, which polls the timers while it waits; so
  callbacks, hooks and polls nest without bound. User code runs on fuel, and what runs out of it is cut off with the
  state it has reached.
\<close>

datatype provider = Immediate | Interval | Timeout | Other_Provider

record timeout =
  callback :: "nat option"
  t_deadline :: int
  t_id :: nat
  hook_id :: nat
  repeating :: bool
  interval :: nat
  pending_destroy :: bool
  referenced :: bool
  loop_ref :: nat

record timer_handle =
  h_id :: nat
  h_ref :: nat

text \<open>The user code there is: the four hooks of a timer, its callback (with its hook), pending jobs and native drivers.\<close>

datatype code = Hook_Init nat | Hook_Before nat | Hook_After nat | Hook_Destroy nat | Callback nat nat | Jobs | Drivers

text \<open>What is written down: a timer enters the list with its first deadline, and user code begins at some time.\<close>

datatype event = E_Set nat int bool | E_Code code int

text \<open>A callback that is due: its sort key, the callback and the hook.\<close>

datatype executing = Executing int nat nat

primrec exec_key :: "executing \<Rightarrow> int" where
  "exec_key (Executing k _ _) = k"

primrec exec_hook :: "executing \<Rightarrow> nat" where
  "exec_hook (Executing _ _ h) = h"

primrec exec_cb :: "executing \<Rightarrow> nat" where
  "exec_cb (Executing _ c _) = c"

text \<open>\<open>pumps\<close> are the vectors \<open>executing_timers\<close> of the servers that pump the event loop; they outlive a poll.\<close>

record tstate =
  timers :: "timeout list"
  running :: bool
  deadline :: int
  executing_hook_id :: nat
  notified :: bool
  refs :: nat
  http_inflight :: nat
  loop_refs :: "bool list"
  timer_handles :: "timer_handle list"
  next_id :: nat
  next_hook :: nat
  pumps :: "executing option list list"
  clock :: int
  log :: "event list"

definition FAR :: int where
  "FAR = 86400 * 365 * 30 * 1000"

definition tstate_new :: "int \<Rightarrow> tstate" where
  "tstate_new now = \<lparr>timers = [], running = False, deadline = now + FAR, executing_hook_id = 0, notified = False,
     refs = 0, http_inflight = 0, loop_refs = [], timer_handles = [], next_id = 0, next_hook = 1, pumps = [], clock = now, log = []\<rparr>"

section \<open>References of the event loop\<close>

definition has_refed_handles :: "tstate \<Rightarrow> bool" where
  "has_refed_handles s \<longleftrightarrow> refs s > 0"

definition has_http_inflight :: "tstate \<Rightarrow> bool" where
  "has_http_inflight s \<longleftrightarrow> http_inflight s > 0"

definition should_keep_process_alive :: "tstate \<Rightarrow> bool" where
  "should_keep_process_alive s \<longleftrightarrow> has_refed_handles s \<or> has_http_inflight s"

text \<open>The counter of the HTTP requests is a \<open>usize\<close> and wraps around.\<close>

definition adjust_http_inflight :: "int \<Rightarrow> tstate \<Rightarrow> tstate" where
  "adjust_http_inflight delta s = s\<lparr>http_inflight := nat ((int (http_inflight s) + delta) mod 2 ^ 64)\<rparr>"

definition increment_ref :: "tstate \<Rightarrow> tstate" where
  "increment_ref s = s\<lparr>refs := refs s + 1\<rparr>"

definition decrement_ref :: "tstate \<Rightarrow> tstate" where
  "decrement_ref s = s\<lparr>refs := refs s - 1\<rparr>"

definition new_referenced :: "tstate \<Rightarrow> nat \<times> tstate" where
  "new_referenced s = (length (loop_refs s), (increment_ref s)\<lparr>loop_refs := loop_refs s @ [True]\<rparr>)"

definition new_unreferenced :: "tstate \<Rightarrow> nat \<times> tstate" where
  "new_unreferenced s = (length (loop_refs s), s\<lparr>loop_refs := loop_refs s @ [False]\<rparr>)"

definition is_referenced :: "nat \<Rightarrow> tstate \<Rightarrow> bool" where
  "is_referenced r s \<longleftrightarrow> loop_refs s ! r"

definition reference :: "nat \<Rightarrow> tstate \<Rightarrow> tstate" where
  "reference r s = (if loop_refs s ! r then s else increment_ref (s\<lparr>loop_refs := (loop_refs s)[r := True]\<rparr>))"

definition unreference :: "nat \<Rightarrow> tstate \<Rightarrow> tstate" where
  "unreference r s = (if loop_refs s ! r then decrement_ref (s\<lparr>loop_refs := (loop_refs s)[r := False]\<rparr>) else s)"

definition keeps_event_loop_alive :: "nat \<Rightarrow> tstate \<Rightarrow> bool" where
  "keeps_event_loop_alive r s \<longleftrightarrow> is_referenced r s \<or> has_refed_handles s"

text \<open>
  A handle is dropped with its last owner (the timer and its JS object): a place in \<open>loop_refs\<close> is never used
  again, so it is marked as not referenced. That waiting tasks are woken when the count comes to zero is not
  part of the state.
\<close>

definition drop_ref :: "nat \<Rightarrow> tstate \<Rightarrow> tstate" where
  "drop_ref r s = (if loop_refs s ! r then (decrement_ref s)\<lparr>loop_refs := (loop_refs s)[r := False]\<rparr> else s)"

section \<open>Running user code\<close>

text \<open>How a call ends: with a value, an exception, or not within the fuel.\<close>

datatype 'a ending = Returned 'a | Threw | Cut

type_synonym codef = "code \<Rightarrow> tstate \<Rightarrow> unit ending \<times> tstate"

text \<open>The operator \<open>?\<close> passes an exception on; \<open>let _ =\<close> ignores it.\<close>

definition question :: "'a ending \<times> tstate \<Rightarrow> (tstate \<Rightarrow> 'b ending \<times> tstate) \<Rightarrow> 'b ending \<times> tstate" where
  "question m f = (case m of (Returned _, s) \<Rightarrow> f s | (Threw, s) \<Rightarrow> (Threw, s) | (Cut, s) \<Rightarrow> (Cut, s))"

definition ignoring :: "'a ending \<times> tstate \<Rightarrow> (tstate \<Rightarrow> 'b ending \<times> tstate) \<Rightarrow> 'b ending \<times> tstate" where
  "ignoring m f = (case m of (Returned _, s) \<Rightarrow> f s | (Threw, s) \<Rightarrow> f s | (Cut, s) \<Rightarrow> (Cut, s))"

section \<open>Setting and clearing timers\<close>

definition notify_one :: "tstate \<Rightarrow> tstate" where
  "notify_one s = s\<lparr>notified := True\<rparr>"

definition emit :: "event \<Rightarrow> tstate \<Rightarrow> tstate" where
  "emit e s = s\<lparr>log := log s @ [e]\<rparr>"

definition should_keep_timer_loop :: "tstate \<Rightarrow> bool" where
  "should_keep_timer_loop s \<longleftrightarrow>
     (\<exists>t\<in>set (timers s). callback t \<noteq> None)
     \<and> (has_http_inflight s \<or> has_refed_handles s \<or> (\<exists>t\<in>set (timers s). callback t \<noteq> None \<and> referenced t))"

definition keeps_timers_alive :: "tstate \<Rightarrow> bool" where
  "keeps_timers_alive s = should_keep_timer_loop s"

definition has_pending_timer_callbacks :: "tstate \<Rightarrow> bool" where
  "has_pending_timer_callbacks s \<longleftrightarrow> (\<exists>t\<in>set (timers s). callback t \<noteq> None)"

text \<open>\<open>iter_mut().find\<close>: the first element with the property is changed.\<close>

primrec update_first :: "('a \<Rightarrow> bool) \<Rightarrow> ('a \<Rightarrow> 'a) \<Rightarrow> 'a list \<Rightarrow> 'a list" where
  "update_first p f [] = []"
| "update_first p f (x # xs) = (if p x then f x # xs else x # update_first p f xs)"

definition set_timer_referenced :: "nat \<Rightarrow> bool \<Rightarrow> tstate \<Rightarrow> tstate" where
  "set_timer_referenced i r s =
     (case List.find (\<lambda>t. t_id t = i) (timers s) of
        None \<Rightarrow> s
      | Some _ \<Rightarrow>
          let s = s\<lparr>timers := update_first (\<lambda>t. t_id t = i) (\<lambda>t. t\<lparr>referenced := r\<rparr>) (timers s)\<rparr>
          in if r then s else notify_one s)"

definition js_ref :: "timer_handle \<Rightarrow> tstate \<Rightarrow> tstate" where
  "js_ref h s = set_timer_referenced (h_id h) True (reference (h_ref h) s)"

definition unref :: "timer_handle \<Rightarrow> tstate \<Rightarrow> tstate" where
  "unref h s = set_timer_referenced (h_id h) False (unreference (h_ref h) s)"

definition has_ref :: "timer_handle \<Rightarrow> tstate \<Rightarrow> bool" where
  "has_ref h s = is_referenced (h_ref h) s"

text \<open>The deadline of a new timer; an immediate is due in the past, before every timeout.\<close>

definition timer_deadline :: "provider \<Rightarrow> nat \<Rightarrow> int \<Rightarrow> (bool \<times> int) option" where
  "timer_deadline p delay now =
     (case p of
        Immediate \<Rightarrow> Some (False, now - 600000)
      | Timeout \<Rightarrow> Some (False, now + int delay)
      | Interval \<Rightarrow> Some (True, now + int delay)
      | Other_Provider \<Rightarrow> None)"

definition set_timeout_interval :: "codef \<Rightarrow> nat \<Rightarrow> nat \<Rightarrow> provider \<Rightarrow> bool \<Rightarrow> tstate \<Rightarrow> timer_handle ending \<times> tstate" where
  "set_timeout_interval code cb delay p ref s =
     (case timer_deadline p delay (clock s) of
        None \<Rightarrow> (Threw, s)
      | Some (rep, dl) \<Rightarrow>
          let i = next_id s; hk = next_hook s
          in question (code (Hook_Init hk) (s\<lparr>next_id := i + 1, next_hook := hk + 1\<rparr>)) (\<lambda>s.
               let (r, s) = (if ref then new_referenced s else new_unreferenced s);
                   t = \<lparr>callback = Some cb, t_deadline = dl, t_id = i, hook_id = hk, repeating = rep, interval = delay,
                        pending_destroy = False, referenced = ref, loop_ref = r\<rparr>;
                   s = emit (E_Set hk dl rep) (s\<lparr>timers := timers s @ [t]\<rparr>);
                   s = (if running s then (if dl < deadline s then notify_one (s\<lparr>deadline := dl\<rparr>) else s)
                        else if should_keep_timer_loop s then s\<lparr>running := True\<rparr> else s);
                   h = \<lparr>h_id = i, h_ref = r\<rparr>
               in (Returned h, s\<lparr>timer_handles := timer_handles s @ [h]\<rparr>)))"

datatype clear_arg = C_Number nat | C_Handle timer_handle | C_Other

definition timer_id_from_value :: "clear_arg \<Rightarrow> nat option" where
  "timer_id_from_value a = (case a of C_Number n \<Rightarrow> Some n | C_Handle h \<Rightarrow> Some (h_id h) | C_Other \<Rightarrow> None)"

definition clear_timeout_interval :: "codef \<Rightarrow> clear_arg \<Rightarrow> tstate \<Rightarrow> unit ending \<times> tstate" where
  "clear_timeout_interval code a s =
     (case timer_id_from_value a of
        None \<Rightarrow> (Returned (), s)
      | Some i \<Rightarrow>
          (case List.find (\<lambda>t. t_id t = i) (timers s) of
             None \<Rightarrow> (Returned (), s)
           | Some t \<Rightarrow>
               let self_clear = (executing_hook_id s = hook_id t \<and> hook_id t \<noteq> 0);
                   s = s\<lparr>timers := update_first (\<lambda>t. t_id t = i) (\<lambda>t. t\<lparr>callback := None, repeating := False,
                          t_deadline := clock s - 1000, referenced := False,
                          pending_destroy := (self_clear \<or> pending_destroy t)\<rparr>) (timers s)\<rparr>;
                   s = notify_one (unreference (loop_ref t) s)
               in if self_clear then (Returned (), s)
                  else ignoring (code (Hook_Destroy (hook_id t)) s) (\<lambda>s. (Returned (), s))))"

section \<open>Polling\<close>

text \<open>
  What \<open>retain_mut\<close> does with one timer: whether it is kept (and how) and whether it is called. The reference of a one-shot timer that is due is released.
\<close>

definition retain_step :: "int \<Rightarrow> timeout \<Rightarrow> timeout option \<times> executing option" where
  "retain_step now t =
     (if t_deadline t < now then
        (case callback t of
           None \<Rightarrow> (None, None)
         | Some cb \<Rightarrow>
             if \<not> repeating t then (None, Some (Executing (t_deadline t) cb (hook_id t)))
             else let t = t\<lparr>t_deadline := now + int (interval t)\<rparr>
               in (Some t, Some (Executing (t_deadline t) cb (hook_id t))))
      else (Some t, None))"

definition one_shot_due :: "int \<Rightarrow> timeout \<Rightarrow> bool" where
  "one_shot_due now t \<longleftrightarrow> t_deadline t < now \<and> callback t \<noteq> None \<and> \<not> repeating t"

definition retain_timers :: "int \<Rightarrow> tstate \<Rightarrow> executing list \<times> tstate" where
  "retain_timers now s =
     (List.map_filter (\<lambda>t. snd (retain_step now t)) (timers s),
      fold (\<lambda>t. if one_shot_due now t then unreference (loop_ref t) else id) (timers s)
        (s\<lparr>timers := List.map_filter (\<lambda>t. fst (retain_step now t)) (timers s)\<rparr>))"

definition MIN_SLEEP :: int where
  "MIN_SLEEP = 4"

definition FAR_FUTURE :: int where
  "FAR_FUTURE = 84200 * 365 * 30 * 1000"

definition next_deadline :: "int \<Rightarrow> timeout list \<Rightarrow> int" where
  "next_deadline now ts = max (now + MIN_SLEEP) (fold (\<lambda>t. min (t_deadline t)) ts (now + FAR_FUTURE))"

definition destroy_now :: "nat \<Rightarrow> tstate \<Rightarrow> bool" where
  "destroy_now hk s = (case List.find (\<lambda>t. hook_id t = hk) (timers s) of None \<Rightarrow> True | Some t \<Rightarrow> pending_destroy t)"

text \<open>One callback. The guard resets \<open>executing_hook_id\<close> however the block is left.\<close>

definition run_timer :: "codef \<Rightarrow> executing \<Rightarrow> tstate \<Rightarrow> unit ending \<times> tstate" where
  "run_timer code x s =
     (case x of Executing _ cb hk \<Rightarrow>
        (case question (code (Hook_Before hk) (s\<lparr>executing_hook_id := hk\<rparr>)) (\<lambda>s.
                let (call_result, s) = code (Callback hk cb) s
                in if call_result = Cut then (Cut, s)
                   else question (code (Hook_After hk) s) (\<lambda>s.
                     if call_result = Threw then (Threw, s)
                     else ignoring (code Jobs s) (\<lambda>s.
                       if destroy_now hk s
                       then ignoring (code (Hook_Destroy hk) s) (\<lambda>s. (Returned (), s\<lparr>timers := filter (\<lambda>t. hook_id t \<noteq> hk) (timers s)\<rparr>))
                       else (Returned (), s)))) of
           (r, s) \<Rightarrow> (r, s\<lparr>executing_hook_id := 0\<rparr>)))"

text \<open>
  The loop over \<open>call_vec\<close>, with what is left of it: an item is taken before it is called, and an exception leaves the
  rest where it is. Pending jobs are run before the first callback.
\<close>

primrec run_items :: "codef \<Rightarrow> bool \<Rightarrow> executing option list \<Rightarrow> tstate \<Rightarrow> unit ending \<times> executing option list \<times> tstate" where
  "run_items code is_first_time [] s = (Returned (), [], s)"
| "run_items code is_first_time (v # vs) s =
     (case v of
        None \<Rightarrow> (case run_items code is_first_time vs s of (r, vs, s) \<Rightarrow> (r, None # vs, s))
      | Some x \<Rightarrow>
          (case (if is_first_time then ignoring (code Jobs s) (run_timer code x) else run_timer code x s) of
             (Returned _, s) \<Rightarrow> (case run_items code False vs s of (r, vs, s) \<Rightarrow> (r, None # vs, s))
           | (r, s) \<Rightarrow> (r, None # vs, s)))"

text \<open>
  \<open>sort_unstable_by_key\<close> leaves the order of equal keys open: it is the parameter \<open>sorter\<close>. The vector belongs to the
  caller; it is cleared at the end, but not when an exception ends the poll.
\<close>

type_synonym sortf = "executing option list \<Rightarrow> executing option list"

definition poll_timers :: "sortf \<Rightarrow> codef \<Rightarrow> executing option list \<Rightarrow> tstate \<Rightarrow> bool ending \<times> executing option list \<times> tstate" where
  "poll_timers sorter code call_vec s =
     (case code Drivers s of
        (Cut, s) \<Rightarrow> (Cut, call_vec, s)
      | (_, s) \<Rightarrow>
          let now = clock s;
              had_items = (timers s \<noteq> []);
              (due, s) = retain_timers now s;
              has_items = (timers s \<noteq> []);
              s = (if had_items then s\<lparr>deadline := next_deadline now (timers s)\<rparr> else s)
          in case run_items code True (sorter (call_vec @ map Some due)) s of
               (Returned _, _, s) \<Rightarrow>
                 if \<not> should_keep_timer_loop s \<or> \<not> has_items then (Returned False, [], s\<lparr>running := False\<rparr>)
                 else (Returned True, [], s\<lparr>running := True\<rparr>)
             | (Threw, call_vec, s) \<Rightarrow> (Threw, call_vec, s)
             | (Cut, call_vec, s) \<Rightarrow> (Cut, call_vec, s))"

section \<open>Programs\<close>

text \<open>
  The calls of user code. \<open>Import_Poll\<close> is a turn of the loop in which a request for a module waits (\<open>import_load.rs\<close>): a
  poll with a vector of its own, which is empty between two polls and dropped when one throws. \<open>Pass\<close> lets time pass.
\<close>

datatype call = Set nat nat provider bool | Clear clear_arg | Ref timer_handle | Unref timer_handle | Import_Poll | Pass nat

definition run_call :: "sortf \<Rightarrow> codef \<Rightarrow> call \<Rightarrow> tstate \<Rightarrow> unit ending \<times> tstate" where
  "run_call sorter code c s =
     (case c of
        Set cb delay p ref \<Rightarrow> question (set_timeout_interval code cb delay p ref s) (\<lambda>s. (Returned (), s))
      | Clear a \<Rightarrow> clear_timeout_interval code a s
      | Ref h \<Rightarrow> (Returned (), if h \<in> set (timer_handles s) then js_ref h s else s)
      | Unref h \<Rightarrow> (Returned (), if h \<in> set (timer_handles s) then unref h s else s)
      | Import_Poll \<Rightarrow> (case poll_timers sorter code [] s of (r, _, s) \<Rightarrow> question (r, s) (\<lambda>s. (Returned (), s)))
      | Pass dt \<Rightarrow> (Returned (), s\<lparr>clock := clock s + int dt\<rparr>))"

text \<open>The calls user code makes, those after an exception it has caught included, and whether it throws in the end.\<close>

record script =
  calls :: "call list"
  throws :: bool

type_synonym program = "code \<Rightarrow> event list \<Rightarrow> script"

primrec run_calls :: "sortf \<Rightarrow> codef \<Rightarrow> call list \<Rightarrow> tstate \<Rightarrow> unit ending \<times> tstate" where
  "run_calls sorter code [] s = (Returned (), s)"
| "run_calls sorter code (c # cs) s = ignoring (run_call sorter code c s) (run_calls sorter code cs)"

primrec run_code :: "sortf \<Rightarrow> program \<Rightarrow> nat \<Rightarrow> codef" where
  "run_code sorter P 0 w s = (Cut, s)"
| "run_code sorter P (Suc n) w s =
     (let sc = P w (log s)
      in question (run_calls sorter (run_code sorter P n) (calls sc) (emit (E_Code w (clock s)) s))
           (\<lambda>s. (if throws sc then Threw else Returned (), s)))"

section \<open>The loops\<close>

definition resume_timer_loop_if_idle :: "tstate \<Rightarrow> bool \<times> tstate" where
  "resume_timer_loop_if_idle s =
     (if running s \<or> \<not> should_keep_timer_loop s then (False, s) else (True, s\<lparr>running := True\<rparr>))"

primrec destroy_all :: "codef \<Rightarrow> nat list \<Rightarrow> tstate \<Rightarrow> unit ending \<times> tstate" where
  "destroy_all code [] s = (Returned (), s)"
| "destroy_all code (hk # hks) s =
     (if hk \<noteq> 0 then ignoring (code (Hook_Destroy hk) s) (destroy_all code hks) else destroy_all code hks s)"

definition discard_all_timers_on_process_exit :: "codef \<Rightarrow> tstate \<Rightarrow> unit ending \<times> tstate" where
  "discard_all_timers_on_process_exit code s =
     (let ids = map hook_id (filter (\<lambda>t. callback t \<noteq> None) (timers s));
          s = fold (\<lambda>t. unreference (loop_ref t)) (timers s) s;
          s = notify_one (s\<lparr>timers := [], running := False\<rparr>)
      in destroy_all code ids s)"

text \<open>
  A turn of the timer task: an exception ends the task, and its vector goes with it, so the vector is empty when a poll
  begins. A tick of the pump \<open>i\<close> of a server: the exception is ignored, and the vector stays.
\<close>

definition spawn_loop_turn :: "sortf \<Rightarrow> codef \<Rightarrow> tstate \<Rightarrow> unit ending \<times> tstate" where
  "spawn_loop_turn sorter code s = (case poll_timers sorter code [] s of (r, _, s) \<Rightarrow> ignoring (r, s) (\<lambda>s. (Returned (), s)))"

definition pump_tick :: "sortf \<Rightarrow> codef \<Rightarrow> nat \<Rightarrow> tstate \<Rightarrow> unit ending \<times> tstate" where
  "pump_tick sorter code i s =
     (let executing_timers = pumps s ! i;
          put = (\<lambda>v s. s\<lparr>pumps := (pumps s)[i := v]\<rparr>)
      in case code Jobs (put [] s) of
           (Cut, s) \<Rightarrow> (Cut, put executing_timers s)
         | (_, s) \<Rightarrow>
             (case poll_timers sorter code executing_timers s of
                (r, executing_timers, s) \<Rightarrow> ignoring (r, put executing_timers s) (\<lambda>s. (Returned (), s))))"

section \<open>Everything that can happen\<close>

text \<open>A call of user code outside the timers, the turns of the loops, and what other parts of the runtime do.\<close>

datatype timer_op = T_Call call | T_Poll | T_New_Pump | T_Pump nat | T_Drop_Pump nat | T_Resume | T_Http int | T_Discard
  | T_New_Controller | T_Reference nat | T_Unreference nat | T_Drop nat

definition texec :: "sortf \<Rightarrow> codef \<Rightarrow> timer_op \<Rightarrow> tstate \<Rightarrow> unit ending \<times> tstate" where
  "texec sorter code x s =
     (case x of
        T_Call c \<Rightarrow> run_call sorter code c s
      | T_Poll \<Rightarrow> spawn_loop_turn sorter code s
      | T_New_Pump \<Rightarrow> (Returned (), s\<lparr>pumps := pumps s @ [[]]\<rparr>)
      | T_Pump i \<Rightarrow> if i < length (pumps s) then pump_tick sorter code i s else (Returned (), s)
      | T_Drop_Pump i \<Rightarrow> (Returned (), s\<lparr>pumps := (pumps s)[i := []]\<rparr>)
      | T_Resume \<Rightarrow> (Returned (), snd (resume_timer_loop_if_idle s))
      | T_Http d \<Rightarrow> (Returned (), adjust_http_inflight d s)
      | T_Discard \<Rightarrow> discard_all_timers_on_process_exit code s
      | T_New_Controller \<Rightarrow> (Returned (), snd (new_unreferenced s))
      | T_Reference r \<Rightarrow> (Returned (), if r < length (loop_refs s) then reference r s else s)
      | T_Unreference r \<Rightarrow> (Returned (), if r < length (loop_refs s) then unreference r s else s)
      | T_Drop r \<Rightarrow> (Returned (), if r < length (loop_refs s) \<and> r \<notin> loop_ref ` set (timers s) then drop_ref r s else s))"

primrec texecs :: "sortf \<Rightarrow> codef \<Rightarrow> timer_op list \<Rightarrow> tstate \<Rightarrow> unit ending \<times> tstate" where
  "texecs sorter code [] s = (Returned (), s)"
| "texecs sorter code (x # xs) s = ignoring (texec sorter code x s) (texecs sorter code xs)"

end
