(* ===== verification/Timer_Laws.thy ===== *)
theory Timer_Laws
  imports Timers "HOL-Library.Multiset" "HOL-Library.Option_ord"
begin

text \<open>
  What the timers promise: the reference count is the number of referenced handles; no callback runs before its deadline,
  and that of a one-shot timer runs at most once, however polls and user code nest; a poll calls what an earlier one
  has left in the vector and what is due, in the order of the keys.
\<close>

section \<open>Field updates\<close>

lemma update_first_map: "(\<And>x. g (f x) = g x) \<Longrightarrow> map g (update_first p f xs) = map g xs"
  by (induction xs) auto

lemma update_first_set: "y \<in> set (update_first p f xs) \<Longrightarrow> y \<in> set xs \<or> (\<exists>x\<in>set xs. y = f x)"
  by (induction xs) (auto split: if_splits)

lemmas ref_defs = reference_def unreference_def increment_ref_def decrement_ref_def new_referenced_def new_unreferenced_def
  notify_one_def emit_def

lemma reference_fields [simp]:
  "timers (reference r s) = timers s" "log (reference r s) = log s" "next_hook (reference r s) = next_hook s"
  "next_id (reference r s) = next_id s" "timer_handles (reference r s) = timer_handles s"
  "length (loop_refs (reference r s)) = length (loop_refs s)" "pumps (reference r s) = pumps s" "clock (reference r s) = clock s"
  by (simp_all add: ref_defs)

lemma unreference_fields [simp]:
  "timers (unreference r s) = timers s" "log (unreference r s) = log s" "next_hook (unreference r s) = next_hook s"
  "next_id (unreference r s) = next_id s" "timer_handles (unreference r s) = timer_handles s"
  "length (loop_refs (unreference r s)) = length (loop_refs s)" "pumps (unreference r s) = pumps s" "clock (unreference r s) = clock s"
  by (simp_all add: ref_defs)

abbreviation release :: "(timeout \<Rightarrow> bool) \<Rightarrow> timeout list \<Rightarrow> tstate \<Rightarrow> tstate" where
  "release c ts s \<equiv> fold (\<lambda>t. if c t then unreference (loop_ref t) else id) ts s"

lemma release_fields [simp]:
  "timers (release c ts s) = timers s" "log (release c ts s) = log s" "next_hook (release c ts s) = next_hook s"
  "next_id (release c ts s) = next_id s" "timer_handles (release c ts s) = timer_handles s"
  "length (loop_refs (release c ts s)) = length (loop_refs s)" "pumps (release c ts s) = pumps s" "clock (release c ts s) = clock s"
  by (induction ts arbitrary: s; simp)+

section \<open>The reference count\<close>

definition counted :: "tstate \<Rightarrow> bool" where
  "counted s \<longleftrightarrow> refs s = length (filter id (loop_refs s))
     \<and> (\<forall>t\<in>set (timers s). loop_ref t < length (loop_refs s)) \<and> (\<forall>h\<in>set (timer_handles s). h_ref h < length (loop_refs s))"

lemma count_update:
  "r < length xs \<Longrightarrow> length (filter id (xs[r := b])) = length (filter id xs) - (if xs ! r then 1 else 0) + (if b then 1 else 0)"
proof -
  assume r: "r < length xs"
  have "length (filter id xs) = length (filter id (take r xs)) + (if xs ! r then 1 else 0) + length (filter id (drop (Suc r) xs))"
    by (subst id_take_nth_drop [OF r]) simp
  moreover have "length (filter id (xs[r := b])) = length (filter id (take r xs)) + (if b then 1 else 0) + length (filter id (drop (Suc r) xs))"
    by (subst upd_conv_take_nth_drop [OF r]) simp
  ultimately show ?thesis by simp
qed

lemma counted_reference: "counted s \<Longrightarrow> r < length (loop_refs s) \<Longrightarrow> counted (reference r s)"
  by (auto simp: counted_def ref_defs count_update)

lemma counted_unreference: "counted s \<Longrightarrow> r < length (loop_refs s) \<Longrightarrow> counted (unreference r s)"
  by (auto simp: counted_def ref_defs count_update)

lemma counted_release:
  "counted s \<Longrightarrow> \<forall>t\<in>set ts. loop_ref t < length (loop_refs s) \<Longrightarrow> counted (release c ts s)"
  by (induction ts arbitrary: s) (simp_all add: counted_unreference)

lemma counted_cong:
  assumes "counted s" "refs t = refs s" "loop_refs t = loop_refs s" "timer_handles t = timer_handles s"
    "\<And>x. x \<in> set (timers t) \<Longrightarrow> \<exists>y\<in>set (timers s). loop_ref x = loop_ref y"
  shows "counted t"
  using assms by (fastforce simp: counted_def)

section \<open>The invariant of the log\<close>

fun is_run_of :: "nat \<Rightarrow> event \<Rightarrow> bool" where
  "is_run_of hk (E_Code (Callback h c) t) \<longleftrightarrow> h = hk"
| "is_run_of hk _ \<longleftrightarrow> False"

definition runs :: "nat \<Rightarrow> tstate \<Rightarrow> nat" where
  "runs hk s = length (filter (is_run_of hk) (log s))"

definition was_set :: "tstate \<Rightarrow> nat \<Rightarrow> int \<Rightarrow> bool \<Rightarrow> bool" where
  "was_set s hk d r \<longleftrightarrow> E_Set hk d r \<in> set (log s)"

definition was_run :: "tstate \<Rightarrow> nat \<Rightarrow> nat \<Rightarrow> int \<Rightarrow> bool" where
  "was_run s hk c t \<longleftrightarrow> E_Code (Callback hk c) t \<in> set (log s)"

text \<open>What the log says of a hook: its deadline has passed, and if it is a one-shot it has not run.\<close>

definition may_run :: "tstate \<Rightarrow> nat \<Rightarrow> bool" where
  "may_run s hk \<longleftrightarrow> (\<exists>d r. was_set s hk d r \<and> d < clock s \<and> (\<not> r \<longrightarrow> runs hk s = 0))"

definition made :: "tstate \<Rightarrow> timeout \<Rightarrow> bool" where
  "made s t \<longleftrightarrow> (callback t \<noteq> None \<longrightarrow>
     (\<exists>d. was_set s (hook_id t) d (repeating t) \<and> d \<le> t_deadline t \<and> (\<not> repeating t \<longrightarrow> runs (hook_id t) s = 0)))"

definition logged :: "tstate \<Rightarrow> bool" where
  "logged s \<longleftrightarrow> (\<forall>hk d r. was_set s hk d r \<longrightarrow> hk < next_hook s \<and> (\<not> r \<longrightarrow> runs hk s \<le> 1))
     \<and> (\<forall>hk c t. was_run s hk c t \<longrightarrow> (\<exists>d r. was_set s hk d r \<and> d < t))
     \<and> (\<forall>hk d r d' r'. was_set s hk d r \<longrightarrow> was_set s hk d' r' \<longrightarrow> d = d' \<and> r = r')"

text \<open>A hook number that has been given out but has no timer yet.\<close>

definition reserved :: "tstate \<Rightarrow> nat \<Rightarrow> bool" where
  "reserved s hk \<longleftrightarrow> hk < next_hook s \<and> (\<forall>d r. \<not> was_set s hk d r) \<and> hk \<notin> hook_id ` set (timers s)"

text \<open>The hooks of the callbacks in a vector, and of those left in the vectors of the pumps.\<close>

definition hooks :: "executing option list \<Rightarrow> nat multiset" where
  "hooks vs = mset (map exec_hook (somes vs))"

definition left_over :: "tstate \<Rightarrow> nat multiset" where
  "left_over s = sum_list (map hooks (pumps s))"

definition waits_ok :: "nat multiset \<Rightarrow> tstate \<Rightarrow> bool" where
  "waits_ok w s \<longleftrightarrow>
     (\<forall>hk\<in>#w. may_run s hk \<and> (\<forall>t\<in>set (timers s). callback t \<noteq> None \<longrightarrow> hook_id t = hk \<longrightarrow> repeating t))
     \<and> (\<forall>hk d. was_set s hk d False \<longrightarrow> count w hk \<le> 1)"

text \<open>
  The invariant while polls that are under way owe the callbacks with the hooks \<open>w\<close> and the hook numbers \<open>R\<close> are given out:
  the callback of a one-shot timer is owed at most once, and then its timer has left the list.
\<close>

definition tinv :: "nat multiset \<Rightarrow> nat set \<Rightarrow> tstate \<Rightarrow> bool" where
  "tinv w R s \<longleftrightarrow> counted s \<and> logged s \<and> (\<forall>t\<in>set (timers s). made s t \<and> hook_id t < next_hook s)
     \<and> distinct (map hook_id (timers s)) \<and> (\<forall>hk\<in>R. reserved s hk) \<and> waits_ok (w + left_over s) s"

lemma runs_emit: "runs hk (emit e s) = runs hk s + (if is_run_of hk e then 1 else 0)"
  by (simp add: runs_def emit_def)

lemma was_emit:
  "was_set (emit e s) hk d r \<longleftrightarrow> was_set s hk d r \<or> e = E_Set hk d r"
  "was_run (emit e s) hk c t \<longleftrightarrow> was_run s hk c t \<or> e = E_Code (Callback hk c) t"
  by (auto simp: was_set_def was_run_def emit_def)

lemma emit_fields [simp]:
  "timers (emit e s) = timers s" "next_hook (emit e s) = next_hook s" "refs (emit e s) = refs s" "loop_refs (emit e s) = loop_refs s"
  "timer_handles (emit e s) = timer_handles s" "pumps (emit e s) = pumps s" "clock (emit e s) = clock s"
  by (simp_all add: emit_def)

lemma log_cong:
  assumes "log s' = log s"
  shows "runs hk s' = runs hk s" "was_set s' hk d r = was_set s hk d r" "was_run s' hk c t = was_run s hk c t"
  using assms by (simp_all add: runs_def was_set_def was_run_def)

lemma log_fields [simp]:
  "runs hk (s\<lparr>next_hook := n\<rparr>) = runs hk s" "was_set (s\<lparr>next_hook := n\<rparr>) hk = was_set s hk" "was_run (s\<lparr>next_hook := n\<rparr>) hk = was_run s hk"
  "runs hk (s\<lparr>timers := ts\<rparr>) = runs hk s" "was_set (s\<lparr>timers := ts\<rparr>) hk = was_set s hk" "was_run (s\<lparr>timers := ts\<rparr>) hk = was_run s hk"
  by (simp_all add: runs_def was_set_def was_run_def fun_eq_iff)

lemma run_was_run: "runs hk s \<noteq> 0 \<Longrightarrow> \<exists>c t. was_run s hk c t"
proof -
  assume "runs hk s \<noteq> 0"
  then obtain e where e: "e \<in> set (log s)" "is_run_of hk e" by (auto simp: runs_def filter_empty_conv)
  then show ?thesis by (cases "(hk, e)" rule: is_run_of.cases) (auto simp: was_run_def)
qed

lemma runs_unset: "logged s \<Longrightarrow> (\<And>d r. \<not> was_set s hk d r) \<Longrightarrow> runs hk s = 0"
  using run_was_run [of hk s] unfolding logged_def by (cases "runs hk s = 0") (simp, metis)

lemma waits_mono: "waits_ok w s \<Longrightarrow> v \<subseteq># w \<Longrightarrow> waits_ok v s"
  unfolding waits_ok_def by (meson mset_subset_eqD mset_subset_eq_count order_trans)

lemma tinv_drop: "tinv (v + w) R s \<Longrightarrow> tinv w R s"
  unfolding tinv_def by (auto elim!: waits_mono)

text \<open>A step that changes neither the log nor the hooks: timers may lose their callback or wait longer, and time passes.\<close>

definition weaker :: "timeout \<Rightarrow> timeout \<Rightarrow> bool" where
  "weaker t t' \<longleftrightarrow> hook_id t' = hook_id t \<and> loop_ref t' = loop_ref t
     \<and> (callback t' = None \<or> (callback t' = callback t \<and> repeating t' = repeating t \<and> t_deadline t \<le> t_deadline t'))"

lemma weaker_refl [simp]: "weaker t t"
  by (simp add: weaker_def)

lemma waits_weaken:
  assumes "waits_ok w s" "log s' = log s" "clock s \<le> clock s'" "\<forall>t'\<in>set (timers s'). \<exists>t\<in>set (timers s). weaker t t'"
  shows "waits_ok w s'"
proof -
  have "may_run s hk \<Longrightarrow> may_run s' hk" for hk
    using assms(3) by (fastforce simp: may_run_def log_cong [OF assms(2)])
  then show ?thesis using assms(1,4) unfolding waits_ok_def weaker_def log_cong [OF assms(2)] by metis
qed

lemma tinv_weaken:
  assumes "tinv w R s" "counted s'" "log s' = log s" "next_hook s' = next_hook s" "pumps s' = pumps s" "clock s \<le> clock s'"
    "distinct (map hook_id (timers s'))" "\<forall>t'\<in>set (timers s'). \<exists>t\<in>set (timers s). weaker t t'"
  shows "tinv w R s'"
proof -
  note l = log_cong [OF assms(3)]
  have "made s' t' \<and> hook_id t' < next_hook s'" if "t' \<in> set (timers s')" for t'
  proof -
    from assms(8) that obtain t where t: "t \<in> set (timers s)" "weaker t t'" by blast
    with assms(1) have "made s t" "hook_id t < next_hook s" by (simp_all add: tinv_def)
    with t(2) show ?thesis using assms(4) by (fastforce simp: made_def weaker_def l)
  qed
  moreover have "logged s'" using assms(1,4) by (simp add: tinv_def logged_def l)
  moreover have "reserved s hk \<Longrightarrow> reserved s' hk" for hk
    using assms(8) unfolding reserved_def l assms(4) by (fastforce simp: weaker_def)
  moreover have "waits_ok (w + left_over s') s'"
    using assms(1) waits_weaken [OF _ assms(3,6,8)] by (simp add: tinv_def left_over_def assms(5))
  ultimately show ?thesis using assms(1,2,7) by (simp add: tinv_def)
qed

lemma emit_other:
  assumes "tinv w R s" "\<And>hk d r. e \<noteq> E_Set hk d r" "\<And>hk c t. e \<noteq> E_Code (Callback hk c) t"
  shows "tinv w R (emit e s)"
proof -
  have "\<not> is_run_of hk e" for hk using assms(3) by (cases "(hk, e)" rule: is_run_of.cases) simp_all
  then have l: "runs hk (emit e s) = runs hk s" "was_set (emit e s) hk d r = was_set s hk d r"
    "was_run (emit e s) hk c t = was_run s hk c t" for hk d r c t
    using assms(2,3) by (simp_all add: runs_emit was_emit)
  show ?thesis using assms(1)
    unfolding tinv_def counted_def logged_def made_def waits_ok_def may_run_def reserved_def left_over_def emit_fields l .
qed

section \<open>The operations keep the invariant\<close>

lemma find_Some_set: "List.find p xs = Some x \<Longrightarrow> x \<in> set xs \<and> p x"
  by (induction xs) (auto split: if_splits)

lemma tinv_ref_only:
  assumes "tinv w R s" "counted s'" "log s' = log s" "next_hook s' = next_hook s" "timers s' = timers s" "pumps s' = pumps s" "clock s \<le> clock s'"
  shows "tinv w R s'"
  by (rule tinv_weaken [OF assms(1-4,6,7)]) (use assms(1,5) in \<open>auto simp: tinv_def intro: weaker_refl\<close>)

lemma reference_ok: "tinv w R s \<Longrightarrow> r < length (loop_refs s) \<Longrightarrow> tinv w R (reference r s)"
  by (rule tinv_ref_only) (auto simp: tinv_def counted_reference)

lemma unreference_ok: "tinv w R s \<Longrightarrow> r < length (loop_refs s) \<Longrightarrow> tinv w R (unreference r s)"
  by (rule tinv_ref_only) (auto simp: tinv_def counted_unreference)

lemma update_first_ok:
  assumes "tinv w R s" "\<And>t. weaker t (f t)"
  shows "tinv w R (s\<lparr>timers := update_first p f (timers s)\<rparr>)"
proof (rule tinv_weaken [OF assms(1)])
  show "distinct (map hook_id (timers (s\<lparr>timers := update_first p f (timers s)\<rparr>)))"
    using assms by (simp add: update_first_map weaker_def tinv_def)
  show w: "\<forall>t'\<in>set (timers (s\<lparr>timers := update_first p f (timers s)\<rparr>)). \<exists>t\<in>set (timers s). weaker t t'"
    using assms(2) by (auto dest!: update_first_set intro: weaker_refl)
  show "counted (s\<lparr>timers := update_first p f (timers s)\<rparr>)"
    by (rule counted_cong [of s]) (use assms(1) w in \<open>auto simp: tinv_def weaker_def\<close>)
qed simp_all

lemma tinv_counted: "tinv w R s \<Longrightarrow> counted s"
  by (simp add: tinv_def)

text \<open>Fields the invariant does not look at.\<close>

lemma tinv_fields [simp]:
  "tinv w R (s\<lparr>executing_hook_id := k\<rparr>) = tinv w R s" "tinv w R (s\<lparr>running := b\<rparr>) = tinv w R s"
  "tinv w R (s\<lparr>deadline := d\<rparr>) = tinv w R s" "tinv w R (notify_one s) = tinv w R s" "tinv w R (s\<lparr>http_inflight := n\<rparr>) = tinv w R s"
  "tinv w R (s\<lparr>next_id := n\<rparr>) = tinv w R s"
  by (simp_all add: tinv_def counted_def logged_def made_def waits_ok_def may_run_def reserved_def left_over_def
      runs_def was_set_def was_run_def notify_one_def)

lemma tick_ok: "tinv w R s \<Longrightarrow> tinv w R (s\<lparr>clock := clock s + int dt\<rparr>)"
  by (rule tinv_ref_only) (auto simp: tinv_def counted_def)

lemma set_timer_referenced_ok: "tinv w R s \<Longrightarrow> tinv w R (set_timer_referenced i r s)"
  using update_first_ok [where f = "\<lambda>t. t\<lparr>referenced := r\<rparr>"]
  by (auto simp: set_timer_referenced_def Let_def weaker_def split: option.splits)

lemma js_ref_ok: "tinv w R s \<Longrightarrow> h \<in> set (timer_handles s) \<Longrightarrow> tinv w R (js_ref h s)"
  unfolding js_ref_def by (rule set_timer_referenced_ok, rule reference_ok) (auto simp: tinv_def counted_def)

lemma unref_ok: "tinv w R s \<Longrightarrow> h \<in> set (timer_handles s) \<Longrightarrow> tinv w R (unref h s)"
  unfolding unref_def by (rule set_timer_referenced_ok, rule unreference_ok) (auto simp: tinv_def counted_def)

text \<open>User code keeps the invariant; a callback is no longer owed once it has begun.\<close>

definition owed :: "code \<Rightarrow> nat multiset" where
  "owed c = (case c of Callback hk _ \<Rightarrow> {#hk#} | _ \<Rightarrow> {#})"

definition keeps :: "codef \<Rightarrow> bool" where
  "keeps code \<longleftrightarrow> (\<forall>c w R s. tinv (owed c + w) R s \<longrightarrow> tinv w R (snd (code c s)))"

lemma code_keepsD:
  assumes "keeps code" "tinv (owed c + w) R s" "code c s = (r, s')"
  shows "tinv w R s'"
  using assms unfolding keeps_def by (metis snd_conv)

lemma question_ok:
  assumes "tinv w R (snd m)" "\<And>s. tinv w R s \<Longrightarrow> tinv w R (snd (f s))"
  shows "tinv w R (snd (question m f))"
  using assms by (cases m; cases "fst m") (simp_all add: question_def)

lemma ignoring_ok:
  assumes "tinv w R (snd m)" "\<And>s. tinv w R s \<Longrightarrow> tinv w R (snd (f s))"
  shows "tinv w R (snd (ignoring m f))"
  using assms by (cases m; cases "fst m") (simp_all add: ignoring_def)

lemma code_ok: "keeps code \<Longrightarrow> owed c = {#} \<Longrightarrow> tinv w R s \<Longrightarrow> tinv w R (snd (code c s))"
  unfolding keeps_def by (metis add_0)

lemma owed_simps [simp]:
  "owed (Hook_Init h) = {#}" "owed (Hook_Before h) = {#}" "owed (Hook_After h) = {#}" "owed (Hook_Destroy h) = {#}"
  "owed Jobs = {#}" "owed Drivers = {#}" "owed (Callback h c) = {#h#}"
  by (simp_all add: owed_def)

lemma clear_ok:
  assumes "keeps code" "tinv w R s"
  shows "tinv w R (snd (clear_timeout_interval code a s))"
proof (cases "\<exists>i t. timer_id_from_value a = Some i \<and> List.find (\<lambda>t. t_id t = i) (timers s) = Some t")
  case True
  then obtain i t where i: "timer_id_from_value a = Some i" "List.find (\<lambda>t. t_id t = i) (timers s) = Some t" by blast
  define c where "c \<longleftrightarrow> executing_hook_id s = hook_id t \<and> hook_id t \<noteq> 0"
  let ?f = "\<lambda>u. u\<lparr>callback := None, repeating := False, t_deadline := clock s - 1000, referenced := False, pending_destroy := (c \<or> pending_destroy u)\<rparr>"
  let ?u = "s\<lparr>timers := update_first (\<lambda>t. t_id t = i) ?f (timers s)\<rparr>"
  have "tinv w R ?u" by (rule update_first_ok [OF assms(2)]) (simp add: weaker_def)
  moreover have "loop_ref t < length (loop_refs ?u)" using assms(2) i(2) by (auto simp: tinv_def counted_def dest: find_Some_set)
  ultimately have "tinv w R (notify_one (unreference (loop_ref t) ?u))" by (simp add: unreference_ok)
  then have "tinv w R (snd (if c then (Returned (), notify_one (unreference (loop_ref t) ?u))
      else ignoring (code (Hook_Destroy (hook_id t)) (notify_one (unreference (loop_ref t) ?u))) (\<lambda>s. (Returned (), s))))"
    by (cases c) (simp, auto intro!: ignoring_ok code_ok [OF assms(1)])
  then show ?thesis unfolding clear_timeout_interval_def i option.case Let_def c_def .
next
  case False
  then have "clear_timeout_interval code a s = (Returned (), s)"
    by (auto simp: clear_timeout_interval_def split: option.splits)
  with assms(2) show ?thesis by simp
qed

lemma reserve_ok:
  assumes "tinv w R s"
  shows "tinv w (insert (next_hook s) R) (s\<lparr>next_hook := next_hook s + 1\<rparr>)" "next_hook s \<notin> R"
proof -
  let ?s = "s\<lparr>next_hook := next_hook s + 1\<rparr>"
  have lg: "logged s" and ts: "\<forall>t\<in>set (timers s). made s t \<and> hook_id t < next_hook s" using assms by (simp_all add: tinv_def)
  have "logged ?s" using lg by (simp add: logged_def less_Suc_eq)
  moreover have "waits_ok (w + left_over ?s) ?s" using assms by (simp add: tinv_def waits_ok_def may_run_def left_over_def)
  moreover have "reserved ?s (next_hook s)" using lg ts by (auto simp: reserved_def logged_def)
  moreover have "reserved s hk \<Longrightarrow> reserved ?s hk" for hk by (simp add: reserved_def)
  moreover have "\<forall>t\<in>set (timers s). made ?s t \<and> hook_id t < next_hook ?s" using ts by (simp add: made_def less_Suc_eq)
  ultimately show "tinv w (insert (next_hook s) R) ?s"
    using assms by (simp add: tinv_def counted_def)
  show "next_hook s \<notin> R" using assms by (auto simp: tinv_def reserved_def)
qed

text \<open>A timer enters the list under a reserved hook number.\<close>

lemma add_timer_ok:
  assumes "tinv w (insert hk R) s" "hk \<notin> R" "hook_id t = hk" "t_deadline t = d" "repeating t = r" "loop_ref t < length (loop_refs s)"
  shows "tinv w R (emit (E_Set hk d r) (s\<lparr>timers := timers s @ [t]\<rparr>))"
proof -
  let ?s = "emit (E_Set hk d r) (s\<lparr>timers := timers s @ [t]\<rparr>)"
  have res: "reserved s hk" and lg: "logged s" using assms(1) by (simp_all add: tinv_def)
  then have un: "\<not> was_set s hk d' r'" for d' r' by (simp add: reserved_def)
  have r0: "runs hk s = 0" by (rule runs_unset [OF lg un])
  have l: "runs h ?s = runs h s" "was_set ?s h d' r' \<longleftrightarrow> was_set s h d' r' \<or> (h = hk \<and> d' = d \<and> r' = r)"
    "was_run ?s h c n = was_run s h c n" for h d' r' c n
    by (auto simp: runs_emit was_emit)
  have nw: "h \<noteq> hk" if "h \<in># w + left_over s" for h
    using that assms(1) un unfolding tinv_def waits_ok_def may_run_def by blast
  have "logged ?s" unfolding logged_def l
  proof (intro conjI allI impI)
    fix h d' r' assume a: "was_set s h d' r' \<or> h = hk \<and> d' = d \<and> r' = r"
    show "h < next_hook ?s" using a lg res by (auto simp: logged_def reserved_def)
    show "runs h s \<le> 1" if "\<not> r'" using a lg r0 that by (auto simp: logged_def)
  next
    fix h c n assume "was_run s h c n"
    then show "\<exists>d' r'. (was_set s h d' r' \<or> h = hk \<and> d' = d \<and> r' = r) \<and> d' < n" using lg unfolding logged_def by blast
  next
    fix h d1 b1 d2 b2
    assume "was_set s h d1 b1 \<or> h = hk \<and> d1 = d \<and> b1 = r" "was_set s h d2 b2 \<or> h = hk \<and> d2 = d \<and> b2 = r"
    then have "was_set s h d1 b1 \<and> was_set s h d2 b2 \<or> d1 = d2 \<and> b1 = b2" using un by auto
    then show "d1 = d2" "b1 = b2" using lg unfolding logged_def by blast+
  qed
  moreover have "made s u \<Longrightarrow> made ?s u" for u by (auto simp: made_def l)
  moreover have "made ?s t" unfolding made_def l using assms(3-5) r0 by (intro impI exI [of _ d]) simp
  moreover have "reserved ?s h" if "h \<in> R" for h
    using that assms(1-3) by (auto simp: tinv_def reserved_def l)
  moreover have "waits_ok (w + left_over s) ?s"
  proof -
    have "hk \<notin># w + left_over s" using nw by blast
    then have c: "count (w + left_over s) hk = 0" by (simp only: not_in_iff)
    have wo: "waits_ok (w + left_over s) s" using assms(1) by (simp only: tinv_def)
    have m: "may_run s h \<Longrightarrow> may_run ?s h" for h unfolding may_run_def l by auto
    have k: "repeating u" if "h \<in># w + left_over s" "u \<in> set (timers ?s)" "callback u \<noteq> None" "hook_id u = h" for h u
      using that wo nw [OF that(1)] assms(3) unfolding waits_ok_def by (cases "u = t") auto
    have n: "count (w + left_over s) h \<le> 1" if "was_set ?s h d' False" for h d'
      using that wo c unfolding waits_ok_def l by (metis le0)
    show ?thesis using wo m k n unfolding waits_ok_def by blast
  qed
  moreover have "counted ?s" using assms(1,6) by (auto simp: tinv_def counted_def)
  ultimately show ?thesis using assms(1,3) res
    by (auto simp: tinv_def left_over_def reserved_def)
qed

lemma new_ref_ok:
  assumes "tinv w R s" "(if b then new_referenced s else new_unreferenced s) = (r, s')"
  shows "tinv w R s'" "r < length (loop_refs s')"
proof -
  have "counted s" using assms(1) by (rule tinv_counted)
  with assms(2) have "counted s'" by (auto simp: ref_defs counted_def less_SucI split: if_splits)
  then show "tinv w R s'"
    by (rule tinv_ref_only [OF assms(1)]) (use assms(2) in \<open>auto simp: ref_defs split: if_splits\<close>)
  show "r < length (loop_refs s')" using assms(2) by (auto simp: ref_defs split: if_splits)
qed

lemma handles_ok:
  assumes "tinv w R s" "h_ref h < length (loop_refs s)"
  shows "tinv w R (s\<lparr>timer_handles := timer_handles s @ [h]\<rparr>)"
  by (rule tinv_ref_only [OF assms(1)]) (use assms in \<open>auto simp: tinv_def counted_def\<close>)

lemma wake_fields: "loop_refs (if running s then (if d < deadline s then notify_one (s\<lparr>deadline := d\<rparr>) else s)
    else if should_keep_timer_loop s then s\<lparr>running := True\<rparr> else s) = loop_refs s"
  by (simp add: notify_one_def)

lemma set_ok:
  assumes "keeps code" "tinv w R s"
  shows "tinv w R (snd (set_timeout_interval code cb delay p b s))"
proof (cases "timer_deadline p delay (clock s)")
  case None
  with assms(2) show ?thesis by (simp add: set_timeout_interval_def)
next
  case (Some x)
  obtain rep dl where x: "x = (rep, dl)" by (cases x)
  let ?hk = "next_hook s"
  let ?s = "s\<lparr>next_id := next_id s + 1, next_hook := ?hk + 1\<rparr>"
  obtain r1 s1 where c: "code (Hook_Init ?hk) ?s = (r1, s1)" by fastforce
  have "?s = (s\<lparr>next_hook := ?hk + 1\<rparr>)\<lparr>next_id := next_id s + 1\<rparr>" by simp
  then have "tinv w (insert ?hk R) ?s" using reserve_ok(1) [OF assms(2)] by (simp only: tinv_fields)
  then have i1: "tinv w (insert ?hk R) s1" by (intro code_keepsD [OF assms(1) _ c]) simp
  obtain r s2 where n: "(if b then new_referenced s1 else new_unreferenced s1) = (r, s2)" by fastforce
  note i2 = new_ref_ok [OF i1 n]
  define t where "t = \<lparr>callback = Some cb, t_deadline = dl, t_id = next_id s, hook_id = ?hk, repeating = rep, interval = delay,
                   pending_destroy = False, referenced = b, loop_ref = r\<rparr>"
  define s3 where "s3 = emit (E_Set ?hk dl rep) (s2\<lparr>timers := timers s2 @ [t]\<rparr>)"
  have i3: "tinv w R s3" unfolding s3_def
    by (rule add_timer_ok [OF i2(1) reserve_ok(2) [OF assms(2)]]) (use i2(2) in \<open>simp_all add: t_def\<close>)
  define s4 where "s4 = (if running s3 then (if dl < deadline s3 then notify_one (s3\<lparr>deadline := dl\<rparr>) else s3)
                   else if should_keep_timer_loop s3 then s3\<lparr>running := True\<rparr> else s3)"
  have i4: "tinv w R s4" "loop_refs s4 = loop_refs s2" using i3 wake_fields [of s3 dl] by (simp_all add: s4_def) (simp add: s3_def)
  have i5: "tinv w R (s4\<lparr>timer_handles := timer_handles s4 @ [\<lparr>h_id = next_id s, h_ref = r\<rparr>]\<rparr>)"
    by (rule handles_ok [OF i4(1)]) (use i4(2) i2(2) in simp)
  have "tinv w R s1" using i1 by (simp add: tinv_def)
  with i5 show ?thesis
    unfolding set_timeout_interval_def Some x option.case prod.case Let_def question_def c
    by (cases r1) (simp_all only: ending.case prod.case n snd_conv t_def [symmetric] s3_def [symmetric] s4_def [symmetric])
qed

text \<open>A callback that is owed begins.\<close>

lemma emit_run:
  assumes "tinv (add_mset hk w) R s"
  shows "tinv w R (emit (E_Code (Callback hk c) (clock s)) s)"
proof -
  let ?s = "emit (E_Code (Callback hk c) (clock s)) s"
  have l: "runs h ?s = runs h s + (if h = hk then 1 else 0)" "was_set ?s h d r \<longleftrightarrow> was_set s h d r"
    "was_run ?s h c' t \<longleftrightarrow> was_run s h c' t \<or> (h = hk \<and> c' = c \<and> t = clock s)" for h d r c' t
    by (auto simp: runs_emit was_emit)
  have lg: "logged s" and wo: "waits_ok (add_mset hk (w + left_over s)) s" using assms by (simp_all add: tinv_def)
  then have hk: "may_run s hk" "\<forall>t\<in>set (timers s). callback t \<noteq> None \<longrightarrow> hook_id t = hk \<longrightarrow> repeating t"
    by (simp_all add: waits_ok_def)
  then obtain d b where d: "was_set s hk d b" "d < clock s" "\<not> b \<Longrightarrow> runs hk s = 0" by (auto simp: may_run_def)
  have u: "was_set s hk d' b' \<Longrightarrow> b' = b" for d' b' using lg d(1) unfolding logged_def by blast
  have "logged ?s" unfolding logged_def l
  proof (intro conjI allI impI)
    show "runs h s + (if h = hk then 1 else 0) \<le> 1" if "was_set s h d' r" "\<not> r" for h d' r
      using that lg u [of d' r] d(3) by (cases "h = hk") (auto simp: logged_def)
    show "\<exists>d r. was_set s h d r \<and> d < t" if "was_run s h c' t \<or> h = hk \<and> c' = c \<and> t = clock s" for h c' t
      using that lg d(1,2) unfolding logged_def by blast
  next
    show "h < next_hook ?s" if "was_set s h d' r" for h d' r using that lg by (auto simp: logged_def)
  next
    show "d1 = d2" "b1 = b2" if "was_set s h d1 b1" "was_set s h d2 b2" for h d1 b1 d2 b2 using that lg unfolding logged_def by blast+
  qed
  moreover have "made ?s t" if "t \<in> set (timers s)" for t
  proof -
    have "made s t" using that assms by (simp add: tinv_def)
    then show ?thesis using hk(2) that by (cases "hook_id t = hk") (auto simp: made_def l)
  qed
  moreover have "waits_ok (w + left_over s) ?s" unfolding waits_ok_def
  proof (intro conjI ballI allI impI)
    fix h assume h: "h \<in># w + left_over s"
    then have m: "may_run s h" "\<forall>t\<in>set (timers s). callback t \<noteq> None \<longrightarrow> hook_id t = h \<longrightarrow> repeating t"
      using wo by (simp_all add: waits_ok_def)
    have "b" if "h = hk"
    proof (rule ccontr)
      assume "\<not> b"
      with d(1) wo have "count (add_mset hk (w + left_over s)) hk \<le> 1" unfolding waits_ok_def by (metis (full_types))
      then have "count (w + left_over s) hk = 0" by (simp only: count_add_mset) simp
      with h that show False by (simp add: count_eq_zero_iff)
    qed
    then show "may_run ?s h" using m(1) d(1,2) unfolding may_run_def l by (cases "h = hk") auto
    show "repeating t" if "t \<in> set (timers ?s)" "callback t \<noteq> None" "hook_id t = h" for t using m(2) that by simp
  next
    fix h d' assume "was_set ?s h d' False"
    then have "count (add_mset hk (w + left_over s)) h \<le> 1" using wo unfolding waits_ok_def l by blast
    then show "count (w + left_over s) h \<le> 1" by (simp split: if_splits)
  qed
  moreover have "reserved s h \<Longrightarrow> reserved ?s h" for h by (simp add: reserved_def l)
  moreover have "counted ?s" using assms by (simp add: tinv_def counted_def)
  ultimately show ?thesis using assms by (simp add: tinv_def left_over_def)
qed

lemma filter_timers_ok: "tinv w R s \<Longrightarrow> tinv w R (s\<lparr>timers := filter p (timers s)\<rparr>)"
  by (rule tinv_weaken) (auto simp: tinv_def counted_def distinct_map_filter intro: weaker_refl)

lemma run_timer_ok:
  assumes "keeps code" "tinv (add_mset (exec_hook x) w) R s"
  shows "tinv w R (snd (run_timer code x s))"
proof -
  obtain k cb hk where x: "x = Executing k cb hk" by (cases x)
  let ?after = "\<lambda>r. \<lambda>s. if r = Threw then (Threw, s)
     else ignoring (code Jobs s) (\<lambda>s.
       if destroy_now hk s
       then ignoring (code (Hook_Destroy hk) s) (\<lambda>s. (Returned (), s\<lparr>timers := filter (\<lambda>t. hook_id t \<noteq> hk) (timers s)\<rparr>))
       else (Returned (), s))"
  have after: "tinv w R (snd (?after r t))" if "tinv w R t" for r :: "unit ending" and t
    using that by (auto intro!: ignoring_ok code_ok [OF assms(1)] filter_timers_ok)
  let ?call = "\<lambda>s. let (r, s) = code (Callback hk cb) s in if r = Cut then (Cut, s) else question (code (Hook_After hk) s) (?after r)"
  have call: "tinv w R (snd (?call t))" if "tinv (add_mset hk w) R t" for t
  proof -
    obtain r u where c: "code (Callback hk cb) t = (r, u)" by fastforce
    have "tinv w R u" by (rule code_keepsD [OF assms(1) _ c]) (use that in simp)
    then have "tinv w R (snd (question (code (Hook_After hk) u) (?after r)))"
      by (intro question_ok code_ok [OF assms(1)] after) simp_all
    with \<open>tinv w R u\<close> show ?thesis unfolding c Let_def prod.case by (cases "r = Cut") simp_all
  qed
  obtain r u where b: "code (Hook_Before hk) (s\<lparr>executing_hook_id := hk\<rparr>) = (r, u)" by fastforce
  have u: "tinv (add_mset hk w) R u"
    by (rule code_keepsD [OF assms(1) _ b]) (use assms(2) in \<open>simp add: x\<close>)
  then have "tinv w R u" using tinv_drop [of "{#hk#}" w R u] by simp
  with call [OF u] have "tinv w R (snd (question (r, u) ?call))" by (cases r) (simp_all add: question_def)
  then show ?thesis unfolding run_timer_def x executing.case b by (simp only: case_prod_beta snd_conv tinv_fields)
qed

lemma hooks_simps [simp]: "hooks [] = {#}" "hooks (None # vs) = hooks vs" "hooks (Some x # vs) = add_mset (exec_hook x) (hooks vs)"
  "hooks (vs @ us) = hooks vs + hooks us" "hooks (map Some xs) = mset (map exec_hook xs)"
  by (simp_all add: hooks_def)

lemma run_items_ok:
  "keeps code \<Longrightarrow> tinv (hooks vs + w) R s \<Longrightarrow> run_items code b vs s = (r, vs', s') \<Longrightarrow> tinv (hooks vs' + w) R s'"
proof (induction vs arbitrary: b w s r vs' s')
  case (Cons v vs)
  show ?case
  proof (cases v)
    case None
    obtain r1 us t where "run_items code b vs s = (r1, us, t)" by (metis prod_cases3)
    with Cons None show ?thesis by auto
  next
    case (Some x)
    obtain r1 t where t: "(if b then ignoring (code Jobs s) (run_timer code x) else run_timer code x s) = (r1, t)" by fastforce
    let ?w = "hooks vs + w"
    have p: "tinv (add_mset (exec_hook x) ?w) R s" using Cons.prems(2) Some by simp
    have "tinv ?w R (snd (ignoring (code Jobs s) (run_timer code x)))"
    proof -
      obtain q u where q: "code Jobs s = (q, u)" by fastforce
      have "tinv (add_mset (exec_hook x) ?w) R u" by (rule code_keepsD [OF Cons.prems(1) _ q]) (use p in simp)
      then show ?thesis using run_timer_ok [OF Cons.prems(1)] tinv_drop [of "{#exec_hook x#}" ?w R u]
        by (cases q) (simp_all add: ignoring_def q)
    qed
    then have i: "tinv ?w R t" using t run_timer_ok [OF Cons.prems(1) p] by (cases b) (metis snd_conv)+
    obtain r2 us u where us: "run_items code False vs t = (r2, us, u)" by (metis prod_cases3)
    from Cons.IH [OF Cons.prems(1) i us] i Cons.prems(3) Some t us show ?thesis
      by (cases r1) auto
  qed
qed simp

section \<open>A poll\<close>

definition is_due :: "int \<Rightarrow> timeout \<Rightarrow> bool" where
  "is_due now t \<longleftrightarrow> t_deadline t < now \<and> callback t \<noteq> None"

lemma retain_hooks:
  "map exec_hook (List.map_filter (\<lambda>t. snd (retain_step now t)) ts) = map hook_id (filter (is_due now) ts)"
  "map hook_id (List.map_filter (\<lambda>t. fst (retain_step now t)) ts)
     = map hook_id (filter (\<lambda>t. \<not> (t_deadline t < now \<and> (callback t = None \<or> \<not> repeating t))) ts)"
  by (induction ts) (auto simp: retain_step_def is_due_def Let_def List.map_filter_simps split: option.splits)

lemma retain_kept:
  "t' \<in> set (List.map_filter (\<lambda>t. fst (retain_step now t)) ts) \<Longrightarrow>
     \<exists>t\<in>set ts. weaker t t' \<and> (is_due now t \<longrightarrow> repeating t) \<and> (callback t' \<noteq> None \<longrightarrow> callback t' = callback t \<and> repeating t' = repeating t)"
proof (induction ts)
  case (Cons t ts)
  then show ?case
    by (auto simp: retain_step_def is_due_def weaker_def Let_def List.map_filter_simps split: option.splits if_splits)
qed (simp add: List.map_filter_simps)

lemma distinct_map_inj: "distinct (map f xs) \<Longrightarrow> x \<in> set xs \<Longrightarrow> y \<in> set xs \<Longrightarrow> f x = f y \<Longrightarrow> x = y"
  by (simp add: distinct_map inj_on_def)

text \<open>Callbacks become owed: those of one-shot timers must be new.\<close>

lemma tinv_owe:
  assumes "tinv w R s" "distinct ds"
    "\<And>hk. hk \<in> set ds \<Longrightarrow> may_run s hk \<and> (\<forall>t\<in>set (timers s). callback t \<noteq> None \<longrightarrow> hook_id t = hk \<longrightarrow> repeating t)"
    "\<And>hk d. hk \<in> set ds \<Longrightarrow> was_set s hk d False \<Longrightarrow> hk \<notin># w + left_over s"
  shows "tinv (mset ds + w) R s"
proof -
  have wo: "waits_ok (w + left_over s) s" using assms(1) by (simp add: tinv_def)
  have "count (mset ds + (w + left_over s)) hk \<le> 1" if "was_set s hk d False" for hk d
  proof (cases "hk \<in> set ds")
    case True
    then have "count (w + left_over s) hk = 0" using assms(4) [OF True that] by (simp only: not_in_iff)
    moreover have "count (mset ds) hk = 1" using True assms(2) by (simp add: distinct_count_atmost_1)
    ultimately show ?thesis by simp
  next
    case False
    then have "count (mset ds) hk = 0" by (simp add: not_in_iff [symmetric])
    moreover have "count (w + left_over s) hk \<le> 1" using that wo unfolding waits_ok_def by blast
    ultimately show ?thesis by (simp only: count_union add_0)
  qed
  then have "waits_ok (mset ds + (w + left_over s)) s"
    using wo assms(3) unfolding waits_ok_def by (metis union_iff set_mset_mset)
  with assms(1) show ?thesis by (simp add: tinv_def add.assoc)
qed

lemma retain_frame:
  assumes "tinv w R s" "retain_timers now s = (due, s')"
  shows "tinv w R s'" "timers s' = List.map_filter (\<lambda>t. fst (retain_step now t)) (timers s)" "log s' = log s"
    "clock s' = clock s" "pumps s' = pumps s"
    "due = List.map_filter (\<lambda>t. snd (retain_step now t)) (timers s)"
proof -
  let ?ts = "timers s"
  let ?s = "s\<lparr>timers := List.map_filter (\<lambda>t. fst (retain_step now t)) ?ts\<rparr>"
  show "due = List.map_filter (\<lambda>t. snd (retain_step now t)) ?ts" using assms(2) by (simp add: retain_timers_def)
  have s': "s' = release (one_shot_due now) ?ts ?s" using assms(2) by (simp add: retain_timers_def)
  show f: "timers s' = List.map_filter (\<lambda>t. fst (retain_step now t)) ?ts" "log s' = log s" "clock s' = clock s" "pumps s' = pumps s"
    by (simp_all add: s')
  have dist: "distinct (map hook_id ?ts)" using assms(1) by (simp add: tinv_def)
  have "counted ?s" by (rule counted_cong [of s]) (use assms(1) in \<open>auto simp: tinv_def weaker_def dest!: retain_kept\<close>)
  then have c: "counted s'" unfolding s' using assms(1) by (intro counted_release) (auto simp: tinv_def counted_def)
  show "tinv w R s'"
  proof (rule tinv_weaken [OF assms(1)])
    show "distinct (map hook_id (timers s'))" using dist by (simp add: f retain_hooks distinct_map_filter)
    show "\<forall>t'\<in>set (timers s'). \<exists>t\<in>set (timers s). weaker t t'" using retain_kept by (fastforce simp: f)
  qed (use c f in \<open>simp_all add: s'\<close>)
qed

lemma retain_ok:
  assumes "tinv w R s" "retain_timers (clock s) s = (due, s')"
  shows "tinv (mset (map exec_hook due) + w) R s'"
proof (rule tinv_owe)
  note f = retain_frame [OF assms] and l = log_cong [OF retain_frame(3) [OF assms]]
  let ?ts = "timers s"
  have dist: "distinct (map hook_id ?ts)" using assms(1) by (simp add: tinv_def)
  then show "distinct (map exec_hook due)" by (simp add: f(6) retain_hooks distinct_map_filter)
  show "tinv w R s'" by (rule f)
  fix hk assume "hk \<in> set (map exec_hook due)"
  then have "hk \<in> set (map hook_id (filter (is_due (clock s)) ?ts))" by (simp only: f(6) retain_hooks)
  then obtain t where t: "t \<in> set ?ts" "is_due (clock s) t" "hk = hook_id t" by auto
  with assms(1) have m: "made s t" by (simp add: tinv_def)
  with t(2,3) have "may_run s' hk" by (auto simp: made_def may_run_def is_due_def l f(4) split: option.splits intro: le_less_trans)
  moreover have "repeating t'" if t': "t' \<in> set (timers s')" "callback t' \<noteq> None" "hook_id t' = hk" for t'
  proof -
    from t'(1) obtain u where u: "u \<in> set ?ts" "weaker u t'" "is_due (clock s) u \<longrightarrow> repeating u"
      "callback t' \<noteq> None \<longrightarrow> callback t' = callback u \<and> repeating t' = repeating u"
      unfolding f using retain_kept by blast
    with t t'(3) have "u = t" by (intro distinct_map_inj [OF dist]) (simp_all add: weaker_def)
    with u t t'(2) show ?thesis by simp
  qed
  ultimately show "may_run s' hk \<and> (\<forall>t\<in>set (timers s'). callback t \<noteq> None \<longrightarrow> hook_id t = hk \<longrightarrow> repeating t)" by blast
  fix d assume "was_set s' hk d False"
  then have "\<not> repeating t" using m t(2,3) assms(1) unfolding l made_def tinv_def logged_def is_due_def by blast
  moreover have "callback t \<noteq> None" using t(2) by (simp add: is_due_def)
  moreover have "waits_ok (w + left_over s) s" using assms(1) by (simp only: tinv_def)
  ultimately show "hk \<notin># w + left_over s'" using t unfolding waits_ok_def left_over_def f(5) by blast
qed

lemma hooks_mset: "hooks vs = image_mset (exec_hook \<circ> the) (filter_mset (\<lambda>v. v \<noteq> None) (mset vs))"
  by (induction vs) (auto simp: hooks_def somes_def List.map_filter_simps split: option.splits)


lemma hooks_perm: "mset us = mset vs \<Longrightarrow> hooks us = hooks vs"
  by (simp only: hooks_mset)

lemma poll_ok:
  assumes "keeps code" "\<And>xs. mset (sorter xs) = mset xs" "tinv (hooks cv + w) R s" "poll_timers sorter code cv s = (r, cv', s')"
  shows "tinv (hooks cv' + w) R s'"
proof -
  obtain r0 s0 where d: "code Drivers s = (r0, s0)" by fastforce
  have i0: "tinv (hooks cv + w) R s0" by (rule code_keepsD [OF assms(1) _ d]) (use assms(3) in simp)
  obtain due s1 where rt: "retain_timers (clock s0) s0 = (due, s1)" by (meson surj_pair)
  define s2 where "s2 = (if timers s0 \<noteq> [] then s1\<lparr>deadline := next_deadline (clock s0) (timers s1)\<rparr> else s1)"
  let ?vs = "sorter (cv @ map Some due)"
  have "hooks ?vs = mset (map exec_hook due) + hooks cv" using hooks_perm [OF assms(2)] by (simp add: add.commute)
  moreover have "tinv (mset (map exec_hook due) + (hooks cv + w)) R s2" using retain_ok [OF i0 rt] by (simp add: s2_def)
  ultimately have i2: "tinv (hooks ?vs + w) R s2" by (simp add: add.assoc)
  obtain r3 vs s3 where it: "run_items code True ?vs s2 = (r3, vs, s3)" by (metis prod_cases3)
  note i3 = run_items_ok [OF assms(1) i2 it]
  have i4: "tinv w R s3" by (rule tinv_drop [OF i3])
  show ?thesis
  proof (cases "r0 = Cut")
    case True
    with assms(4) i0 show ?thesis by (simp add: poll_timers_def d)
  next
    case False
    then have "(if r3 = Threw then (Threw, vs, s3) else if r3 = Cut then (Cut, vs, s3)
        else if \<not> should_keep_timer_loop s3 \<or> timers s1 = [] then (Returned False, [], s3\<lparr>running := False\<rparr>)
        else (Returned True, [], s3\<lparr>running := True\<rparr>)) = (r, cv', s')"
      using assms(4) by (cases r0; cases r3) (simp_all add: poll_timers_def d rt Let_def s2_def [symmetric] it)
    with i3 i4 show ?thesis by (auto split: if_splits)
  qed
qed

section \<open>Programs and loops\<close>

lemma import_poll_ok:
  assumes "keeps code" "\<And>xs. mset (sorter xs) = mset xs" "tinv w R s" "poll_timers sorter code [] s = (r, cv, s')"
  shows "tinv w R s'"
  by (rule tinv_drop, rule poll_ok [OF assms(1,2) _ assms(4)]) (simp add: assms(3))

lemma run_call_ok:
  assumes "keeps code" "\<And>xs. mset (sorter xs) = mset xs" "tinv w R s"
  shows "tinv w R (snd (run_call sorter code c s))"
proof (cases c)
  case Import_Poll
  obtain r cv s' where p: "poll_timers sorter code [] s = (r, cv, s')" by (metis prod_cases3)
  have "tinv w R (snd (question (r, s') (\<lambda>s. (Returned (), s))))"
    by (rule question_ok) (simp_all add: import_poll_ok [OF assms p])
  with Import_Poll p show ?thesis by (simp add: run_call_def)
qed (use assms in \<open>auto simp: run_call_def clear_ok set_ok js_ref_ok unref_ok tick_ok intro!: question_ok\<close>)

lemma run_calls_ok:
  assumes "keeps code" "\<And>xs. mset (sorter xs) = mset xs" "tinv w R s"
  shows "tinv w R (snd (run_calls sorter code cs s))"
  using assms(3) by (induction cs arbitrary: s) (auto intro!: ignoring_ok run_call_ok [OF assms(1,2)])

theorem run_code_keeps:
  assumes "\<And>xs. mset (sorter xs) = mset xs"
  shows "keeps (run_code sorter P n)"
proof (induction n)
  case 0
  show ?case unfolding keeps_def using tinv_drop by simp
next
  case (Suc n)
  have "tinv w R (emit (E_Code c (clock s)) s)" if "tinv (owed c + w) R s" for c w R s
  proof (cases c)
    case (Callback hk cb)
    with that show ?thesis by (simp add: emit_run)
  qed (use that in \<open>simp_all add: emit_other\<close>)
  then show ?case unfolding keeps_def
    by (auto simp: Let_def intro!: question_ok run_calls_ok [OF Suc assms])
qed

lemma destroy_all_ok: "keeps code \<Longrightarrow> tinv w R s \<Longrightarrow> tinv w R (snd (destroy_all code hks s))"
  by (induction hks arbitrary: s) (simp_all add: ignoring_ok code_ok)

lemma discard_ok:
  assumes "keeps code" "tinv w R s"
  shows "tinv w R (snd (discard_all_timers_on_process_exit code s))"
proof -
  let ?s = "release (\<lambda>_. True) (timers s) s"
  have c: "counted ?s" using assms(2) by (intro counted_release) (auto simp: tinv_def counted_def)
  have "tinv w R ?s" by (rule tinv_ref_only [OF assms(2) c]) (rule release_fields order_refl eq_refl [OF release_fields(8) [symmetric]])+
  then have "tinv w R (?s\<lparr>timers := []\<rparr>)"
    by (rule tinv_weaken) (use c in \<open>simp_all add: counted_def\<close>)
  then have "tinv w R (notify_one ((?s\<lparr>timers := []\<rparr>)\<lparr>running := False\<rparr>))" by (simp only: tinv_fields)
  then show ?thesis
    by (simp add: discard_all_timers_on_process_exit_def Let_def destroy_all_ok [OF assms(1)])
qed

lemma sum_pumps: "i < length ps \<Longrightarrow> sum_list (map hooks ps) = hooks (ps ! i) + sum_list (map hooks (ps[i := []]))"
proof (induction ps arbitrary: i)
  case (Cons p ps)
  then show ?case by (cases i) (simp_all add: ac_simps)
qed simp

lemma sum_pumps_le: "sum_list (map hooks (ps[i := v])) \<subseteq># hooks v + sum_list (map hooks ps)"
proof (induction ps arbitrary: i)
  case (Cons p ps)
  then show ?case by (cases i) (simp_all add: mset_subset_eq_add_left mset_subset_eq_add_right add.left_commute)
qed simp

lemma tinv_pumps:
  assumes "tinv w R s" "v + sum_list (map hooks ps) \<subseteq># w + left_over s"
  shows "tinv v R (s\<lparr>pumps := ps\<rparr>)"
proof -
  let ?s = "s\<lparr>pumps := ps\<rparr>"
  have l: "runs hk ?s = runs hk s" "was_set ?s hk = was_set s hk" "was_run ?s hk = was_run s hk" for hk
    by (simp_all add: runs_def was_set_def was_run_def fun_eq_iff)
  have "waits_ok (v + sum_list (map hooks ps)) s" using waits_mono [OF _ assms(2)] assms(1) by (simp only: tinv_def)
  then have "waits_ok (v + left_over ?s) ?s" by (simp add: waits_ok_def may_run_def l left_over_def)
  with assms(1) show ?thesis by (simp add: tinv_def counted_def logged_def made_def reserved_def l)
qed

lemma pump_tick_ok:
  assumes "keeps code" "\<And>xs. mset (sorter xs) = mset xs" "tinv w R s" "i < length (pumps s)"
  shows "tinv w R (snd (pump_tick sorter code i s))"
proof -
  let ?put = "\<lambda>v s. s\<lparr>pumps := (pumps s)[i := v]\<rparr>"
  let ?v = "pumps s ! i"
  have put: "tinv w R (?put v t)" if "tinv (hooks v + w) R t" for v t
  proof (rule tinv_pumps [OF that])
    have "w + sum_list (map hooks ((pumps t)[i := v])) \<subseteq># w + (hooks v + sum_list (map hooks (pumps t)))"
      by (simp add: sum_pumps_le)
    then show "w + sum_list (map hooks ((pumps t)[i := v])) \<subseteq># hooks v + w + left_over t"
      by (simp add: left_over_def ac_simps)
  qed
  have i0: "tinv (hooks ?v + w) R (?put [] s)"
    by (rule tinv_pumps [OF assms(3)]) (simp add: left_over_def sum_pumps [OF assms(4)] ac_simps)
  obtain r1 s1 where j: "code Jobs (?put [] s) = (r1, s1)" by fastforce
  have i1: "tinv (hooks ?v + w) R s1" by (rule code_keepsD [OF assms(1) _ j]) (use i0 in simp)
  obtain r2 v2 s2 where p: "poll_timers sorter code ?v s1 = (r2, v2, s2)" by (metis prod_cases3)
  have i2: "tinv w R (?put v2 s2)" by (rule put [OF poll_ok [OF assms(1,2) i1 p]])
  have "tinv w R (snd (ignoring (r2, ?put v2 s2) (\<lambda>s. (Returned (), s))))" by (rule ignoring_ok) (simp_all add: i2)
  with put [OF i1] show ?thesis by (cases r1) (simp_all add: pump_tick_def Let_def j p)
qed

lemma drop_is_unreference: "drop_ref r s = unreference r s"
  by (simp add: drop_ref_def ref_defs)

lemma texec_ok:
  assumes "keeps code" "\<And>xs. mset (sorter xs) = mset xs" "tinv w R s"
  shows "tinv w R (snd (texec sorter code x s))"
proof (cases x)
  case T_Poll
  obtain r cv s' where p: "poll_timers sorter code [] s = (r, cv, s')" by (metis prod_cases3)
  have "tinv w R (snd (ignoring (r, s') (\<lambda>s. (Returned (), s))))"
    by (rule ignoring_ok) (simp_all add: import_poll_ok [OF assms p])
  with T_Poll p show ?thesis by (simp add: texec_def spawn_loop_turn_def)
next
  case T_New_Pump
  have "tinv w R (s\<lparr>pumps := pumps s @ [[]]\<rparr>)" by (rule tinv_pumps [OF assms(3)]) (simp add: left_over_def)
  with T_New_Pump show ?thesis by (simp add: texec_def)
next
  case (T_Drop_Pump i)
  have "tinv w R (s\<lparr>pumps := (pumps s)[i := []]\<rparr>)"
    by (rule tinv_pumps [OF assms(3)]) (use sum_pumps_le [of "pumps s" i "[]"] in \<open>simp add: left_over_def\<close>)
  with T_Drop_Pump show ?thesis by (simp add: texec_def)
next
  case T_New_Controller
  have "tinv w R (snd (new_unreferenced s))"
    by (rule new_ref_ok(1) [OF assms(3), where b = False and r = "fst (new_unreferenced s)"]) simp
  with T_New_Controller show ?thesis by (simp add: texec_def)
qed (use assms in \<open>auto simp: texec_def run_call_ok discard_ok pump_tick_ok reference_ok unreference_ok drop_is_unreference
      resume_timer_loop_if_idle_def adjust_http_inflight_def\<close>)

lemma texecs_ok:
  assumes "keeps code" "\<And>xs. mset (sorter xs) = mset xs" "tinv w R s"
  shows "tinv w R (snd (texecs sorter code xs s))"
  using assms(3) by (induction xs arbitrary: s) (auto intro!: ignoring_ok texec_ok [OF assms(1,2)])

lemma reachable_tinv:
  assumes "\<And>xs. mset (sorter xs) = mset xs"
  shows "tinv {#} {} (snd (texecs sorter (run_code sorter P n) ops (tstate_new t0)))"
  by (rule texecs_ok [OF run_code_keeps [OF assms] assms])
    (simp add: tinv_def tstate_new_def counted_def logged_def waits_ok_def left_over_def was_set_def was_run_def)

section \<open>What a poll calls\<close>

text \<open>The callbacks that have been called, with their hooks.\<close>

fun called_of :: "event \<Rightarrow> (nat \<times> nat) list" where
  "called_of (E_Code (Callback hk c) _) = [(hk, c)]"
| "called_of _ = []"

definition called :: "tstate \<Rightarrow> (nat \<times> nat) list" where
  "called s = concat (map called_of (log s))"

lemma called_emit [simp]: "called (emit e s) = called s @ called_of e"
  by (simp add: called_def emit_def)

lemma called_fields [simp]:
  "called (s\<lparr>executing_hook_id := k\<rparr>) = called s" "called (s\<lparr>running := b\<rparr>) = called s" "called (s\<lparr>timers := ts\<rparr>) = called s"
  "called (s\<lparr>deadline := d\<rparr>) = called s" "called (notify_one s) = called s" "called (s\<lparr>timer_handles := hs\<rparr>) = called s" "called (s\<lparr>clock := t\<rparr>) = called s"
  "called (reference r s) = called s" "called (unreference r s) = called s"
  "called (s\<lparr>next_id := n, next_hook := m\<rparr>) = called s" "called (snd (new_referenced s)) = called s" "called (snd (new_unreferenced s)) = called s"
  by (simp_all add: called_def ref_defs)

text \<open>Hooks that do nothing (no asynchronous hook is enabled), and other code that asks for no module.\<close>

definition is_hook :: "code \<Rightarrow> bool" where
  "is_hook w = (case w of Callback _ _ \<Rightarrow> False | Jobs \<Rightarrow> False | Drivers \<Rightarrow> False | _ \<Rightarrow> True)"


lemma hook_simps [simp]:
  "is_hook (Hook_Init h)" "is_hook (Hook_Before h)" "is_hook (Hook_After h)" "is_hook (Hook_Destroy h)"
  "\<not> is_hook (Callback h c)" "\<not> is_hook Jobs" "\<not> is_hook Drivers"
  by (simp_all add: is_hook_def)





lemma called_set_referenced [simp]: "called (set_timer_referenced i r s) = called s"
  by (simp add: set_timer_referenced_def Let_def split: option.split)












section \<open>Properties\<close>

text \<open>C23: over any sequence of calls of the timer functions, turns of the timer task, ticks of the server pumps and other
  events, whatever callbacks, hooks, pending jobs and native drivers call (polls nested in them included), whatever they
  throw and however long they take: no callback begins before the deadline its timer was made with has passed, and the
  callback of a one-shot timer begins at most once, also when an exception has left it in the vector of a pump. The
  nesting of user code is cut off at any depth.\<close>

theorem timers_run_when_due:
  assumes "\<And>xs. mset (sorter xs) = mset xs" "s = snd (texecs sorter (run_code sorter P n) ops (tstate_new t0))"
  shows "(\<forall>hk c t. E_Code (Callback hk c) t \<in> set (log s) \<longrightarrow> (\<exists>d r. E_Set hk d r \<in> set (log s) \<and> d < t))
    \<and> (\<forall>hk d. E_Set hk d False \<in> set (log s) \<longrightarrow> runs hk s \<le> 1)"
  using reachable_tinv [OF assms(1), where P = P and n = n and ops = ops and ?t0.0 = t0]
  unfolding assms(2) [symmetric] tinv_def logged_def was_set_def was_run_def by blast

text \<open>C24: the count the event loop looks at is the number of referenced handles, so the loop is kept alive
  exactly while a handle is referenced, whatever user code does.\<close>

theorem refs_count_handles:
  assumes "\<And>xs. mset (sorter xs) = mset xs" "s = snd (texecs sorter (run_code sorter P n) ops (tstate_new t0))"
  shows "refs s = length (filter id (loop_refs s)) \<and> (has_refed_handles s \<longleftrightarrow> True \<in> set (loop_refs s))"
proof -
  have "counted s" using reachable_tinv [OF assms(1)] by (simp add: assms(2) tinv_def)
  then show ?thesis by (auto simp: counted_def has_refed_handles_def filter_empty_conv)
qed


section \<open>Concrete runs\<close>

definition idle_script :: script where
  "idle_script = \<lparr>calls = [], throws = False\<rparr>"

text \<open>Callback 1 clears timer 1, callback 2 sets a timer, callback 4 throws when it is called first, callback 6 takes ten
  milliseconds, asks for a module and clears timer 0; all others do nothing.\<close>

definition demo_prog :: program where
  "demo_prog w l = (case w of
     Callback _ cb \<Rightarrow>
       if cb = 1 then idle_script\<lparr>calls := [Clear (C_Number 1)]\<rparr>
       else if cb = 2 then idle_script\<lparr>calls := [Set 0 5 Timeout True]\<rparr>
       else if cb = 4 then idle_script\<lparr>throws := 4 \<notin> snd ` set (concat (map called_of l))\<rparr>
       else if cb = 6 then idle_script\<lparr>calls := [Pass 10, Import_Poll, Clear (C_Number 0)]\<rparr> else idle_script
   | _ \<Rightarrow> idle_script)"

text \<open>The same without requests for modules.\<close>

definition calm_prog :: program where
  "calm_prog w l = (let sc = demo_prog w l in sc\<lparr>calls := filter (\<lambda>c. c \<noteq> Import_Poll) (calls sc)\<rparr>)"

abbreviation sorter :: sortf where
  "sorter \<equiv> sort_key (map_option exec_key)"

definition trun :: "timer_op list \<Rightarrow> tstate" where
  "trun ops = snd (texecs sorter (run_code sorter demo_prog 4) ops (tstate_new 0))"

text \<open>A timeout, an interval whose callback throws, and a later timeout, polled by the pump of a server.\<close>

definition demo_ops :: "timer_op list" where
  "demo_ops = [T_Call (Set 0 8 Timeout True), T_Call (Set 4 5 Interval True), T_Call (Set 3 12 Interval False), T_New_Pump,
     T_Call (Pass 20), T_Pump 0]"

lemma sorted_somes: "sorted (map (map_option f) vs) \<Longrightarrow> sorted (map f (somes vs))"
proof (induction vs)
  case (Cons v vs)
  have "x \<in> set (somes vs) \<longleftrightarrow> Some x \<in> set vs" for x by (induction vs) (auto simp: somes_def List.map_filter_simps split: option.splits)
  with Cons show ?case by (cases v) (auto dest!: bspec)
qed simp

lemma sorter_ok: "mset (sorter xs) = mset xs" "sorted (map exec_key (somes (sorter xs)))"
  by (simp, rule sorted_somes, rule sorted_sort_key)


text \<open>Evaluation: what follows a call is not looked at before the call has ended.\<close>

lemma question_weak: "m = m' \<Longrightarrow> question m f = question m' f"
  by simp

lemma ignoring_weak: "m = m' \<Longrightarrow> ignoring m f = ignoring m' f"
  by simp

lemma ending_simps:
  "question (Returned x, s) f = f s" "question (Threw, s) g = (Threw, s)" "question (Cut, s) g = (Cut, s)"
  "ignoring (Returned x, s) f = f s" "ignoring (Threw, s) f = f s" "ignoring (Cut, s) g = (Cut, s)"
  by (simp_all add: question_def ignoring_def)

lemmas weak_congs = question_weak ignoring_weak let_weak_cong prod.case_cong_weak if_weak_cong

lemmas timer_eval = trun_def demo_ops_def tstate_new_def FAR_def texec_def run_call_def set_timeout_interval_def timer_deadline_def
  Let_def ending_simps demo_prog_def calm_prog_def idle_script_def ref_defs should_keep_timer_loop_def has_http_inflight_def
  has_refed_handles_def poll_timers_def retain_timers_def retain_step_def one_shot_due_def next_deadline_def MIN_SLEEP_def FAR_FUTURE_def
  run_timer_def destroy_now_def pump_tick_def spawn_loop_turn_def clear_timeout_interval_def timer_id_from_value_def js_ref_def unref_def
  set_timer_referenced_def List.map_filter_simps numeral_eq_Suc called_def

lemma demo_called: "called (trun demo_ops) = [(1, 0), (2, 4)]"
  by (simp add: timer_eval cong: weak_congs)

theorem timers_run_when_due_witness:
  "E_Code (Callback 1 0) 20 \<in> set (log (trun demo_ops)) \<and> (\<exists>d r. E_Set 1 d r \<in> set (log (trun demo_ops)) \<and> d < 20)
   \<and> E_Set 1 8 False \<in> set (log (trun demo_ops)) \<and> runs 1 (trun demo_ops) \<le> 1"
proof -
  have "E_Code (Callback 1 0) 20 \<in> set (log (trun demo_ops))" "E_Set 1 8 False \<in> set (log (trun demo_ops))"
    by (simp_all add: timer_eval cong: weak_congs)
  with timers_run_when_due [OF sorter_ok(1) trun_def, of demo_ops] show ?thesis by blast
qed

theorem refs_count_handles_witness: "refs (trun demo_ops) = 1 \<and> has_refed_handles (trun demo_ops)"
proof -
  have "loop_refs (trun demo_ops) = [False, True, False]" by (simp add: timer_eval cong: weak_congs)
  with refs_count_handles [OF sorter_ok(1) trun_def, of demo_ops] show ?thesis by simp
qed

text \<open>The interval was due at 5 and the timeout at 8, but the interval is sorted by its next deadline and runs last.\<close>

lemma interval_runs_late:
  "called (trun [T_Call (Set 0 8 Timeout True), T_Call (Set 3 5 Interval True), T_Call (Pass 20), T_Poll]) = [(1, 0), (2, 3)]"
  by (simp add: timer_eval cong: weak_congs)


section \<open>Where the code goes wrong\<close>

text \<open>A callback clears a timer that is due in the same poll: its callback runs all the same.\<close>

lemma cleared_timer_runs:
  "called (trun [T_Call (Set 1 1 Timeout True), T_Call (Set 3 2 Timeout True), T_Call (Pass 10), T_Poll]) = [(1, 1), (2, 3)]"
  by (simp add: timer_eval cong: weak_congs)

text \<open>With an interval the callback even runs after its hook was destroyed.\<close>

lemma runs_after_destroy:
  "filter (\<lambda>e. e \<in> {E_Code (Hook_Destroy 2) 10, E_Code (Callback 2 3) 10})
     (log (trun [T_Call (Set 1 1 Timeout True), T_Call (Set 3 2 Interval True), T_Call (Pass 10), T_Poll]))
   = [E_Code (Hook_Destroy 2) 10, E_Code (Callback 2 3) 10]"
  by (simp add: timer_eval cong: weak_congs)

text \<open>A timer that is cleared twice is destroyed twice.\<close>

lemma destroyed_twice:
  "log (trun [T_Call (Set 0 5 Timeout True), T_Call (Clear (C_Number 0)), T_Call (Clear (C_Number 0))])
   = [E_Code (Hook_Init 1) 0, E_Set 1 5 False, E_Code (Hook_Destroy 1) 0, E_Code (Hook_Destroy 1) 0]"
  by (simp add: timer_eval cong: weak_congs)

text \<open>A callback sets the only timer there is: the poll reports that the loop can stop, although a referenced timer waits.\<close>

lemma nested_timer_stops_loop:
  "(case poll_timers sorter (run_code sorter demo_prog 4) [] (trun [T_Call (Set 2 1 Timeout True), T_Call (Pass 10)]) of
      (go, _, s) \<Rightarrow> (go, running s, should_keep_timer_loop s)) = (Returned False, False, True)"
  by (simp add: timer_eval cong: weak_congs)

text \<open>\<open>ref()\<close> on the handle of a timer that has run keeps the event loop alive with nothing to wait for.\<close>

lemma ref_after_run:
  "(\<lambda>s. (refs s, timers s)) (trun [T_Call (Set 0 1 Timeout True), T_Call (Pass 10), T_Poll, T_Call (Ref \<lparr>h_id = 0, h_ref = 0\<rparr>)]) = (1, [])"
  by (simp add: timer_eval cong: weak_congs)

text \<open>An exception in a tick of a pump leaves an interval in the vector; the next tick calls it twice.\<close>

lemma interval_called_twice:
  "called (trun (demo_ops @ [T_Call (Pass 20), T_Pump 0])) = [(1, 0), (2, 4), (3, 3), (2, 4), (3, 3)]"
  by (simp add: timer_eval cong: weak_congs)

text \<open>A poll nested in a callback forgets which timer is executing: when the callback then clears its own timer, the hook
  is destroyed at once, before the \<open>after\<close> hook.\<close>

lemma nested_poll_forgets_timer:
  "filter (\<lambda>e. e \<in> {E_Code (Hook_Destroy 1) 62, E_Code (Hook_After 1) 62})
     (log (trun [T_Call (Set 6 50 Interval True), T_Call (Set 3 55 Timeout True), T_Call (Pass 52), T_Poll]))
   = [E_Code (Hook_Destroy 1) 62, E_Code (Hook_After 1) 62]"
  by (simp add: timer_eval cong: weak_congs)

end
