(* ===== verification/Package_Resolver.thy ===== *)
theory Package_Resolver
  imports Path_Module
begin

text \<open>
  Resolution of module names, \<open>raster_runtime_modules/src/package/resolver.rs\<close>, for systems other than
  Windows. The file system, the JSON parser (the crate \<open>simd_json\<close>), the current and the home directory and
  the table \<open>require.extensions\<close> of the program are the fields of an environment; text is UTF-8 and a path
  is the list of its bytes. The table of the \<open>node_modules\<close> directories found so far, which is shared by
  all requests, is threaded through.
\<close>

section \<open>Environment\<close>

datatype jvalue = J_Null | J_Bool bool | J_I64 int | J_U64 nat | J_F64 nat | J_String string
  | J_Array "jvalue list" | J_Object "(string \<times> jvalue) list"

datatype rerror = Resolving string string | Type_Error string | Io_Error string

record env =
  is_file :: "string \<Rightarrow> bool"
  is_dir :: "string \<Rightarrow> bool"
  path_exists :: "string \<Rightarrow> bool"
  read_link :: "string \<Rightarrow> string option"
  read_file :: "string \<Rightarrow> string + string"
  to_borrowed_value :: "string \<Rightarrow> jvalue option"
  cwd :: "(rerror, string) res"
  home_dir :: "string option"
  require_extensions :: "(rerror, (string \<times> bool) list) res"
  platform_var :: "string option"

definition CJS_IMPORT_PREFIX :: string where
  "CJS_IMPORT_PREFIX = ''__cjs:''"

definition CJS_LOADER_PREFIX :: string where
  "CJS_LOADER_PREFIX = ''__cjsm:''"

definition RASTER_RUNTIME_PLATFORM :: "env \<Rightarrow> string" where
  "RASTER_RUNTIME_PLATFORM e = (if platform_var e = Some ''node'' then ''node'' else ''browser'')"

definition JS_EXTENSIONS :: "string list" where
  "JS_EXTENSIONS = [''.js'', ''.mjs'', ''.cjs'', ''.node'']"

definition SUPPORTED_EXTENSIONS :: "string list" where
  "SUPPORTED_EXTENSIONS = JS_EXTENSIONS @ [''.lrt'']"

definition is_supported_ext :: "string \<Rightarrow> bool" where
  "is_supported_ext ext \<longleftrightarrow> ext \<in> set SUPPORTED_EXTENSIONS"

definition static_extension_candidates :: "string list" where
  "static_extension_candidates = SUPPORTED_EXTENSIONS"

definition resolve_extension_candidates :: "env \<Rightarrow> (rerror, string list) res" where
  "resolve_extension_candidates e = rmap (\<lambda>props.
     let candidates = map fst (filter snd props)
     in fold (\<lambda>ext cs. if ext \<in> set cs then cs else cs @ [ext]) SUPPORTED_EXTENSIONS candidates) (require_extensions e)"

definition extension_candidates :: "env \<Rightarrow> bool \<Rightarrow> (rerror, string list) res" where
  "extension_candidates e is_esm = (if is_esm then Ok static_extension_candidates else resolve_extension_candidates e)"

section \<open>Text\<close>

definition starts_with :: "string \<Rightarrow> string \<Rightarrow> bool" where
  "starts_with pat s \<longleftrightarrow> take (length pat) s = pat"

function trim_start_matches :: "string \<Rightarrow> string \<Rightarrow> string" where
  "trim_start_matches pat s = (if pat \<noteq> [] \<and> s \<noteq> [] \<and> starts_with pat s then trim_start_matches pat (drop (length pat) s) else s)"
  by pat_completeness auto
termination by (relation "measure (\<lambda>(pat, s). length s)") auto

declare trim_start_matches.simps [simp del]

definition trim_end_matches :: "string \<Rightarrow> string \<Rightarrow> string" where
  "trim_end_matches pat s = rev (trim_start_matches (rev pat) (rev s))"

definition replace_star :: "string \<Rightarrow> string \<Rightarrow> string" where
  "replace_star scope name = concat (map (\<lambda>c. if c = CHR ''*'' then name else [c]) scope)"

text \<open>\<open>Path::join\<close> and \<open>PathBuf::push\<close>.\<close>

definition path_join :: "string \<Rightarrow> string \<Rightarrow> string" where
  "path_join a b = (if is_absolute b then b else if a = [] \<or> ends_with_sep a then a @ b else a @ ''/'' @ b)"

lemma length_trim_right: "length (trim_right s) \<le> length s"
proof (induction s rule: trim_right.induct)
  case (1 s)
  then show ?case using length_split_last [of s] by (subst trim_right.simps) (auto intro: order.trans less_imp_le)
qed

lemma path_parent_shorter: "path_parent s = Some p \<Longrightarrow> length p < length s"
proof -
  assume p: "path_parent s = Some p"
  define h where "h = path_head s"
  define b where "b = trim_right (drop h s)"
  have b: "length b \<le> length s - h" using length_trim_right [of "drop h s"] by (simp add: b_def)
  show ?thesis
  proof (cases "b = []")
    case False
    then have "length (trim_right (fst (split_last b))) < length b"
      using length_trim_right [of "fst (split_last b)"] length_split_last [of b] by simp
    moreover have "p = take h s @ trim_right (fst (split_last b))" using p False by (simp add: path_parent_def h_def b_def Let_def)
    ultimately show ?thesis using b by simp
  next
    case True
    with p show ?thesis by (auto simp: path_parent_def h_def b_def Let_def path_head_def split: if_splits)
  qed
qed

section \<open>Package configuration\<close>

definition obj_get :: "jvalue option \<Rightarrow> string \<Rightarrow> jvalue option" where
  "obj_get v k = (case v of Some (J_Object m) \<Rightarrow> map_of m k | _ \<Rightarrow> None)"

definition as_str :: "jvalue option \<Rightarrow> string option" where
  "as_str v = (case v of Some (J_String s) \<Rightarrow> Some s | _ \<Rightarrow> None)"

definition get_string_field :: "jvalue \<Rightarrow> string \<Rightarrow> string option" where
  "get_string_field package_json k = as_str (obj_get (Some package_json) k)"

definition is_exports_field_exists :: "jvalue \<Rightarrow> bool" where
  "is_exports_field_exists package_json = (case obj_get (Some package_json) ''exports'' of Some (J_Object _) \<Rightarrow> True | _ \<Rightarrow> False)"

definition has_exports_field :: "jvalue \<Rightarrow> bool" where
  "has_exports_field package_json =
     (case obj_get (Some package_json) ''exports'' of None \<Rightarrow> False | Some J_Null \<Rightarrow> False | Some _ \<Rightarrow> True)"

datatype package_format_error = Pkg_Io string string | Invalid_Json string

definition throw_format :: "package_format_error \<Rightarrow> rerror" where
  "throw_format err = Type_Error (case err of
     Pkg_Io path source \<Rightarrow> ''Invalid package config '' @ path @ '' ('' @ source @ '').''
   | Invalid_Json path \<Rightarrow> ''Invalid package config '' @ path @ ''.'')"

definition parse_package_json :: "env \<Rightarrow> string \<Rightarrow> (rerror, jvalue) res" where
  "parse_package_json e path =
     (case read_file e path of
        Inl source \<Rightarrow> Err (throw_format (Pkg_Io path source))
      | Inr buf \<Rightarrow> (case to_borrowed_value e buf of
            None \<Rightarrow> Err (throw_format (Invalid_Json path))
          | Some v \<Rightarrow> Ok v))"

definition package_type_field :: "jvalue \<Rightarrow> string \<Rightarrow> package_format_error + string option" where
  "package_type_field package_json path =
     (case obj_get (Some package_json) ''type'' of
        None \<Rightarrow> Inr None
      | Some (J_String val) \<Rightarrow> Inr (Some val)
      | Some _ \<Rightarrow> Inl (Invalid_Json path))"

text \<open>The loop that climbs from a directory to the root.\<close>

function scope_loop :: "env \<Rightarrow> string \<Rightarrow> string option" where
  "scope_loop e dir =
     (if path_file_name dir = Some ''node_modules'' then None
      else if is_file e (path_join dir ''package.json'') then Some (path_join dir ''package.json'')
      else case path_parent dir of None \<Rightarrow> None | Some d \<Rightarrow> scope_loop e d)"
  by pat_completeness auto
termination by (relation "measure (\<lambda>(e, dir). length dir)") (simp_all add: path_parent_shorter)

declare scope_loop.simps [simp del]

definition find_the_closest_package_scope :: "env \<Rightarrow> string \<Rightarrow> string option" where
  "find_the_closest_package_scope e start =
     (if is_file e start
      then (case path_parent start of Some p \<Rightarrow> if p \<noteq> [] then scope_loop e p else None | None \<Rightarrow> None)
      else scope_loop e start)"

datatype package_scope_type = No_Scope | Typeless | Module_Scope | Common_Js

definition read_package_scope_type :: "env \<Rightarrow> string \<Rightarrow> package_format_error + package_scope_type" where
  "read_package_scope_type e start =
     (case find_the_closest_package_scope e start of
        None \<Rightarrow> Inr No_Scope
      | Some path \<Rightarrow>
          (case read_file e path of
             Inl source \<Rightarrow> Inl (Pkg_Io path source)
           | Inr bytes \<Rightarrow>
               (case to_borrowed_value e bytes of
                  None \<Rightarrow> Inl (Invalid_Json path)
                | Some v \<Rightarrow>
                    (case package_type_field v path of
                       Inl err \<Rightarrow> Inl err
                     | Inr t \<Rightarrow> Inr (if t = Some ''module'' then Module_Scope
                                     else if t = Some ''commonjs'' then Common_Js else Typeless)))))"

definition file_extname :: "string \<Rightarrow> string" where
  "file_extname path =
     (let name = rev (takeWhile (\<lambda>c. c \<noteq> CHR ''/'' \<and> c \<noteq> CHR 0x5C) (rev path))
      in case rfind_char CHR ''.'' name of None \<Rightarrow> [] | Some i \<Rightarrow> if i = 0 then [] else drop i name)"

datatype detected_format = Esm | Cjs bool

definition is_cjs :: "detected_format \<Rightarrow> bool" where
  "is_cjs f = (case f of Cjs _ \<Rightarrow> True | Esm \<Rightarrow> False)"

definition allow_esm_loader_fallback :: "detected_format \<Rightarrow> bool" where
  "allow_esm_loader_fallback f = (case f of Esm \<Rightarrow> True | Cjs allow_esm_detect \<Rightarrow> allow_esm_detect)"

definition detect_file_format :: "env \<Rightarrow> string \<Rightarrow> package_format_error + detected_format" where
  "detect_file_format e path =
     (let ext = file_extname path
      in if ext = ''.mjs'' then Inr Esm
         else if ext = ''.cjs'' then Inr (Cjs False)
         else if ext = ''.js'' \<or> ext = [] then
           (case read_package_scope_type e path of
              Inl err \<Rightarrow> Inl err
            | Inr Module_Scope \<Rightarrow> Inr Esm
            | Inr Common_Js \<Rightarrow> Inr (Cjs False)
            | Inr _ \<Rightarrow> Inr (Cjs True))
         else Inr Esm)"

section \<open>Files and directories\<close>

definition to_abs_path :: "env \<Rightarrow> string \<Rightarrow> (rerror, string) res" where
  "to_abs_path e path = (if is_absolute path then Ok (normalize path) else resolve_path_with_separator (cwd e) [path] True)"

definition continue_on_unresolved :: "(rerror, 'a) res \<Rightarrow> (rerror, 'a option) res" where
  "continue_on_unresolved r = (case r of Ok v \<Rightarrow> Ok (Some v) | Err (Resolving _ _) \<Rightarrow> Ok None | Err err \<Rightarrow> Err err | Panic \<Rightarrow> Panic)"

definition continue_on_unresolved_option :: "(rerror, 'a option) res \<Rightarrow> (rerror, 'a option) res" where
  "continue_on_unresolved_option r = (case r of Err (Resolving _ _) \<Rightarrow> Ok None | _ \<Rightarrow> r)"

text \<open>
  The loop over the extensions ends at the first file. The step for \<open>.node\<close> behind the one for \<open>.json\<close> is
  never reached: the buffer with the name has been taken.
\<close>

definition load_as_file :: "env \<Rightarrow> string \<Rightarrow> bool \<Rightarrow> (rerror, string option) res" where
  "load_as_file e x is_esm =
     (if is_file e x then Ok (Some x)
      else rbind (extension_candidates e is_esm) (\<lambda>exts.
        case List.find (\<lambda>ext. is_file e (x @ ext)) exts of
          Some ext \<Rightarrow>
            (case find_the_closest_package_scope e x of
               None \<Rightarrow> Ok (Some (x @ ext))
             | Some path \<Rightarrow> rbind (parse_package_json e path) (\<lambda>package_json.
                 case package_type_field package_json path of
                   Inl err \<Rightarrow> Err (throw_format err)
                 | Inr _ \<Rightarrow> Ok (Some (x @ ext))))
        | None \<Rightarrow> Ok (if is_file e (x @ ''.json'') then Some (x @ ''.json'') else None)))"

definition load_index :: "env \<Rightarrow> string \<Rightarrow> bool \<Rightarrow> (rerror, string option) res" where
  "load_index e x is_esm =
     (let base_file = x @ ''/index''
      in rbind (extension_candidates e is_esm) (\<lambda>exts.
        case List.find (\<lambda>ext. is_file e (base_file @ ext)) exts of
          Some ext \<Rightarrow>
            (case find_the_closest_package_scope e x of
               None \<Rightarrow> Ok (Some (base_file @ ext))
             | Some path \<Rightarrow> rbind (parse_package_json e path) (\<lambda>package_json.
                 case package_type_field package_json path of
                   Inl err \<Rightarrow> Err (throw_format err)
                 | Inr _ \<Rightarrow> Ok (Some (base_file @ ext))))
        | None \<Rightarrow> Ok (if is_file e (base_file @ ''.json'') then Some (base_file @ ''.json'') else None)))"

definition load_as_directory :: "env \<Rightarrow> string \<Rightarrow> bool \<Rightarrow> (rerror, string option) res" where
  "load_as_directory e x is_esm =
     (let file = x @ ''/package.json'';
          index = continue_on_unresolved_option (load_index e x is_esm)
      in if is_file e file then
           rbind (parse_package_json e file) (\<lambda>package_json.
             case get_string_field package_json ''main'' of
               None \<Rightarrow> index
             | Some main \<Rightarrow>
                 let m = x @ ''/'' @ main
                 in rbind (continue_on_unresolved_option (load_as_file e m is_esm)) (\<lambda>r.
                   case r of
                     Some path \<Rightarrow> Ok (Some path)
                   | None \<Rightarrow> rbind (continue_on_unresolved_option (load_index e m is_esm)) (\<lambda>r.
                       case r of Some path \<Rightarrow> Ok (Some path) | None \<Rightarrow> Err (Resolving [] x))))
         else index)"

definition correct_extensions :: "env \<Rightarrow> string \<Rightarrow> bool \<Rightarrow> (rerror, string) res" where
  "correct_extensions e x is_esm =
     (if is_file e x then Ok x
      else let base_path = x @ (if is_dir e x then ''/index'' else [])
        in rmap (\<lambda>exts. case List.find (\<lambda>ext. is_file e (base_path @ ext)) exts of
                   Some ext \<Rightarrow> base_path @ ext | None \<Rightarrow> x) (extension_candidates e is_esm))"

section \<open>Directories of modules\<close>

text \<open>
  The characters of a UTF-8 text with the indices of their first bytes, \<open>char_indices\<close>.
\<close>

definition char_width :: "nat \<Rightarrow> nat" where
  "char_width b = (if b < 0x80 then 1 else if b < 0xE0 then 2 else if b < 0xF0 then 3 else 4)"

definition char_code :: "nat \<Rightarrow> nat list \<Rightarrow> nat" where
  "char_code b cs = foldl (\<lambda>v c. v * 64 + c mod 64)
     (if b < 0x80 then b else if b < 0xE0 then b mod 32 else if b < 0xF0 then b mod 16 else b mod 8) cs"

function char_indices :: "nat \<Rightarrow> nat list \<Rightarrow> (nat \<times> nat) list" where
  "char_indices i [] = []"
| "char_indices i (b # bs) =
     (let w = char_width b - 1 in (i, char_code b (take w bs)) # char_indices (i + w + 1) (drop w bs))"
  by pat_completeness auto
termination by (relation "measure (\<lambda>(i, bs). length bs)") auto

definition NM_CHARS :: "nat list" where
  "NM_CHARS = map of_char ''seludom_edon''"

text \<open>
  The state of the loop: the directories so far, the end of the current prefix, and how many characters of
  the reversed name \<open>node_modules\<close> have been matched (\<open>None\<close> for the mark \<open>-1\<close>). A character is compared by
  the low byte of its code.
\<close>

record nm_state =
  nm_paths :: "string list"
  nm_last :: nat
  nm_p :: "nat option"

definition nm_step :: "string \<Rightarrow> nat \<times> nat \<Rightarrow> nm_state \<Rightarrow> nm_state" where
  "nm_step from ich st =
     (case ich of (i, code) \<Rightarrow>
        if code = of_char CHR ''/'' then
          st\<lparr>nm_paths := (if nm_p st \<noteq> Some (length NM_CHARS) then nm_paths st @ [take (nm_last st) from @ ''/node_modules''] else nm_paths st),
             nm_last := i, nm_p := Some 0\<rparr>
        else (case nm_p st of
            None \<Rightarrow> st
          | Some p \<Rightarrow> st\<lparr>nm_p := (if vec_get NM_CHARS p = Some (code mod 256) then Some (p + 1) else None)\<rparr>))"

definition node_module_paths :: "env \<Rightarrow> string \<Rightarrow> (rerror, string list) res" where
  "node_module_paths e from =
     rmap (\<lambda>from.
       if from = ''/'' then [''/node_modules'']
       else nm_paths (fold (nm_step from) (rev (char_indices 0 (map of_char from)))
              \<lparr>nm_paths = [], nm_last = length from, nm_p = Some 0\<rparr>) @ [''/node_modules''])
     (if is_absolute from then Ok (replace_backslash from) else resolve_path (cwd e) [from])"

type_synonym nm_cache = "string \<Rightarrow> string list option option"

definition has_node_modules :: "env \<Rightarrow> string \<Rightarrow> bool" where
  "has_node_modules e dir \<longleftrightarrow>
     (case path_file_name dir of None \<Rightarrow> False | Some name \<Rightarrow> name \<noteq> ''node_modules'') \<and> is_dir e (path_join dir ''node_modules'')"

function collect_loop :: "env \<Rightarrow> nm_cache \<Rightarrow> string \<Rightarrow> nat \<Rightarrow> nat \<Rightarrow> string list \<Rightarrow> string list \<Rightarrow> string list \<times> nat \<times> string list" where
  "collect_loop e cache dir i last_found results paths_to_cache =
     (case cache dir of
        Some dirs \<Rightarrow> (results @ (case dirs of Some ds \<Rightarrow> ds | None \<Rightarrow> []), i, paths_to_cache)
      | None \<Rightarrow>
          let found = has_node_modules e dir;
              results = (if found then results @ [path_join dir ''node_modules''] else results);
              last_found = (if found then i else last_found);
              paths_to_cache = paths_to_cache @ [dir]
          in case path_parent dir of
               None \<Rightarrow> (results, last_found, paths_to_cache)
             | Some d \<Rightarrow> collect_loop e cache d (i + 1) last_found results paths_to_cache)"
  by pat_completeness auto
termination by (relation "measure (\<lambda>(e, cache, dir, i, l, r, p). length dir)") (simp_all add: path_parent_shorter)

declare collect_loop.simps [simp del]

primrec cache_paths :: "nat \<Rightarrow> string list \<Rightarrow> nat \<Rightarrow> string list \<Rightarrow> nm_cache \<Rightarrow> nm_cache" where
  "cache_paths last_found results i [] cache = cache"
| "cache_paths last_found results i (path # paths) cache =
     (if i \<le> last_found then cache_paths last_found results (i + 1) paths (cache(path := Some (Some results)))
      else cache(path := Some None))"

definition collect_node_modules_paths :: "env \<Rightarrow> string \<Rightarrow> nm_cache \<Rightarrow> string list \<times> nm_cache" where
  "collect_node_modules_paths e start cache =
     (case cache start of
        Some (Some dirs) \<Rightarrow> (dirs, cache)
      | _ \<Rightarrow>
          (case collect_loop e cache start 0 0 [] [] of (results, last_found, paths_to_cache) \<Rightarrow>
             (results, cache_paths last_found results 0 paths_to_cache cache)))"

definition HOME_NODE_MODULES :: "env \<Rightarrow> string list" where
  "HOME_NODE_MODULES e =
     (case home_dir e of
        None \<Rightarrow> []
      | Some home \<Rightarrow> filter (is_dir e) [path_join home ''.node_modules'', path_join home ''.node_libraries''])"

section \<open>Packages\<close>

text \<open>The slash that is the \<open>n\<close>-th from the right, for \<open>n > 0\<close>.\<close>

primrec nth_slash :: "nat \<Rightarrow> string \<Rightarrow> nat \<Rightarrow> nat option" where
  "nth_slash 0 x p = Some p"
| "nth_slash (Suc n) x p = (case rfind_char CHR ''/'' (take p x) of None \<Rightarrow> None | Some q \<Rightarrow> nth_slash n x q)"

definition get_name_and_scope :: "string \<Rightarrow> nat \<Rightarrow> string \<times> string \<times> bool" where
  "get_name_and_scope x n =
     (case nth_slash n x (length x) of
        Some pos \<Rightarrow> (drop (pos + 1) x, take pos x, False)
      | None \<Rightarrow> (''.'', x, True))"

fun first_some :: "'a option list \<Rightarrow> 'a option" where
  "first_some [] = None"
| "first_some (Some x # xs) = Some x"
| "first_some (None # xs) = first_some xs"

text \<open>The targets of one entry of the exports map, in the order they are looked for.\<close>

definition entry_target :: "string \<Rightarrow> string \<Rightarrow> jvalue option \<Rightarrow> string option" where
  "entry_target platform ident name =
     first_some [as_str (obj_get (obj_get name platform) ident),
       as_str (obj_get (obj_get name ident) ''default''),
       as_str (obj_get name platform),
       as_str (obj_get name ident),
       as_str (obj_get name ''default'')]"

definition wildcard :: "string \<Rightarrow> (string \<times> string) option" where
  "wildcard modules_name =
     (case Option.bind (rfind_char CHR ''/'' modules_name) (\<lambda>p. rfind_char CHR ''/'' (take p modules_name)) of
        None \<Rightarrow> None
      | Some pos \<Rightarrow> (case get_name_and_scope modules_name pos of (name, scope, _) \<Rightarrow> Some (name, scope @ ''/*'')))"

definition package_exports_resolve :: "env \<Rightarrow> jvalue \<Rightarrow> string \<Rightarrow> bool \<Rightarrow> string \<times> string option \<times> bool" where
  "package_exports_resolve e package_json modules_name is_esm =
     (let platform = RASTER_RUNTIME_PLATFORM e;
          ident = (if is_esm then ''import'' else ''require'');
          modules_name = (if modules_name \<noteq> ''.'' then ''./'' @ modules_name else modules_name);
          json = Some package_json;
          cjs = (get_string_field package_json ''type'' \<noteq> Some ''module'');
          exports = obj_get json ''exports'';
          plain = map_option (\<lambda>path. (path, None, cjs))
      in case first_some
           [plain (if modules_name = ''.'' then as_str exports else None),
            plain (as_str (obj_get exports modules_name)),
            plain (entry_target platform ident (obj_get exports modules_name)),
            Option.bind (wildcard modules_name) (\<lambda>(name, scope).
              map_option (\<lambda>path. (path, Some (replace_star path name), cjs)) (entry_target platform ident (obj_get exports scope))),
            plain (as_str (obj_get (obj_get exports ident) ''default'')),
            plain (as_str (obj_get exports ident)),
            plain (if is_esm then None else as_str (obj_get exports ''default'')),
            plain (as_str (obj_get json platform)),
            plain (if is_esm then as_str (obj_get json ''module'') else None),
            plain (as_str (obj_get json ''main''))]
         of Some r \<Rightarrow> r | None \<Rightarrow> (''./index.js'', None, True))"

definition package_imports_resolve :: "env \<Rightarrow> jvalue \<Rightarrow> string \<Rightarrow> string option" where
  "package_imports_resolve e package_json modules_name =
     (let name = obj_get (obj_get (Some package_json) ''imports'') modules_name
      in first_some [as_str (obj_get name (RASTER_RUNTIME_PLATFORM e)), as_str (obj_get name ''require''),
           as_str (obj_get name ''module-sync''), as_str (obj_get name ''default''), as_str name])"

definition load_package_imports :: "env \<Rightarrow> string \<Rightarrow> string \<Rightarrow> bool \<Rightarrow> (rerror, string option) res" where
  "load_package_imports e x dir is_esm =
     (case find_the_closest_package_scope e dir of
        None \<Rightarrow> Ok None
      | Some path \<Rightarrow> rbind (parse_package_json e path) (\<lambda>package_json.
          case package_imports_resolve e package_json x of
            None \<Rightarrow> Ok None
          | Some module_path \<Rightarrow>
              let dir = trim_end_matches ''package.json'' path
              in rmap Some (rbind (correct_extensions e (dir @ module_path) is_esm) (to_abs_path e))))"

lemma nth_slash_bound: "nth_slash n x p = Some q \<Longrightarrow> p \<le> length x \<Longrightarrow> q + n \<le> p"
proof (induction n arbitrary: p)
  case (Suc n)
  then obtain r where r: "rfind_char CHR ''/'' (take p x) = Some r" "nth_slash n x r = Some q" by (auto split: option.splits)
  with rfind_char_less [OF r(1)] Suc.prems Suc.IH [OF r(2)] show ?case by simp
qed simp

lemma name_and_scope_bound: "get_name_and_scope x n = (name, scope, False) \<Longrightarrow> n \<le> length x"
  using nth_slash_bound [of n x "length x"] by (fastforce simp: get_name_and_scope_def split: option.splits)

text \<open>The shortest suffix of the name whose directory has a package file.\<close>

function exports_loop :: "env \<Rightarrow> string \<Rightarrow> string \<Rightarrow> nat \<Rightarrow> string \<times> string \<times> bool" where
  "exports_loop e dir x n =
     (case get_name_and_scope x n of (name, scope, is_last) \<Rightarrow>
        let package_json_exists = path_exists e (dir @ ''/'' @ scope @ ''/package.json'')
        in if package_json_exists \<or> is_last then (name, scope, package_json_exists)
           else exports_loop e dir x (n + 1))"
  by pat_completeness auto
termination by (relation "measure (\<lambda>(e, dir, x, n). length x + 1 - n)") (auto dest!: name_and_scope_bound [OF sym])

declare exports_loop.simps [simp del]

definition exports_of_package :: "env \<Rightarrow> string \<Rightarrow> string \<Rightarrow> bool \<Rightarrow> string \<Rightarrow> string \<Rightarrow> string \<Rightarrow> string option \<Rightarrow> (rerror, string) res" where
  "exports_of_package e x dir is_esm package_json_path scope name sub_module =
     (if \<not> is_file e package_json_path then Err (Resolving dir x)
      else rbind (parse_package_json e package_json_path) (\<lambda>package_json.
        case sub_module of
          Some sub \<Rightarrow>
            if get_string_field package_json ''type'' \<noteq> Some ''module''
            then rmap (\<lambda>sub. if is_esm then CJS_LOADER_PREFIX @ sub else sub) (to_abs_path e sub)
            else Ok sub
        | None \<Rightarrow>
            if name \<noteq> ''.'' \<and> \<not> has_exports_field package_json then Err (Resolving dir x)
            else
              (case package_exports_resolve e package_json name is_esm of (module_path, resolved, cjs) \<Rightarrow>
                 let module_path = (case resolved of Some p \<Rightarrow> p | None \<Rightarrow> module_path)
                 in rmap (\<lambda>p. if cjs \<and> is_esm then CJS_LOADER_PREFIX @ p else p)
                      (rbind (correct_extensions e (dir @ ''/'' @ scope @ ''/'' @ module_path) is_esm) (to_abs_path e)))))"

definition load_package_exports :: "env \<Rightarrow> string \<Rightarrow> string \<Rightarrow> bool \<Rightarrow> (rerror, string) res" where
  "load_package_exports e x dir is_esm =
     (case exports_loop e dir x 1 of (name, scope, package_json_exists) \<Rightarrow>
        if \<not> package_json_exists then
          (if name = ''.'' then Err (Resolving dir x)
           else let package_json_path = dir @ ''/'' @ x @ ''/package.json''
             in if \<not> path_exists e package_json_path then Err (Resolving dir x)
                else exports_of_package e x dir is_esm package_json_path x ''.'' None)
        else
          let trimmed_name = trim_start_matches ''.'' name;
              path = dir @ ''/'' @ scope @ (if trimmed_name \<noteq> [] then ''/'' else []) @ trimmed_name;
              package_json_path = dir @ ''/'' @ scope @ ''/package.json''
          in case List.find (\<lambda>ext. path_exists e (path @ ext)) JS_EXTENSIONS of
               None \<Rightarrow> exports_of_package e x dir is_esm package_json_path scope name None
             | Some ext \<Rightarrow>
                 if ext = ''.mjs'' then Ok (path @ ext)
                 else exports_of_package e x dir is_esm package_json_path scope name (Some (path @ ext)))"

function self_loop :: "jvalue \<Rightarrow> string \<Rightarrow> nat \<Rightarrow> string option" where
  "self_loop package_json x n =
     (case get_name_and_scope x n of (name, scope, is_last) \<Rightarrow>
        if is_exports_field_exists package_json \<and> get_string_field package_json ''name'' = Some scope then Some name
        else if is_last then None
        else self_loop package_json x (n + 1))"
  by pat_completeness auto
termination by (relation "measure (\<lambda>(v, x, n). length x + 1 - n)") (auto dest!: name_and_scope_bound [OF sym])

declare self_loop.simps [simp del]

definition load_package_self :: "env \<Rightarrow> string \<Rightarrow> string \<Rightarrow> bool \<Rightarrow> (rerror, string option) res" where
  "load_package_self e x dir is_esm =
     (case find_the_closest_package_scope e dir of
        None \<Rightarrow> Ok None
      | Some package_json_path \<Rightarrow> rbind (parse_package_json e package_json_path) (\<lambda>package_json.
          case self_loop package_json x 1 of
            None \<Rightarrow> Ok None
          | Some name \<Rightarrow>
              (case package_exports_resolve e package_json name is_esm of (path, resolved, _) \<Rightarrow>
                 let path = (case resolved of Some p \<Rightarrow> p | None \<Rightarrow> path);
                     dir = trim_end_matches ''package.json'' package_json_path
                 in rmap Some (correct_extensions e (dir @ path) is_esm))))"

section \<open>Searching\<close>

definition search_node_modules_dir :: "env \<Rightarrow> string \<Rightarrow> string \<Rightarrow> bool \<Rightarrow> (rerror, string option) res" where
  "search_node_modules_dir e dir x is_esm =
     rbind (continue_on_unresolved (load_package_exports e x dir is_esm)) (\<lambda>r.
       case r of
         Some path \<Rightarrow> Ok (Some path)
       | None \<Rightarrow>
           let dir_slash_x = dir @ ''/'' @ x
           in rbind (continue_on_unresolved_option (load_as_file e dir_slash_x is_esm)) (\<lambda>r.
             case r of
               Some path \<Rightarrow> Ok (Some path)
             | None \<Rightarrow> continue_on_unresolved_option (load_as_directory e dir_slash_x is_esm)))"

primrec load_from_search_paths :: "env \<Rightarrow> string \<Rightarrow> string list \<Rightarrow> bool \<Rightarrow> (rerror, string option) res" where
  "load_from_search_paths e x [] is_esm = Ok None"
| "load_from_search_paths e x (dir # dirs) is_esm =
     rbind (search_node_modules_dir e dir x is_esm) (\<lambda>r.
       case r of Some path \<Rightarrow> Ok (Some path) | None \<Rightarrow> load_from_search_paths e x dirs is_esm)"

definition load_node_modules :: "env \<Rightarrow> string \<Rightarrow> string \<Rightarrow> bool \<Rightarrow> nm_cache \<Rightarrow> (rerror, string option) res \<times> nm_cache" where
  "load_node_modules e x start is_esm cache =
     (case collect_node_modules_paths e start cache of (results, cache) \<Rightarrow>
        (rbind (load_from_search_paths e x results is_esm) (\<lambda>r.
           case r of Some path \<Rightarrow> Ok (Some path) | None \<Rightarrow> load_from_search_paths e x (HOME_NODE_MODULES e) is_esm),
         cache))"

section \<open>Requests\<close>

text \<open>\<open>LOAD_AS_FILE\<close> and then \<open>LOAD_AS_DIRECTORY\<close>, with the absolute path of what is found.\<close>

definition load_path :: "env \<Rightarrow> string \<Rightarrow> bool \<Rightarrow> (rerror, string option) res" where
  "load_path e y_plus_x is_esm =
     rbind (continue_on_unresolved_option (load_as_file e y_plus_x is_esm)) (\<lambda>r.
       case r of
         Some path \<Rightarrow> rmap Some (to_abs_path e path)
       | None \<Rightarrow> rbind (continue_on_unresolved_option (load_as_directory e y_plus_x is_esm)) (\<lambda>r.
           case r of Some path \<Rightarrow> rmap Some (to_abs_path e path) | None \<Rightarrow> Ok None))"

primrec load_paths :: "env \<Rightarrow> string list \<Rightarrow> bool \<Rightarrow> (rerror, string option) res" where
  "load_paths e [] is_esm = Ok None"
| "load_paths e (p # ps) is_esm =
     rbind (load_path e p is_esm) (\<lambda>r. case r of Some path \<Rightarrow> Ok (Some path) | None \<Rightarrow> load_paths e ps is_esm)"

definition trim_request :: "string \<Rightarrow> string" where
  "trim_request x =
     (let x = trim_start_matches ''file://'' x
      in if \<not> starts_with ''.'' x \<and> \<not> starts_with ''/'' x then trim_end_matches ''/'' x else x)"

definition follow_link :: "env \<Rightarrow> string \<Rightarrow> string" where
  "follow_link e y =
     (case read_link e y of
        Some path \<Rightarrow> if is_absolute path then path else y @ ''/../'' @ path
      | None \<Rightarrow> y)"

definition dirname_of :: "env \<Rightarrow> string \<Rightarrow> (rerror, string) res" where
  "dirname_of e y = resolve_path (cwd e) [if is_dir e y then y else dirname y]"

definition resolve_relative :: "env \<Rightarrow> string \<Rightarrow> string \<Rightarrow> string \<Rightarrow> bool \<Rightarrow> string list option \<Rightarrow> (rerror, string) res" where
  "resolve_relative e x y dirname_y is_esm options_paths =
     (let from_paths = (case options_paths of
            Some paths \<Rightarrow>
              if starts_with ''./'' x then map (\<lambda>base. base @ ''/'' @ drop 2 x) paths
              else if starts_with ''..'' x then map (\<lambda>base. base @ ''/'' @ x) paths
              else []
          | None \<Rightarrow> []);
          y_plus_x = (if is_absolute x then x
                      else if starts_with ''./'' x then dirname_y @ ''/'' @ drop 2 x
                      else dirname_y @ ''/'' @ x)
      in rbind (load_paths e (from_paths @ [y_plus_x]) is_esm) (\<lambda>r.
           case r of Some path \<Rightarrow> Ok path | None \<Rightarrow> Err (Resolving y x)))"

definition resolve_bare :: "env \<Rightarrow> string \<Rightarrow> string \<Rightarrow> string \<Rightarrow> bool \<Rightarrow> string list option \<Rightarrow> nm_cache \<Rightarrow> (rerror, string) res \<times> nm_cache" where
  "resolve_bare e x y dirname_y is_esm options_paths cache =
     (case (if starts_with ''#'' x then continue_on_unresolved_option (load_package_imports e x dirname_y is_esm) else Ok None) of
        Err err \<Rightarrow> (Err err, cache)
      | Panic \<Rightarrow> (Panic, cache)
      | Ok (Some path) \<Rightarrow> (Ok path, cache)
      | Ok None \<Rightarrow>
          (case continue_on_unresolved_option (load_package_self e x dirname_y is_esm) of
             Err err \<Rightarrow> (Err err, cache)
           | Panic \<Rightarrow> (Panic, cache)
           | Ok (Some path) \<Rightarrow> (to_abs_path e path, cache)
           | Ok None \<Rightarrow>
               (case (case options_paths of
                   Some paths \<Rightarrow>
                     (load_from_search_paths e x
                        (concat (map (\<lambda>p. case node_module_paths e p of Ok nm \<Rightarrow> nm | _ \<Rightarrow> []) paths)) is_esm, cache)
                 | None \<Rightarrow> load_node_modules e x dirname_y is_esm cache) of
                  (Err err, cache) \<Rightarrow> (Err err, cache)
                | (Panic, cache) \<Rightarrow> (Panic, cache)
                | (Ok (Some path), cache) \<Rightarrow> (Ok path, cache)
                | (Ok None, cache) \<Rightarrow>
                    (case load_as_file e x is_esm of
                       Ok (Some path) \<Rightarrow> (to_abs_path e path, cache)
                     | _ \<Rightarrow> (Err (Resolving y x), cache)))))"

text \<open>
  The hook is a function of the program: \<open>None\<close> if its call fails. A name with a supported extension is
  first tried as it stands.
\<close>

definition require_resolve_with_options :: "env \<Rightarrow> string \<Rightarrow> string \<Rightarrow> (string \<Rightarrow> string \<Rightarrow> string option) option \<Rightarrow> bool
    \<Rightarrow> string list option \<Rightarrow> nm_cache \<Rightarrow> (rerror, string) res \<times> nm_cache" where
  "require_resolve_with_options e x y hooked_fn is_esm options_paths cache =
     (let x = trim_request x; y = follow_link e y
      in case (case hooked_fn of None \<Rightarrow> None | Some f \<Rightarrow> f x y) of
           Some path \<Rightarrow> (Ok path, cache)
         | None \<Rightarrow>
             let supported = is_supported_ext (snd (name_extname x))
             in if supported \<and> is_file e x then (to_abs_path e x, cache)
                else if \<not> starts_with ''..'' x \<and> supported \<and> is_file e (normalize x) then (to_abs_path e (normalize x), cache)
                else
                  let y = (if is_absolute x then ''/'' else y)
                  in case dirname_of e y of
                       Err err \<Rightarrow> (Err err, cache)
                     | Panic \<Rightarrow> (Panic, cache)
                     | Ok dirname_y \<Rightarrow>
                         if starts_with ''./'' x \<or> is_absolute x \<or> starts_with ''..'' x
                         then (resolve_relative e x y dirname_y is_esm options_paths, cache)
                         else resolve_bare e x y dirname_y is_esm options_paths cache)"

definition require_resolve :: "env \<Rightarrow> string \<Rightarrow> string \<Rightarrow> (string \<Rightarrow> string \<Rightarrow> string option) option \<Rightarrow> bool \<Rightarrow> nm_cache
    \<Rightarrow> (rerror, string) res \<times> nm_cache" where
  "require_resolve e x y hooked_fn is_esm cache = require_resolve_with_options e x y hooked_fn is_esm None cache"

text \<open>\<open>PackageResolver::resolve\<close>, for \<open>import\<close>.\<close>

definition resolve_import :: "env \<Rightarrow> string \<Rightarrow> string \<Rightarrow> nm_cache \<Rightarrow> (rerror, string) res \<times> nm_cache" where
  "resolve_import e base name cache =
     (if starts_with CJS_IMPORT_PREFIX name then (Ok name, cache)
      else require_resolve e name (trim_start_matches CJS_IMPORT_PREFIX base) None True cache)"

end
