(* ===== verification/Module_Loader.thy ===== *)
theory Module_Loader
  imports Package_Resolver
begin

text \<open>
  Loading of CommonJS modules, \<open>raster_runtime_modules/src/module\<close> (\<open>require.rs\<close>, \<open>extensions.rs\<close>,
  \<open>facade.rs\<close>, \<open>import_load.rs\<close>, the tables of \<open>mod.rs\<close> and \<open>current_module.rs\<close>). The code of a module is a list of
  actions: requests for other modules (by its own \<open>require\<close>, or by one that \<open>createRequire\<close> has made for another
  file), assignments to \<open>module.exports\<close>, removals from \<open>require.cache\<close> and throws. A module that the engine evaluates
  (an ES module, a built-in one or bytecode) is given by all the program does until its promise settles, timers and
  pending jobs included, and by how it settles, if it does. A value of the program is a number; 0 is undefined.
\<close>

section \<open>Names of the built-in modules\<close>

record module_names =
  ordinary :: "string list"
  enabled_node_only :: "string list"
  disabled_node_only :: "string list"

definition strip_prefix :: "string \<Rightarrow> string \<Rightarrow> string option" where
  "strip_prefix p s = (if starts_with p s then Some (drop (length p) s) else None)"

definition is_builtin :: "module_names \<Rightarrow> string \<Rightarrow> bool" where
  "is_builtin mn request =
     (let request = trim_end_matches ''/'' request
      in case strip_prefix ''node:'' request of
           Some bare \<Rightarrow>
             if bare \<in> set (disabled_node_only mn) then False
             else if bare \<in> set (enabled_node_only mn) then True
             else bare \<in> set (ordinary mn)
         | None \<Rightarrow> request \<in> set (ordinary mn) \<and> request \<notin> set (enabled_node_only mn))"

definition is_known_disabled :: "module_names \<Rightarrow> string \<Rightarrow> bool" where
  "is_known_disabled mn request =
     (let request = trim_end_matches ''/'' request
      in case strip_prefix ''node:'' request of
           Some bare \<Rightarrow> bare \<in> set (disabled_node_only mn)
         | None \<Rightarrow> request \<in> set (disabled_node_only mn))"

definition disabled_node_builtin_error_request :: "module_names \<Rightarrow> string \<Rightarrow> string option" where
  "disabled_node_builtin_error_request mn request =
     (let request = trim_end_matches ''/'' request
      in case strip_prefix ''node:'' request of
           None \<Rightarrow> None
         | Some bare \<Rightarrow> if bare \<in> set (disabled_node_only mn) then Some request else None)"

definition resolve_builtin :: "module_names \<Rightarrow> string \<Rightarrow> string option" where
  "resolve_builtin mn request =
     (let request = trim_end_matches ''/'' request
      in case strip_prefix ''node:'' request of
           Some bare \<Rightarrow>
             if bare \<in> set (disabled_node_only mn) then None
             else if bare \<in> set (enabled_node_only mn) then Some (''node:'' @ bare)
             else if bare \<in> set (ordinary mn) then Some bare
             else None
         | None \<Rightarrow>
             if request \<in> set (disabled_node_only mn) then None
             else if request \<in> set (ordinary mn) \<and> request \<notin> set (enabled_node_only mn) then Some request
             else None)"

definition resolve_builtin_request_for_resolve :: "module_names \<Rightarrow> string \<Rightarrow> string option" where
  "resolve_builtin_request_for_resolve mn request =
     (if ends_with_sep request then None else resolve_builtin mn request)"

definition resolve_require_builtin_request :: "module_names \<Rightarrow> string \<Rightarrow> string option" where
  "resolve_require_builtin_request mn request =
     map_option (\<lambda>resolved. if starts_with ''node:'' request then request else resolved)
       (resolve_builtin_request_for_resolve mn request)"

section \<open>State\<close>

datatype action = A_Require string bool | A_Require_From string string bool | A_Exports nat | A_Throw nat | A_Delete string

datatype handler = H_Js | H_Json | H_Node | H_User "action list"

text \<open>How the promise of an import ends: with the exports, with an error, or never.\<close>

datatype outcome = Resolved nat | Rejected nat | Never

type_synonym evaluation = "action list \<times> outcome"

text \<open>How a source parses: as the body of a function, as an ES module, or not at all.\<close>

datatype program = P_Script "action list" | P_Esm evaluation | P_Bad

datatype lerror = Unknown_Builtin string | Module_Not_Found string string | Thrown nat | Load_Error string
  | Resolver_Error rerror

record lenv =
  fs_env :: env
  names :: module_names
  extensions :: "(string \<times> handler option) list"
  require_hook :: "(string \<Rightarrow> string \<Rightarrow> string option) option"
  source :: "string \<Rightarrow> program option"
  json_value :: "string \<Rightarrow> nat option"
  addon :: "string \<Rightarrow> nat option"
  import_file :: "string \<Rightarrow> evaluation"

record module_record =
  m_filename :: string
  m_exports :: nat
  m_loaded :: bool
  m_children :: "nat list"
  m_parent :: "nat option"

datatype levent = E_Run string | E_Fail string | E_Delete string

text \<open>
  \<open>js_cache\<close> is \<open>require.cache\<close>; \<open>rcache\<close>, \<open>progress\<close> and \<open>current_module\<close> are the fields of \<open>RequireState\<close>. A
  module is the index of its record. The entry of a module in \<open>progress\<close> is its record, that of an import an empty
  object of its own (which record it is made for is noted beside it). \<open>imported\<close> is what the engine remembers: a
  module is evaluated once, and a later import of it gives the same exports or the same error.
\<close>

datatype entry = Entry_Module nat | Entry_Import nat

primrec entry_record :: "entry \<Rightarrow> nat" where
  "entry_record (Entry_Module r) = r"
| "entry_record (Entry_Import r) = r"

record lstate =
  js_cache :: "string \<Rightarrow> nat option"
  rcache :: "string \<Rightarrow> nat option"
  progress :: "string \<Rightarrow> entry option"
  current_module :: "nat option"
  imported :: "string \<Rightarrow> (lerror + nat) option"
  nm_table :: nm_cache
  records :: "module_record list"
  next_value :: nat
  llog :: "levent list"

definition lstate_new :: lstate where
  "lstate_new = \<lparr>js_cache = \<lambda>_. None, rcache = \<lambda>_. None, progress = \<lambda>_. None, current_module = None,
     imported = \<lambda>_. None, nm_table = \<lambda>_. None, records = [], next_value = 1, llog = []\<rparr>"

definition emit :: "levent \<Rightarrow> lstate \<Rightarrow> lstate" where
  "emit e s = s\<lparr>llog := llog s @ [e]\<rparr>"

definition set_record :: "nat \<Rightarrow> (module_record \<Rightarrow> module_record) \<Rightarrow> lstate \<Rightarrow> lstate" where
  "set_record r f s = s\<lparr>records := (records s)[r := f (records s ! r)]\<rparr>"

section \<open>Names of modules\<close>

definition loader_env :: "lenv \<Rightarrow> env" where
  "loader_env le = (fs_env le)\<lparr>require_extensions := Ok (map (\<lambda>(ext, h). (ext, h \<noteq> None)) (extensions le))\<rparr>"

definition default_resolve_filename :: "lenv \<Rightarrow> string \<Rightarrow> string \<Rightarrow> nm_cache \<Rightarrow> (lerror, string) res \<times> nm_cache" where
  "default_resolve_filename le request parent_filename cache =
     (case disabled_node_builtin_error_request (names le) (trim_end_matches ''/'' request) of
        Some r \<Rightarrow> (Err (Unknown_Builtin r), cache)
      | None \<Rightarrow>
          (case resolve_builtin_request_for_resolve (names le) request of
             Some resolved \<Rightarrow> (Ok resolved, cache)
           | None \<Rightarrow>
               (case require_resolve_with_options (loader_env le) request parent_filename (require_hook le) False None cache of
                  (Ok resolved, cache) \<Rightarrow> (Ok resolved, cache)
                | (Err _, cache) \<Rightarrow> (Err (Module_Not_Found request parent_filename), cache)
                | (Panic, cache) \<Rightarrow> (Panic, cache))))"

definition trim_specifier :: "string \<Rightarrow> string" where
  "trim_specifier specifier =
     (if \<not> starts_with CJS_IMPORT_PREFIX specifier \<and> \<not> starts_with ''.'' specifier \<and> \<not> starts_with ''/'' specifier
         \<and> \<not> starts_with ''file://'' specifier
      then trim_end_matches ''/'' specifier else specifier)"

text \<open>The name of the module, the name for the engine, and whether the engine loads it.\<close>

definition import_target :: "lenv \<Rightarrow> string \<Rightarrow> string \<Rightarrow> nm_cache \<Rightarrow> (lerror, string \<times> string \<times> bool) res \<times> nm_cache" where
  "import_target le parent_filename specifier cache =
     (let specifier = trim_specifier specifier
      in if starts_with CJS_IMPORT_PREFIX specifier
         then (Ok (drop (length CJS_IMPORT_PREFIX) specifier, specifier, True), cache)
         else case disabled_node_builtin_error_request (names le) (trim_end_matches ''/'' specifier) of
             Some r \<Rightarrow> (Err (Unknown_Builtin r), cache)
           | None \<Rightarrow>
               (case default_resolve_filename le specifier parent_filename cache of
                  (Err err, cache) \<Rightarrow> (Err err, cache)
                | (Panic, cache) \<Rightarrow> (Panic, cache)
                | (Ok resolved, cache) \<Rightarrow>
                    if drop (length resolved - 4) resolved = ''.lrt'' \<and> 4 \<le> length resolved then (Ok (resolved, resolved, True), cache)
                    else let resolved_trimmed = trim_end_matches ''/'' resolved
                      in case disabled_node_builtin_error_request (names le) resolved_trimmed of
                           Some r \<Rightarrow> (Err (Unknown_Builtin r), cache)
                         | None \<Rightarrow>
                             (case resolve_builtin (names le) resolved_trimmed of
                                Some builtin_name \<Rightarrow> (Ok (builtin_name, builtin_name, True), cache)
                              | None \<Rightarrow> (Ok (resolved, resolved, False), cache))))"

section \<open>Records\<close>

definition link_child_to_parent :: "nat \<Rightarrow> nat \<Rightarrow> lstate \<Rightarrow> lstate" where
  "link_child_to_parent parent child s = set_record parent (\<lambda>m. m\<lparr>m_children := m_children m @ [child]\<rparr>) s"

definition module_constructor :: "lenv \<Rightarrow> string \<Rightarrow> nat option \<Rightarrow> lstate \<Rightarrow> (lerror, nat) res \<times> lstate" where
  "module_constructor le i parent s =
     (case (if is_absolute i then Ok (replace_backslash i) else resolve_path (cwd (fs_env le)) [i]) of
        Err err \<Rightarrow> (Err (Resolver_Error err), s)
      | Panic \<Rightarrow> (Panic, s)
      | Ok filename \<Rightarrow>
          (Ok (length (records s)),
           s\<lparr>records := records s @ [\<lparr>m_filename = filename, m_exports = next_value s, m_loaded = False, m_children = [], m_parent = parent\<rparr>],
             next_value := next_value s + 1\<rparr>))"

definition get_or_create_module_record :: "lenv \<Rightarrow> string \<Rightarrow> nat option \<Rightarrow> lstate \<Rightarrow> (lerror, nat) res \<times> lstate" where
  "get_or_create_module_record le filename parent s =
     (case js_cache s filename of
        Some r \<Rightarrow> (Ok r, s)
      | None \<Rightarrow>
          (case module_constructor le filename parent s of
             (Ok r, s) \<Rightarrow>
               let s = s\<lparr>js_cache := (js_cache s)(filename := Some r)\<rparr>
               in (Ok r, case parent of Some p \<Rightarrow> link_child_to_parent p r s | None \<Rightarrow> s)
           | (Err err, s) \<Rightarrow> (Err err, s)
           | (Panic, s) \<Rightarrow> (Panic, s)))"

section \<open>Handlers\<close>

definition registered :: "lenv \<Rightarrow> string \<Rightarrow> handler option" where
  "registered le ext = (case map_of (extensions le) ext of Some (Some h) \<Rightarrow> Some h | _ \<Rightarrow> None)"

definition find_longest_registered_extension :: "lenv \<Rightarrow> string \<Rightarrow> string" where
  "find_longest_registered_extension le filename =
     (let b = basename filename None
      in case List.find (\<lambda>i. b ! i = CHR ''.'' \<and> i \<noteq> 0 \<and> registered le (drop i b) \<noteq> None) [0..<length b] of
           Some i \<Rightarrow> drop i b
         | None \<Rightarrow> ''.js'')"

definition resolve_extension_handler :: "lenv \<Rightarrow> string \<Rightarrow> (lerror, handler) res" where
  "resolve_extension_handler le ext =
     (case registered le ext of
        Some h \<Rightarrow> Ok h
      | None \<Rightarrow>
          if ext = ''.js'' then Ok H_Js
          else if ext = ''.json'' then Ok H_Json
          else if ext = ''.node'' then Ok H_Node
          else Err (Load_Error ''require.extensions handler must be a function''))"

type_synonym requirer = "nat \<Rightarrow> string \<Rightarrow> lstate \<Rightarrow> (lerror, nat) res \<times> lstate"

text \<open>A request by the function \<open>createRequire\<close> makes for a file.\<close>

definition request_from :: "lenv \<Rightarrow> requirer \<Rightarrow> string \<Rightarrow> string \<Rightarrow> lstate \<Rightarrow> (lerror, nat) res \<times> lstate" where
  "request_from le req parent_filename request s =
     (case get_or_create_module_record le parent_filename None s of
        (Ok parent, s) \<Rightarrow> req parent request s
      | (Err err, s) \<Rightarrow> (Err err, s)
      | (Panic, s) \<Rightarrow> (Panic, s))"

text \<open>The actions of the code of module \<open>r\<close>; a request may be made in a \<open>try\<close> block.\<close>

primrec run_actions :: "lenv \<Rightarrow> requirer \<Rightarrow> nat \<Rightarrow> action list \<Rightarrow> lstate \<Rightarrow> (lerror, unit) res \<times> lstate" where
  "run_actions le req r [] s = (Ok (), s)"
| "run_actions le req r (a # acts) s =
     (case a of
        A_Require x caught \<Rightarrow>
          (case req r x s of
             (Ok _, s) \<Rightarrow> run_actions le req r acts s
           | (Err err, s) \<Rightarrow> if caught then run_actions le req r acts s else (Err err, s)
           | (Panic, s) \<Rightarrow> (Panic, s))
      | A_Require_From f x caught \<Rightarrow>
          (case request_from le req f x s of
             (Ok _, s) \<Rightarrow> run_actions le req r acts s
           | (Err err, s) \<Rightarrow> if caught then run_actions le req r acts s else (Err err, s)
           | (Panic, s) \<Rightarrow> (Panic, s))
      | A_Exports v \<Rightarrow> run_actions le req r acts (set_record r (\<lambda>m. m\<lparr>m_exports := v\<rparr>) s)
      | A_Throw n \<Rightarrow> (Err (Thrown n), s)
      | A_Delete n \<Rightarrow> run_actions le req r acts (emit (E_Delete n) (s\<lparr>js_cache := (js_cache s)(n := None)\<rparr>)))"

text \<open>The loop that polls the timers and runs pending jobs until the promise has settled; \<open>Panic\<close> if it never does. An
  exception of a timer ends it as well.\<close>

definition wait_for_import_promise :: "lenv \<Rightarrow> requirer \<Rightarrow> nat \<Rightarrow> evaluation \<Rightarrow> lstate \<Rightarrow> (lerror, nat) res \<times> lstate" where
  "wait_for_import_promise le req r ev s =
     (case run_actions le req r (fst ev) s of
        (Ok _, s) \<Rightarrow> (case snd ev of Resolved v \<Rightarrow> Ok v | Rejected n \<Rightarrow> Err (Thrown n) | Never \<Rightarrow> Panic, s)
      | (Err err, s) \<Rightarrow> (Err err, s)
      | (Panic, s) \<Rightarrow> (Panic, s))"

definition compile_code :: "lenv \<Rightarrow> requirer \<Rightarrow> nat \<Rightarrow> program \<Rightarrow> string \<Rightarrow> lstate \<Rightarrow> (lerror, unit) res \<times> lstate" where
  "compile_code le req r code filename s =
     (case detect_file_format (fs_env le) filename of
        Inl err \<Rightarrow> (Err (Resolver_Error (throw_format err)), s)
      | Inr fmt \<Rightarrow>
          (case code of
             P_Script acts \<Rightarrow> run_actions le req r acts s
           | P_Esm ev \<Rightarrow>
               if \<not> allow_esm_loader_fallback fmt then (Err (Load_Error ''SyntaxError''), s)
               else (case wait_for_import_promise le req r ev s of
                   (Ok v, s) \<Rightarrow> (Ok (), set_record r (\<lambda>m. m\<lparr>m_exports := v\<rparr>) s)
                 | (Err _, s) \<Rightarrow> (Err (Load_Error ''SyntaxError''), s)
                 | (Panic, s) \<Rightarrow> (Panic, s))
           | P_Bad \<Rightarrow> (Err (Load_Error ''SyntaxError''), s)))"

text \<open>The guard restores the current module however the code ends.\<close>

definition module_compile :: "lenv \<Rightarrow> requirer \<Rightarrow> nat \<Rightarrow> program \<Rightarrow> string \<Rightarrow> lstate \<Rightarrow> (lerror, unit) res \<times> lstate" where
  "module_compile le req r code filename s =
     (case compile_code le req r code filename (s\<lparr>current_module := Some r\<rparr>) of
        (outcome, s') \<Rightarrow> (outcome, s'\<lparr>current_module := current_module s\<rparr>))"

definition run_handler :: "lenv \<Rightarrow> requirer \<Rightarrow> handler \<Rightarrow> nat \<Rightarrow> string \<Rightarrow> lstate \<Rightarrow> (lerror, unit) res \<times> lstate" where
  "run_handler le req h r filename s =
     (case h of
        H_Js \<Rightarrow> (case source le filename of
            None \<Rightarrow> (Err (Load_Error filename), s)
          | Some code \<Rightarrow> module_compile le req r code filename s)
      | H_Json \<Rightarrow> (case json_value le filename of
            None \<Rightarrow> (Err (Load_Error filename), s)
          | Some v \<Rightarrow> (Ok (), set_record r (\<lambda>m. m\<lparr>m_exports := v\<rparr>) s))
      | H_Node \<Rightarrow> (case addon le filename of
            None \<Rightarrow> (Err (Load_Error filename), s)
          | Some v \<Rightarrow> (Ok (), set_record r (\<lambda>m. m\<lparr>m_exports := v\<rparr>) s))
      | H_User acts \<Rightarrow> run_actions le req r acts s)"

definition call_extension_handler :: "lenv \<Rightarrow> requirer \<Rightarrow> nat \<Rightarrow> string \<Rightarrow> lstate \<Rightarrow> (lerror, unit) res \<times> lstate" where
  "call_extension_handler le req r filename s =
     (case resolve_extension_handler le (find_longest_registered_extension le filename) of
        Err err \<Rightarrow> (Err err, s)
      | Panic \<Rightarrow> (Panic, s)
      | Ok h \<Rightarrow> run_handler le req h r filename s)"

definition rollback_failed_load :: "string \<Rightarrow> lstate \<Rightarrow> lstate" where
  "rollback_failed_load import_name s =
     s\<lparr>js_cache := (js_cache s)(import_name := None), progress := (progress s)(import_name := None),
       rcache := (rcache s)(import_name := None)\<rparr>"

text \<open>What the cached value of a module is worth: it is dropped if the module was deleted from \<open>require.cache\<close>.\<close>

definition cached_value :: "string \<Rightarrow> lstate \<Rightarrow> nat option \<times> lstate" where
  "cached_value import_name s =
     (case rcache s import_name of
        None \<Rightarrow> (None, s)
      | Some v \<Rightarrow>
          if js_cache s import_name = None then (None, s\<lparr>rcache := (rcache s)(import_name := None)\<rparr>)
          else (Some v, s))"

definition load_via_extensions :: "lenv \<Rightarrow> requirer \<Rightarrow> string \<Rightarrow> nat \<Rightarrow> lstate \<Rightarrow> (lerror, nat) res \<times> lstate" where
  "load_via_extensions le req import_name r s =
     (if m_loaded (records s ! r) then (Ok (m_exports (records s ! r)), s)
      else case cached_value import_name s of
          (Some v, s) \<Rightarrow> (Ok v, s)
        | (None, s) \<Rightarrow>
            if progress s import_name \<noteq> None then (Ok (m_exports (records s ! r)), s)
            else
              let s = set_record r (\<lambda>m. m\<lparr>m_loaded := False\<rparr>) s;
                  s = emit (E_Run import_name) (s\<lparr>progress := (progress s)(import_name := Some (Entry_Module r))\<rparr>)
              in case call_extension_handler le req r import_name s of
                   (Err err, s) \<Rightarrow> (Err err, emit (E_Fail import_name) (rollback_failed_load import_name s))
                 | (Panic, s) \<Rightarrow> (Panic, s)
                 | (Ok _, s) \<Rightarrow>
                     let exports = m_exports (records s ! r);
                         s = set_record r (\<lambda>m. m\<lparr>m_loaded := True\<rparr>) s
                     in (Ok exports, s\<lparr>progress := (progress s)(import_name := None), rcache := (rcache s)(import_name := Some exports)\<rparr>))"

text \<open>The engine evaluates the module, if it has not done so before; meanwhile the module is the current one.\<close>

definition load_file_via_import :: "lenv \<Rightarrow> requirer \<Rightarrow> string \<Rightarrow> string \<Rightarrow> nat \<Rightarrow> lstate \<Rightarrow> (lerror, nat) res \<times> lstate" where
  "load_file_via_import le req import_name import_specifier r s =
     (let previous = current_module s; s = s\<lparr>current_module := Some r\<rparr>
      in case (case imported s import_specifier of
           Some (Inr v) \<Rightarrow> (Ok v, s)
         | Some (Inl err) \<Rightarrow> (Err err, s)
         | None \<Rightarrow>
             (case wait_for_import_promise le req r (import_file le import_specifier) (emit (E_Run import_name) s) of
                (Ok v, s) \<Rightarrow> (Ok v, s\<lparr>imported := (imported s)(import_specifier := Some (Inr v))\<rparr>)
              | (Err err, s) \<Rightarrow> (Err err, s\<lparr>imported := (imported s)(import_specifier := Some (Inl err))\<rparr>)
              | (Panic, s) \<Rightarrow> (Panic, s))) of
           (Ok v, s) \<Rightarrow> (Ok v, set_record r (\<lambda>m. m\<lparr>m_exports := v\<rparr>) (s\<lparr>current_module := previous\<rparr>))
         | (res, s) \<Rightarrow> (res, s\<lparr>current_module := previous\<rparr>))"

definition load_via_import :: "lenv \<Rightarrow> requirer \<Rightarrow> string \<Rightarrow> string \<Rightarrow> nat \<Rightarrow> lstate \<Rightarrow> (lerror, nat) res \<times> lstate" where
  "load_via_import le req import_name import_specifier r s =
     (case load_file_via_import le req import_name import_specifier r (s\<lparr>progress := (progress s)(import_name := Some (Entry_Import r))\<rparr>) of
        (Ok v, s) \<Rightarrow>
          let s = set_record r (\<lambda>m. m\<lparr>m_loaded := True\<rparr>) s
          in (Ok v, s\<lparr>progress := (progress s)(import_name := None), rcache := (rcache s)(import_name := Some v)\<rparr>)
      | (Err err, s) \<Rightarrow> (Err err, emit (E_Fail import_name) (rollback_failed_load import_name s))
      | (Panic, s) \<Rightarrow> (Panic, s))"

section \<open>Requests\<close>

text \<open>What is there already: the exports of a loaded module, a cached value, or the unfinished exports of a
  module that is being loaded.\<close>

definition known_exports :: "string \<Rightarrow> lstate \<Rightarrow> nat option \<times> lstate" where
  "known_exports import_name s =
     (case (case js_cache s import_name of
              Some r \<Rightarrow> if m_loaded (records s ! r) then Some (m_exports (records s ! r)) else None
            | None \<Rightarrow> None) of
        Some v \<Rightarrow> (Some v, s)
      | None \<Rightarrow>
          (case cached_value import_name s of
             (Some v, s) \<Rightarrow> (Some v, s)
           | (None, s) \<Rightarrow>
               (case progress s import_name of
                  None \<Rightarrow> (None, s)
                | Some (Entry_Import _) \<Rightarrow> (Some 0, s)
                | Some (Entry_Module q) \<Rightarrow> (Some (m_exports (records s ! q)), s))))"

text \<open>The depth of nested requests is bounded by the stack; \<open>Panic\<close> is its overflow, or a promise that never settles.\<close>

primrec require_from_module :: "lenv \<Rightarrow> nat \<Rightarrow> nat \<Rightarrow> string \<Rightarrow> bool \<Rightarrow> lstate \<Rightarrow> (lerror, nat) res \<times> lstate" where
  "require_from_module le 0 parent specifier link_parent s = (Panic, s)"
| "require_from_module le (Suc k) parent specifier link_parent s =
     (case import_target le (m_filename (records s ! parent)) specifier (nm_table s) of
        (Err err, t) \<Rightarrow> (Err err, s\<lparr>nm_table := t\<rparr>)
      | (Panic, t) \<Rightarrow> (Panic, s\<lparr>nm_table := t\<rparr>)
      | (Ok (import_name, import_specifier, via_import), t) \<Rightarrow>
          (case known_exports import_name (s\<lparr>nm_table := t\<rparr>) of
             (Some v, s) \<Rightarrow> (Ok v, s)
           | (None, s) \<Rightarrow>
               (case get_or_create_module_record le import_name (if link_parent then Some parent else None) s of
                  (Err err, s) \<Rightarrow> (Err err, s)
                | (Panic, s) \<Rightarrow> (Panic, s)
                | (Ok r, s) \<Rightarrow>
                    if via_import then load_via_import le (\<lambda>p x. require_from_module le k p x True) import_name import_specifier r (set_record r (\<lambda>m. m\<lparr>m_loaded := False\<rparr>) s)
                    else load_via_extensions le (\<lambda>p x. require_from_module le k p x True) import_name r s)))"

definition require_from_filename :: "lenv \<Rightarrow> nat \<Rightarrow> string \<Rightarrow> string \<Rightarrow> lstate \<Rightarrow> (lerror, nat) res \<times> lstate" where
  "require_from_filename le k = request_from le (\<lambda>p x. require_from_module le k p x True)"

text \<open>What a program does from the outside: a request from a file, or a removal from \<open>require.cache\<close>.\<close>

datatype load_op = L_Require string string | L_Delete string

definition lexec :: "lenv \<Rightarrow> nat \<Rightarrow> load_op \<Rightarrow> lstate \<Rightarrow> lstate" where
  "lexec le k x s =
     (case x of
        L_Require f request \<Rightarrow> snd (require_from_filename le k f request s)
      | L_Delete n \<Rightarrow> emit (E_Delete n) (s\<lparr>js_cache := (js_cache s)(n := None)\<rparr>))"

section \<open>CommonJS modules in ES modules\<close>

text \<open>Whether the name comes from an import by CommonJS code, whether it is forced to be CommonJS, the name and the path.\<close>

definition normalize_name :: "string \<Rightarrow> bool \<times> bool \<times> string \<times> string" where
  "normalize_name name =
     (if \<not> starts_with ''__'' name then (False, False, name, name)
      else case strip_prefix CJS_IMPORT_PREFIX name of
          Some cjs_path \<Rightarrow> (True, False, name, cjs_path)
        | None \<Rightarrow>
            (case strip_prefix CJS_LOADER_PREFIX name of
               Some cjs_path \<Rightarrow> (False, True, cjs_path, cjs_path)
             | None \<Rightarrow> (False, False, name, name)))"

definition export_list :: "string list \<Rightarrow> string" where
  "export_list keys = concat (map (\<lambda>p. if p = ''default'' then [] else p @ '','') keys)"

text \<open>The source of the ES module that stands for a CommonJS module; \<open>keys\<close> are the keys of its exports if they
  are an object.\<close>

definition cjs_facade :: "string \<Rightarrow> string list option \<Rightarrow> string" where
  "cjs_facade name keys =
     (let m = ''const value = require(\"'' @ name @ ''\");export default value.default||value;''
      in case keys of
           None \<Rightarrow> m
         | Some [] \<Rightarrow> m
         | Some ks \<Rightarrow>
             let m = butlast (m @ ''const{'' @ export_list ks) @ ''}=value;''
             in butlast (m @ ''export{'' @ export_list ks) @ ''};'')"

end
