(* ===== verification/Resolver_Laws.thy ===== *)
theory Resolver_Laws
  imports Package_Resolver Path_Laws
begin

text \<open>
  What the resolution of modules promises: which directories are searched and in which order, which package
  file governs a module, and which file a relative request names. The last section has the cases in which
  the code finds something else than what is meant.
\<close>

section \<open>The directories above a directory\<close>

text \<open>The components of a directory and of those above it, the deepest first.\<close>

definition ups :: "string list \<Rightarrow> string list list" where
  "ups cs = map (\<lambda>k. take k cs) (rev [0..<Suc (length cs)])"

lemma ups_Nil [simp]: "ups [] = [[]]"
  by (simp add: ups_def)

lemma ups_snoc [simp]: "ups (cs @ [c]) = (cs @ [c]) # ups cs"
  by (simp add: ups_def)

lemma ups_one [simp]: "ups [c] = [[c], []]"
  using ups_snoc [of "[]" c] by simp


definition nm :: string where
  "nm = ''node_modules''"

lemma pcomp_nm [simp]: "pcomp nm"
  by (simp add: pcomp_def nm_def)

lemma nm_plain: "nm \<noteq> []" "CHR ''/'' \<notin> set nm"
  by (simp_all add: nm_def)

lemma path_text_snoc:
  "path_text True (cs @ [c]) = (if cs = [] then ''/'' else path_text True cs @ ''/'') @ c"
  by (simp add: path_text_def join_sep_snoc)

lemma path_text_no_end:
  assumes "list_all pcomp (cs @ [c])"
  shows "path_text True (cs @ [c]) \<noteq> []" "\<not> ends_with_sep (path_text True (cs @ [c]))"
proof -
  have c: "c \<noteq> []" "CHR ''/'' \<notin> set c" using assms by (simp_all add: pcomp_def)
  then have l: "List.last (path_text True (cs @ [c])) = List.last c" by (simp add: path_text_snoc)
  show "path_text True (cs @ [c]) \<noteq> []" by (simp add: path_text_snoc)
  show "\<not> ends_with_sep (path_text True (cs @ [c]))"
    unfolding ends_with_sep_def MAIN_SEPARATOR_def l using c last_in_set [OF c(1)] by metis
qed

lemma path_join_text:
  assumes "list_all pcomp cs" "c \<noteq> []" "CHR ''/'' \<notin> set c"
  shows "path_join (path_text True cs) c = path_text True (cs @ [c])"
proof -
  have a: "\<not> is_absolute c" using assms(2,3) by (cases c) (auto simp: is_absolute_def MAIN_SEPARATOR_def)
  show ?thesis
  proof (cases cs rule: rev_cases)
    case Nil
    then show ?thesis by (simp add: path_join_def a path_text_def ends_with_sep_def MAIN_SEPARATOR_def)
  next
    case (snoc ds d)
    with assms(1) path_text_no_end [of ds d] show ?thesis
      by (simp add: path_join_def a path_text_snoc [of "ds @ [d]" c, simplified])
  qed
qed

lemma path_parts_root: "path_parent (path_text True []) = None" "path_file_name (path_text True []) = None"
  by (simp_all add: path_text_def path_parent_def path_file_name_def path_head_def is_absolute_def MAIN_SEPARATOR_def trim_right.simps)

section \<open>The search path of a module\<close>









text \<open>The directories for the modules of a directory, on a way up that may or may not include the root.\<close>

definition nm_dirs :: "(string list \<Rightarrow> bool) \<Rightarrow> string list \<Rightarrow> string list" where
  "nm_dirs ok cs = map (\<lambda>p. path_text True (p @ [nm])) (filter (\<lambda>p. (p = [] \<or> List.last p \<noteq> nm) \<and> ok p) (ups cs))"


lemma collect_cold:
  assumes "list_all pcomp cs" "\<And>p. p \<in> set (ups cs) \<Longrightarrow> cache (path_text True p) = None"
  shows "fst (collect_loop e cache (path_text True cs) i l results acc)
    = results @ nm_dirs (\<lambda>p. p \<noteq> [] \<and> is_dir e (path_text True (p @ [nm]))) cs"
  using assms
proof (induction cs arbitrary: i l results acc rule: rev_induct)
  case Nil
  then show ?case
    by (subst collect_loop.simps) (simp add: path_parts_root has_node_modules_def nm_dirs_def)
next
  case (snoc d ds)
  have j: "path_join (path_text True (ds @ [d])) nm = path_text True (ds @ [d, nm])"
    using snoc.prems(1) path_join_text [of "ds @ [d]" nm] nm_plain by simp
  show ?case
    using snoc.IH snoc.prems parse_parts [OF snoc.prems(1), of True]
    by (subst collect_loop.simps) (simp add: has_node_modules_def j nm_dirs_def nm_def [symmetric] Let_def)
qed

section \<open>The package of a module\<close>

abbreviation pj :: string where
  "pj \<equiv> ''package.json''"

text \<open>
  The directory whose package file governs a directory: the nearest one above that has such a file and is not
  separated from it by \<open>node_modules\<close>.
\<close>

definition governing :: "env \<Rightarrow> string list \<Rightarrow> string list option" where
  "governing e cs = List.find (\<lambda>p. is_file e (path_text True (p @ [pj]))) (takeWhile (\<lambda>p. p = [] \<or> List.last p \<noteq> nm) (ups cs))"

lemma scope_loop_governing:
  assumes "list_all pcomp cs"
  shows "scope_loop e (path_text True cs) = map_option (\<lambda>p. path_text True (p @ [pj])) (governing e cs)"
  using assms
proof (induction cs rule: rev_induct)
  case Nil
  then show ?case using path_join_text [of "[]" pj] by (subst scope_loop.simps) (simp add: path_parts_root governing_def)
next
  case (snoc d ds)
  have "path_join (path_text True (ds @ [d])) pj = path_text True ((ds @ [d]) @ [pj])"
    using snoc.prems by (intro path_join_text) simp_all
  with snoc parse_parts [OF snoc.prems, of True] show ?case
    by (subst scope_loop.simps) (simp add: governing_def nm_def)
qed

lemma scope_of_file:
  assumes "list_all pcomp (cs @ [f])" "is_file e (path_text True (cs @ [f]))"
  shows "find_the_closest_package_scope e (path_text True (cs @ [f])) = map_option (\<lambda>p. path_text True (p @ [pj])) (governing e cs)"
  using assms parse_parts [OF assms(1), of True] scope_loop_governing [of cs e]
  by (simp add: find_the_closest_package_scope_def path_text_def)


section \<open>The candidates of a request\<close>











lemma continue_Ok [simp]: "continue_on_unresolved_option (Ok v) = Ok v"
  by (simp add: continue_on_unresolved_option_def)




section \<open>Panics\<close>

text \<open>The resolver has no panics of its own.\<close>

lemma candidates_no_panic: "require_extensions e \<noteq> Panic \<Longrightarrow> extension_candidates e m \<noteq> Panic"
  by (simp add: extension_candidates_def resolve_extension_candidates_def panic_simps)

lemma parse_no_panic: "parse_package_json e p \<noteq> Panic"
  by (simp add: parse_package_json_def split: sum.splits option.splits)

lemma continue_panic [panic_simps]:
  "continue_on_unresolved r = Panic \<longleftrightarrow> r = Panic" "continue_on_unresolved_option q = Panic \<longleftrightarrow> q = Panic"
  by (auto simp: continue_on_unresolved_def continue_on_unresolved_option_def split: res.splits rerror.splits)

lemma load_file_no_panic: "require_extensions e \<noteq> Panic \<Longrightarrow> load_as_file e x m \<noteq> Panic" "require_extensions e \<noteq> Panic \<Longrightarrow> load_index e x m \<noteq> Panic"
  using candidates_no_panic [of e m] parse_no_panic [of e]
  by (auto simp: load_as_file_def load_index_def Let_def panic_simps split: option.splits sum.splits)

lemma load_directory_no_panic: "require_extensions e \<noteq> Panic \<Longrightarrow> load_as_directory e x m \<noteq> Panic"
  using load_file_no_panic [of e] parse_no_panic [of e]
  by (auto simp: load_as_directory_def Let_def panic_simps split: option.splits)

lemma abs_path_no_panic: "cwd e \<noteq> Panic \<Longrightarrow> to_abs_path e p \<noteq> Panic" "cwd e \<noteq> Panic \<Longrightarrow> resolve_path (cwd e) ps \<noteq> Panic"
  by (auto simp: to_abs_path_def resolve_path_def resolve_path_with_separator_def panic_simps)

lemma correct_no_panic: "require_extensions e \<noteq> Panic \<Longrightarrow> correct_extensions e x m \<noteq> Panic"
  using candidates_no_panic [of e m] by (simp add: correct_extensions_def Let_def panic_simps)

lemma exports_no_panic:
  assumes "require_extensions e \<noteq> Panic" "cwd e \<noteq> Panic"
  shows "load_package_exports e x d m \<noteq> Panic"
proof -
  have "exports_of_package e x d m pp sc nme sub \<noteq> Panic" for pp sc nme sub
    using parse_no_panic [of e] abs_path_no_panic(1) [OF assms(2)] correct_no_panic [OF assms(1)]
    by (auto simp: exports_of_package_def Let_def panic_simps split: option.splits prod.splits)
  then show ?thesis by (auto simp: load_package_exports_def Let_def split: option.splits prod.splits)
qed

lemma search_no_panic:
  assumes "require_extensions e \<noteq> Panic" "cwd e \<noteq> Panic"
  shows "load_from_search_paths e x ds m \<noteq> Panic"
proof -
  have "search_node_modules_dir e d x m \<noteq> Panic" for d
    using exports_no_panic [OF assms] load_file_no_panic [OF assms(1)] load_directory_no_panic [OF assms(1)]
    by (auto simp: search_node_modules_dir_def Let_def panic_simps split: option.splits)
  then show ?thesis by (induction ds) (auto simp: panic_simps split: option.splits)
qed

lemma relative_no_panic:
  assumes "require_extensions e \<noteq> Panic" "cwd e \<noteq> Panic"
  shows "resolve_relative e x y d m ps \<noteq> Panic"
proof -
  have "load_path e p m \<noteq> Panic" for p
    using abs_path_no_panic(1) [OF assms(2)] load_file_no_panic [OF assms(1)] load_directory_no_panic [OF assms(1)]
    by (auto simp: load_path_def panic_simps split: option.splits)
  then have "load_paths e qs m \<noteq> Panic" for qs by (induction qs) (auto simp: panic_simps split: option.splits)
  then show ?thesis unfolding resolve_relative_def Let_def by (auto simp: panic_simps split: option.splits)
qed

lemma bare_no_panic:
  assumes "require_extensions e \<noteq> Panic" "cwd e \<noteq> Panic"
  shows "fst (resolve_bare e x y d m ps c) \<noteq> Panic"
proof -
  have i: "load_package_imports e x d m \<noteq> Panic" "load_package_self e x d m \<noteq> Panic"
    using parse_no_panic [of e] abs_path_no_panic(1) [OF assms(2)] correct_no_panic [OF assms(1)]
    by (auto simp: load_package_imports_def load_package_self_def Let_def panic_simps split: option.splits prod.splits)
  have "fst (load_node_modules e x d m c) \<noteq> Panic"
    using search_no_panic [OF assms] by (auto simp: load_node_modules_def panic_simps split: option.splits prod.splits)
  then show ?thesis
    using i search_no_panic [OF assms] abs_path_no_panic(1) [OF assms(2)]
    by (auto simp: resolve_bare_def panic_simps split: res.splits option.splits prod.splits)
qed

lemma resolver_no_panic:
  assumes "require_extensions e \<noteq> Panic" "cwd e \<noteq> Panic"
  shows "fst (require_resolve_with_options e x y h m ps c) \<noteq> Panic"
proof -
  have "dirname_of e z \<noteq> Panic" for z using abs_path_no_panic(2) [OF assms(2)] by (simp add: dirname_of_def)
  then show ?thesis
    using relative_no_panic [OF assms] bare_no_panic [OF assms] abs_path_no_panic(1) [OF assms(2)]
    by (auto simp: require_resolve_with_options_def Let_def split: res.splits option.splits)
qed

section \<open>Properties\<close>






text \<open>A request for a package that no earlier request has touched looks into the existing \<open>node_modules\<close>
  directories of the directory of the module and of those above it, nearest first.\<close>

theorem collect_nearest_first:
  assumes "list_all pcomp cs" "\<And>p. p \<in> set (ups cs) \<Longrightarrow> cache (path_text True p) = None"
  shows "fst (collect_node_modules_paths e (path_text True cs) cache)
    = nm_dirs (\<lambda>p. p \<noteq> [] \<and> is_dir e (path_text True (p @ [nm]))) cs"
proof -
  have "cs \<in> set (ups cs)" by (cases cs rule: rev_cases) simp_all
  then have c: "cache (path_text True cs) = None" by (rule assms(2))
  obtain r l q where "collect_loop e cache (path_text True cs) 0 0 [] [] = (r, l, q)" by (metis prod_cases3)
  with collect_cold [where cache = cache and e = e and i = 0 and l = 0 and results = "[]" and acc = "[]", OF assms] c
  show ?thesis by (simp add: collect_node_modules_paths_def)
qed

text \<open>A file without extension or with the extension \<open>.js\<close> is an ES module exactly if the nearest package
  file above it, not looking beyond a \<open>node_modules\<close> directory, has the type \<open>module\<close>; without such a file it is
  a CommonJS module that may turn out to be an ES module.\<close>

theorem format_by_nearest_package:
  assumes "list_all pcomp (cs @ [f])" "is_file e (path_text True (cs @ [f]))" "file_extname (path_text True (cs @ [f])) \<in> {[], ''.js''}"
  shows "(detect_file_format e (path_text True (cs @ [f])) = Inr Esm \<longleftrightarrow>
      (\<exists>p v. governing e cs = Some p \<and> parse_package_json e (path_text True (p @ [pj])) = Ok v
        \<and> get_string_field v ''type'' = Some ''module''))
    \<and> (governing e cs = None \<longrightarrow> detect_file_format e (path_text True (cs @ [f])) = Inr (Cjs True))"
proof -
  have s: "find_the_closest_package_scope e (path_text True (cs @ [f])) = map_option (\<lambda>p. path_text True (p @ [pj])) (governing e cs)"
    by (rule scope_of_file [OF assms(1,2)])
  show ?thesis
  proof (cases "governing e cs")
    case None
    with s assms(3) show ?thesis by (auto simp: detect_file_format_def read_package_scope_type_def)
  next
    case (Some p)
    with s assms(3) show ?thesis
      by (auto simp: detect_file_format_def read_package_scope_type_def parse_package_json_def package_type_field_def
        get_string_field_def as_str_def split: sum.splits option.splits jvalue.splits if_splits)
  qed
qed


section \<open>Concrete requests\<close>

text \<open>A file system with some plain files, directories and package files; the text of a package file is its path.\<close>

definition demo :: "string list \<Rightarrow> string list \<Rightarrow> (string \<times> jvalue) list \<Rightarrow> env" where
  "demo files dirs pkgs = \<lparr>is_file = \<lambda>p. p \<in> set (files @ map fst pkgs), is_dir = \<lambda>p. p \<in> set dirs,
     path_exists = \<lambda>p. p \<in> set (files @ map fst pkgs @ dirs), read_link = \<lambda>_. None,
     read_file = \<lambda>p. if p \<in> set (map fst pkgs) then Inr p else Inl ''No such file or directory (os error 2)'',
     to_borrowed_value = map_of pkgs, cwd = Ok ''/app'', home_dir = None,
     require_extensions = Ok [(''.js'', True), (''.json'', True)], platform_var = None\<rparr>"


theorem collect_nearest_first_witness:
  "fst (collect_node_modules_paths (demo [] [''/a/b/node_modules'', ''/a/node_modules''] []) ''/a/b'' (\<lambda>_. None))
   = [''/a/b/node_modules'', ''/a/node_modules'']"
proof -
  have "path_text True [''a'', ''b''] = ''/a/b''"
    "nm_dirs (\<lambda>p. p \<noteq> [] \<and> is_dir (demo [] [''/a/b/node_modules'', ''/a/node_modules''] []) (path_text True (p @ [nm]))) [''a'', ''b'']
     = [''/a/b/node_modules'', ''/a/node_modules'']"
    by code_simp+
  with collect_nearest_first [of "[''a'', ''b'']" "\<lambda>_. None" "demo [] [''/a/b/node_modules'', ''/a/node_modules''] []"] show ?thesis
    by (simp add: pcomp_def)
qed

definition demo_pkg :: env where
  "demo_pkg = demo [''/app/lib/m.js'', ''/app/lib/util.js''] [] [(''/app/package.json'', J_Object [(''type'', J_String ''module'')])]"

theorem format_by_nearest_package_witness: "detect_file_format demo_pkg ''/app/lib/m.js'' = Inr Esm"
proof -
  have p: "path_text True ([''app'', ''lib''] @ [''m.js'']) = ''/app/lib/m.js''" "governing demo_pkg [''app'', ''lib''] = Some [''app'']"
    "path_text True ([''app''] @ [''package.json'']) = ''/app/package.json''" "is_file demo_pkg ''/app/lib/m.js''"
    "file_extname ''/app/lib/m.js'' = ''.js''"
    "parse_package_json demo_pkg ''/app/package.json'' = Ok (J_Object [(''type'', J_String ''module'')])"
    "get_string_field (J_Object [(''type'', J_String ''module'')]) ''type'' = Some ''module''"
    by code_simp+
  with format_by_nearest_package [of "[''app'', ''lib'']" "''m.js''" demo_pkg] show ?thesis by (simp add: pcomp_def)
qed



section \<open>Where the code finds something else\<close>

text \<open>A relative request with an extension is first looked up in the current directory of the process.\<close>

lemma cwd_shadows_sibling:
  "fst (require_resolve (demo [''./util.js'', ''/app/util.js'', ''/app/lib/util.js''] [] []) ''./util.js'' ''/app/lib/m.js'' None False (\<lambda>_. None))
   = Ok ''/app/util.js''"
  by code_simp

text \<open>\<open>.\<close> is not taken for a relative request.\<close>

lemma dot_not_relative:
  "fst (require_resolve (demo [''/app/lib/index.js''] [] []) ''.'' ''/app/lib/m.js'' None False (\<lambda>_. None)) = Err (Resolving ''/app/lib/m.js'' ''.'')"
  by code_simp

text \<open>The table of directories keeps one list for all directories on the way up, so a later request from
  above looks into directories below.\<close>

lemma cache_serves_deeper:
  "(let e = demo [] [''/a/b/node_modules'', ''/a/node_modules''] [] in
    fst (collect_node_modules_paths e ''/a'' (snd (collect_node_modules_paths e ''/a/b'' (\<lambda>_. None)))))
   = [''/a/b/node_modules'', ''/a/node_modules'']"
  by code_simp

text \<open>The directory below the root is never searched, although \<open>module.paths\<close> names it.\<close>

lemma root_modules_skipped: "fst (collect_node_modules_paths (demo [] [''/node_modules''] []) ''/a'' (\<lambda>_. None)) = []"
  by code_simp

text \<open>A directory whose name ends in U+0173, with the low byte of an s, is taken for \<open>node_modules\<close>.\<close>

lemma low_byte_taken_for_modules:
  "node_module_paths (demo [] [] []) (''/node_module'' @ [CHR 0xC5, CHR 0xB3]) = Ok [''/node_modules'']"
  by (simp add: node_module_paths_def is_absolute_def MAIN_SEPARATOR_def replace_backslash_def NM_CHARS_def nm_step_def
    vec_get_def char_width_def char_code_def Let_def)

text \<open>A pattern for all files of a package matches nothing; the main file is returned for any of them. A pattern
  for a directory matches only one level, and only if its target is an object of conditions.\<close>

lemma wildcard_gives_main:
  "package_exports_resolve (demo [] [] [])
     (J_Object [(''exports'', J_Object [(''./*'', J_String ''./src/*.js'')]), (''main'', J_String ''./main.js'')]) ''a'' False = (''./main.js'', None, True)"
  "package_exports_resolve (demo [] [] [])
     (J_Object [(''exports'', J_Object [(''./lib/*'', J_Object [(''default'', J_String ''./src/*.js'')])]), (''main'', J_String ''./main.js'')])
     ''lib/a/b'' False = (''./main.js'', None, True)"
  "package_exports_resolve (demo [] [] [])
     (J_Object [(''exports'', J_Object [(''./lib/*'', J_String ''./src/*.js'')]), (''main'', J_String ''./main.js'')])
     ''lib/a'' False = (''./main.js'', None, True)"
  by code_simp+

text \<open>A file of the package that has the name of a subpath is taken before the exports are looked at.\<close>

lemma exports_bypassed:
  "load_package_exports (demo [''/m/p/a.js''] [] [(''/m/p/package.json'', J_Object [(''exports'', J_Object [(''./a'', J_String ''./dist/a.js'')])])])
     ''p/a'' ''/m'' False = Ok ''/m/p/a.js''"
  by code_simp

text \<open>A target that does not exist is returned all the same.\<close>

lemma missing_target_returned:
  "load_package_exports (demo [] [] [(''/m/p/package.json'', J_Object [(''main'', J_String ''gone.js'')])]) ''p'' ''/m'' False = Ok ''/m/p/gone.js''"
  by code_simp

end
