(* ===== verification/Loader_Laws.thy ===== *)
theory Loader_Laws
  imports Module_Loader Resolver_Laws
begin

text \<open>
  What the loader promises: a module runs at most once unless it fails or is removed from \<open>require.cache\<close>, and
  requests come to an end, cyclic ones included, if the program names finitely many modules and their promises settle.
\<close>

section \<open>The table of the modules in progress\<close>


lemma progress_emit [simp]: "progress (emit e s) = progress s"
  by (simp add: emit_def)

lemma progress_set_record [simp]: "progress (set_record r f s) = progress s"
  by (simp add: set_record_def)

















section \<open>How often a module runs\<close>

definition runs :: "string \<Rightarrow> lstate \<Rightarrow> nat" where
  "runs n s = count_list (llog s) (E_Run n)"

definition fails :: "string \<Rightarrow> lstate \<Rightarrow> nat" where
  "fails n s = count_list (llog s) (E_Fail n)"

definition deletions :: "string \<Rightarrow> lstate \<Rightarrow> nat" where
  "deletions n s = count_list (llog s) (E_Delete n)"

lemmas counts = runs_def fails_def deletions_def

text \<open>The module is in \<open>require.cache\<close>, loaded or being loaded.\<close>

abbreviation loading :: "lstate \<Rightarrow> string \<Rightarrow> nat option" where
  "loading s n \<equiv> map_option entry_record (progress s n)"

definition available :: "string \<Rightarrow> lstate \<Rightarrow> bool" where
  "available n s \<longleftrightarrow> (\<exists>r. js_cache s n = Some r \<and> (m_loaded (records s ! r) \<or> loading s n = Some r))"

definition linv :: "lstate \<Rightarrow> bool" where
  "linv s \<longleftrightarrow> (\<forall>n r. js_cache s n = Some r \<or> loading s n = Some r \<longrightarrow> r < length (records s))
     \<and> (\<forall>n. runs n s \<le> fails n s + deletions n s + of_bool (available n s))"



















lemma linv_imported [simp]: "linv (s\<lparr>imported := m\<rparr>) \<longleftrightarrow> linv s"
  by (simp add: linv_def counts available_def)








section \<open>Requests come to an end\<close>

text \<open>The file name of the record of a module; every record in \<open>require.cache\<close> has the one of its key.\<close>

definition file_of :: "lenv \<Rightarrow> string \<Rightarrow> string option" where
  "file_of le i = (case (if is_absolute i then Ok (replace_backslash i) else resolve_path (cwd (fs_env le)) [i]) of Ok f \<Rightarrow> Some f | _ \<Rightarrow> None)"

definition named :: "lenv \<Rightarrow> lstate \<Rightarrow> bool" where
  "named le s \<longleftrightarrow> (\<forall>n r. js_cache s n = Some r \<longrightarrow> r < length (records s) \<and> file_of le n = Some (m_filename (records s ! r)))"

abbreviation files :: "lstate \<Rightarrow> string list" where
  "files s \<equiv> map m_filename (records s)"

text \<open>Records are added and keep their file names.\<close>

definition grows :: "lenv \<Rightarrow> lstate \<Rightarrow> lstate \<Rightarrow> bool" where
  "grows le s s' \<longleftrightarrow> (named le s \<longrightarrow> named le s') \<and> (\<exists>xs. files s' = files s @ xs)"

lemma grows_refl [simp]: "grows le s s"
  by (simp add: grows_def)


lemma files_nth: "r < length (records s) \<Longrightarrow> m_filename (records s ! r) = files s ! r"
  by simp











lemma grows_fields [simp]:
  "grows le (s\<lparr>current_module := m\<rparr>) t = grows le s t" "grows le s (t\<lparr>current_module := m\<rparr>) = grows le s t"
  "grows le s (t\<lparr>imported := i\<rparr>) = grows le s t" "grows le (emit e s) t = grows le s t" "grows le s (emit e t) = grows le s t"
  "grows le (s\<lparr>progress := p\<rparr>) t = grows le s t" "grows le s (t\<lparr>progress := p\<rparr>) = grows le s t"
  "grows le s (t\<lparr>progress := p, rcache := c\<rparr>) = grows le s t" "grows le (s\<lparr>nm_table := nt\<rparr>) t = grows le s t"
  by (simp_all add: grows_def named_def emit_def)













text \<open>A module at work: its record \<open>r\<close> has the file name \<open>f\<close>, and \<open>P\<close> are the modules in progress.\<close>

definition at_work :: "lenv \<Rightarrow> (string \<Rightarrow> entry option) \<Rightarrow> nat \<Rightarrow> string \<Rightarrow> lstate \<Rightarrow> bool" where
  "at_work le P r f s \<longleftrightarrow> named le s \<and> progress s = P \<and> r < length (records s) \<and> m_filename (records s ! r) = f"










lemma at_work_current [simp]: "at_work le P r f (s\<lparr>current_module := m\<rparr>) = at_work le P r f s"
  by (simp add: at_work_def named_def)








section \<open>Concrete programs\<close>

text \<open>Two modules that require each other; every other name is the first of them.\<close>

definition demo_le :: "(string \<Rightarrow> program option) \<Rightarrow> lenv" where
  "demo_le src = \<lparr>fs_env = demo [] [] [], names = \<lparr>ordinary = [], enabled_node_only = [], disabled_node_only = []\<rparr>, extensions = [],
     require_hook = Some (\<lambda>x y. Some (if x = ''./b'' then ''/b.js'' else ''/a.js'')), source = src, json_value = \<lambda>_. None,
     addon = \<lambda>_. None, import_file = \<lambda>_. ([], Rejected 0)\<rparr>"

definition cyclic :: "string \<Rightarrow> program option" where
  "cyclic f = Some (P_Script (if f = ''/a.js'' then [A_Require ''./b'' False, A_Exports 100] else [A_Require ''./a'' False, A_Exports 200]))"

definition failing :: "string \<Rightarrow> program option" where
  "failing f = Some (P_Script (if f = ''/a.js'' then [A_Require ''./b'' True, A_Require ''./b'' True, A_Exports 100] else [A_Throw 7]))"

text \<open>The second module is an ES module that asks for the first through \<open>createRequire\<close>.\<close>

definition cyclic_esm :: "string \<Rightarrow> program option" where
  "cyclic_esm f = Some (if f = ''/a.js'' then P_Script [A_Require ''./b'' False, A_Exports 100]
     else P_Esm ([A_Require_From ''/b.js'' ''./a'' False], Resolved 200))"







lemma esm_cycle_loads:
  "(\<lambda>(v, s). (v, llog s)) (require_from_filename (demo_le cyclic_esm) 3 ''/main.js'' ''./a'' lstate_new) = (Ok 100, [E_Run ''/a.js'', E_Run ''/b.js''])"
  by code_simp


text \<open>The second module of a cycle gets the unfinished exports of the first, and each runs once.\<close>

lemma cycle_loads:
  "(\<lambda>(v, s). (v, llog s)) (require_from_filename (demo_le cyclic) 3 ''/main.js'' ''./a'' lstate_new) = (Ok 100, [E_Run ''/a.js'', E_Run ''/b.js''])"
  by code_simp

text \<open>A module whose load has failed stays among the children of its parent, once for each attempt.\<close>

lemma failed_child_stays:
  "(\<lambda>s. map m_children (records s)) (snd (require_from_filename (demo_le failing) 3 ''/main.js'' ''./a'' lstate_new)) = [[1], [2, 3], [], []]"
  by code_simp

text \<open>A broken package file is reported as a module that was not found.\<close>

lemma broken_package_hidden:
  "(let e = (demo [''/a/x.js''] [] [(''/a/package.json'', J_Null)])\<lparr>to_borrowed_value := \<lambda>_. None\<rparr>
    in (fst (require_resolve e ''./x'' ''/a/m.js'' None False (\<lambda>_. None)),
        fst (default_resolve_filename ((demo_le cyclic)\<lparr>fs_env := e, require_hook := None\<rparr>) ''./x'' ''/a/m.js'' (\<lambda>_. None))))
   = (Err (Type_Error ''Invalid package config /a/package.json.''), Err (Module_Not_Found ''./x'' ''/a/m.js''))"
  by code_simp

text \<open>The ES module for a CommonJS module whose only export is \<open>default\<close> does not parse: the brace is cut off.\<close>

lemma default_only_facade_broken:
  "cjs_facade ''/a.js'' (Some [''default'']) = ''const value = require(\"/a.js\");export default value.default||value;const}=value;export};''"
  by code_simp

end
