(* ===== verification/Querystring.thy ===== *)
theory Querystring
  imports Text_Codec
begin

text \<open>
  The module \<open>querystring\<close>, \<open>raster_runtime_querystring/src/lib.rs\<close>: the JavaScript text
  \<open>QUERYSTRING_FACTORY\<close> that the crate evaluates. A JavaScript string is the list of its UTF-16 code units as
  numbers; \<open>None\<close> is a thrown error. The arguments of \<open>escape\<close>, \<open>unescape\<close>, the separators and what a
  custom function returns are strings, \<open>maxKeys\<close> is an integer, and the object that \<open>parse\<close> returns is the map from
  its keys to its values, without the order of the keys. \<open>decodeURIComponent\<close> is the function of the language; the
  \<open>TextDecoder\<close> is the one of the runtime.
\<close>

type_synonym jstr = "nat list"

definition js_of :: "rstring \<Rightarrow> jstr" where
  "js_of s = map unat (utf16_units s)"

section \<open>Tables\<close>

definition hex_digit :: "nat \<Rightarrow> nat" where
  "hex_digit d = (if d < 10 then 48 + d else 55 + d)"

definition hexTable :: "nat \<Rightarrow> jstr" where
  "hexTable i = [37, hex_digit (i div 16), hex_digit (i mod 16)]"

definition isHexTable :: "nat \<Rightarrow> bool" where
  "isHexTable c \<longleftrightarrow> (48 \<le> c \<and> c \<le> 57) \<or> (65 \<le> c \<and> c \<le> 70) \<or> (97 \<le> c \<and> c \<le> 102)"

text \<open>The value of a hexadecimal digit; \<open>None\<close> for the entries \<open>-1\<close> and for what is outside of the table.\<close>

definition unhexTable :: "nat \<Rightarrow> nat option" where
  "unhexTable c =
     (if 48 \<le> c \<and> c \<le> 57 then Some (c - 48)
      else if 65 \<le> c \<and> c \<le> 70 then Some (c - 55)
      else if 97 \<le> c \<and> c \<le> 102 then Some (c - 87)
      else None)"

text \<open>Letters, digits and \<open>! ' ( ) * - . _ ~\<close>.\<close>

definition noEscape :: "nat \<Rightarrow> bool" where
  "noEscape c \<longleftrightarrow> (48 \<le> c \<and> c \<le> 57) \<or> (65 \<le> c \<and> c \<le> 90) \<or> (97 \<le> c \<and> c \<le> 122)
     \<or> c \<in> {33, 39, 40, 41, 42, 45, 46, 95, 126}"

section \<open>Escaping\<close>

text \<open>The bits that are put together with \<open>|\<close> never overlap, so the sums are the same.\<close>

fun encodeStr :: "jstr \<Rightarrow> jstr option" where
  "encodeStr [] = Some []"
| "encodeStr (c # r) =
     (if c < 0x80 then map_option (\<lambda>out. (if noEscape c then [c] else hexTable c) @ out) (encodeStr r)
      else if c < 0x800 then
        map_option (\<lambda>out. hexTable (0xC0 + c div 64) @ hexTable (0x80 + c mod 64) @ out) (encodeStr r)
      else if c < 0xD800 \<or> 0xE000 \<le> c then
        map_option (\<lambda>out. hexTable (0xE0 + c div 4096) @ hexTable (0x80 + c div 64 mod 64) @ hexTable (0x80 + c mod 64) @ out) (encodeStr r)
      else case r of
          [] \<Rightarrow> None
        | d # r' \<Rightarrow>
            let c = 0x10000 + c mod 1024 * 1024 + d mod 1024
            in map_option (\<lambda>out. hexTable (0xF0 + c div 262144) @ hexTable (0x80 + c div 4096 mod 64)
                 @ hexTable (0x80 + c div 64 mod 64) @ hexTable (0x80 + c mod 64) @ out) (encodeStr r'))"

definition qsEscape :: "jstr \<Rightarrow> jstr option" where
  "qsEscape str = encodeStr str"

section \<open>Unescaping\<close>

text \<open>\<open>decodeURIComponent\<close> of the language: an escape, the escapes of the rest of a sequence, the whole text.\<close>

fun hex_escape :: "jstr \<Rightarrow> (nat \<times> jstr) option" where
  "hex_escape (p # h # l # r) =
     (if p \<noteq> 37 then None
      else case (unhexTable h, unhexTable l) of (Some a, Some b) \<Rightarrow> Some (a * 16 + b, r) | _ \<Rightarrow> None)"
| "hex_escape _ = None"

fun octets :: "nat \<Rightarrow> jstr \<Rightarrow> (byte list \<times> jstr) option" where
  "octets 0 r = Some ([], r)"
| "octets (Suc k) r = (case hex_escape r of
     None \<Rightarrow> None
   | Some (b, r) \<Rightarrow> map_option (\<lambda>(bs, r). (word_of_nat b # bs, r)) (octets k r))"

lemma hex_escape_shorter: "hex_escape r = Some (b, r') \<Longrightarrow> length r' < length r"
  by (induction r rule: hex_escape.induct) (auto split: if_splits option.splits)

lemma octets_shorter: "octets k r = Some (bs, r') \<Longrightarrow> length r' \<le> length r"
  by (induction k arbitrary: r bs) (fastforce split: option.splits dest: hex_escape_shorter)+

function decodeURIComponent :: "jstr \<Rightarrow> jstr option" where
  "decodeURIComponent s =
     (case s of
        [] \<Rightarrow> Some []
      | c # r \<Rightarrow>
          if c \<noteq> 37 then map_option ((#) c) (decodeURIComponent r)
          else case hex_escape s of
              None \<Rightarrow> None
            | Some (b, r) \<Rightarrow>
                if b < 0x80 then map_option ((#) b) (decodeURIComponent r)
                else (case octets (utf8_width (word_of_nat b) - 1) r of
                    None \<Rightarrow> None
                  | Some (bs, r) \<Rightarrow>
                      if utf8_item (word_of_nat b) bs = Scalar (length bs + 1)
                      then map_option ((@) (js_of [scalar_of (word_of_nat b # bs)])) (decodeURIComponent r)
                      else None))"
  by pat_completeness auto
termination
  by (relation "measure length") (auto dest!: hex_escape_shorter octets_shorter)

declare decodeURIComponent.simps [simp del]

text \<open>
  The fallback for malformed text: every unit goes into an array of bytes, a complete escape as its byte.
  A percent sign with fewer than two units after it stands for itself; a unit is stored modulo 256.
\<close>

function unescape_loop :: "jstr \<Rightarrow> bool \<Rightarrow> nat \<Rightarrow> byte list" where
  "unescape_loop s decodeSpaces index =
     (if length s \<le> index then []
      else let c = s ! index
        in if c = 43 \<and> decodeSpaces then 32 # unescape_loop s decodeSpaces (index + 1)
           else if c = 37 \<and> index + 2 < length s then
             (case unhexTable (s ! (index + 1)) of
                None \<Rightarrow> 37 # unescape_loop s decodeSpaces (index + 1)
              | Some hexHigh \<Rightarrow>
                  (case unhexTable (s ! (index + 2)) of
                     None \<Rightarrow> 37 # word_of_nat (s ! (index + 1)) # unescape_loop s decodeSpaces (index + 2)
                   | Some hexLow \<Rightarrow> word_of_nat (hexHigh * 16 + hexLow) # unescape_loop s decodeSpaces (index + 3)))
           else word_of_nat c # unescape_loop s decodeSpaces (index + 1))"
  by pat_completeness auto
termination
  by (relation "measure (\<lambda>(s, d, i). length s - i)") auto

declare unescape_loop.simps [simp del]

definition unescapeBuffer :: "codecs \<Rightarrow> jstr \<Rightarrow> bool \<Rightarrow> jstr option" where
  "unescapeBuffer lib s decodeSpaces =
     (case fst (decode lib (Some (unescape_loop s decodeSpaces 0)) None (td_new Utf8 False False)) of
        Ok out \<Rightarrow> Some (js_of out)
      | _ \<Rightarrow> None)"

definition qsUnescape :: "codecs \<Rightarrow> jstr \<Rightarrow> bool \<Rightarrow> jstr option" where
  "qsUnescape lib s decodeSpaces =
     (case decodeURIComponent s of Some t \<Rightarrow> Some t | None \<Rightarrow> unescapeBuffer lib s decodeSpaces)"

section \<open>Writing\<close>

text \<open>
  The values of the language: a finite number with its text and whether it is below 1e21; \<open>Q_Other\<close> stands for
  everything else, also an array inside an array.
\<close>

datatype qprim = Q_String jstr | Q_Number jstr bool | Q_BigInt jstr | Q_Bool bool | Q_Other

datatype qvalue = Q_Prim qprim | Q_Array "qprim list"

definition true_text :: jstr where
  "true_text = [116, 114, 117, 101]"

definition false_text :: jstr where
  "false_text = [102, 97, 108, 115, 101]"

definition stringifyPrimitive :: "qprim \<Rightarrow> jstr" where
  "stringifyPrimitive v =
     (case v of Q_String s \<Rightarrow> s | Q_Number t _ \<Rightarrow> t | Q_BigInt t \<Rightarrow> t | Q_Bool b \<Rightarrow> if b then true_text else false_text | Q_Other \<Rightarrow> [])"

definition encodeStringified :: "qprim \<Rightarrow> (jstr \<Rightarrow> jstr option) \<Rightarrow> jstr option" where
  "encodeStringified v enc =
     (case v of
        Q_String s \<Rightarrow> if s \<noteq> [] then enc s else Some []
      | Q_Number t small \<Rightarrow> if small then Some t else enc t
      | Q_BigInt t \<Rightarrow> Some t
      | Q_Bool b \<Rightarrow> Some (if b then true_text else false_text)
      | Q_Other \<Rightarrow> Some [])"

definition encodeStringifiedCustom :: "qprim \<Rightarrow> (jstr \<Rightarrow> jstr option) \<Rightarrow> jstr option" where
  "encodeStringifiedCustom v enc = enc (stringifyPrimitive v)"

definition convert :: "(jstr \<Rightarrow> jstr option) option \<Rightarrow> qprim \<Rightarrow> jstr option" where
  "convert custom v = (case custom of None \<Rightarrow> encodeStringified v qsEscape | Some f \<Rightarrow> encodeStringifiedCustom v f)"

definition or_default :: "jstr option \<Rightarrow> nat \<Rightarrow> jstr" where
  "or_default arg d = (case arg of Some (c # r) \<Rightarrow> c # r | _ \<Rightarrow> [d])"

text \<open>The loop over the elements of an array; \<open>first\<close> is the test for \<open>j\<close>.\<close>

primrec array_fields :: "jstr \<Rightarrow> jstr \<Rightarrow> (qprim \<Rightarrow> jstr option) \<Rightarrow> bool \<Rightarrow> qprim list \<Rightarrow> jstr \<Rightarrow> jstr option" where
  "array_fields sep ks conv first [] flds = Some flds"
| "array_fields sep ks conv first (v # vs) flds =
     Option.bind (conv v) (\<lambda>t. array_fields sep ks conv False vs (flds @ (if first then [] else sep) @ ks @ t))"

primrec fields_loop :: "jstr \<Rightarrow> jstr \<Rightarrow> (qprim \<Rightarrow> jstr option) \<Rightarrow> (jstr \<times> qvalue) list \<Rightarrow> jstr \<Rightarrow> jstr option" where
  "fields_loop sep eq conv [] flds = Some flds"
| "fields_loop sep eq conv (kv # obj) flds =
     (case kv of (k, v) \<Rightarrow>
        Option.bind (conv (Q_String k)) (\<lambda>ks.
          let ks = ks @ eq; before = (if flds \<noteq> [] then flds @ sep else flds)
          in case v of
               Q_Array [] \<Rightarrow> fields_loop sep eq conv obj flds
             | Q_Array vs \<Rightarrow> Option.bind (array_fields sep ks conv True vs before) (fields_loop sep eq conv obj)
             | Q_Prim p \<Rightarrow> Option.bind (conv p) (\<lambda>t. fields_loop sep eq conv obj (before @ ks @ t))))"

text \<open>\<open>obj\<close> is the list of the keys of an object with their values, \<open>None\<close> what is no object.\<close>

text \<open>\<open>custom\<close> is an encoder other than \<open>qsEscape\<close> itself, which the code treats like none.\<close>

definition qs_stringify :: "(jstr \<times> qvalue) list option \<Rightarrow> jstr option \<Rightarrow> jstr option \<Rightarrow> (jstr \<Rightarrow> jstr option) option \<Rightarrow> jstr option" where
  "qs_stringify obj sep eq custom =
     (case obj of
        None \<Rightarrow> Some []
      | Some kvs \<Rightarrow> fields_loop (or_default sep 38) (or_default eq 61) (convert custom) kvs [])"

section \<open>Reading\<close>

datatype qresult = R_String jstr | R_Array "jstr list"

type_synonym qobject = "jstr \<Rightarrow> qresult option"

definition decodeStr :: "codecs \<Rightarrow> (jstr \<Rightarrow> jstr option) option \<Rightarrow> jstr \<Rightarrow> jstr option" where
  "decodeStr lib custom s =
     (case (case custom of None \<Rightarrow> qsUnescape lib s True | Some f \<Rightarrow> f s) of
        Some t \<Rightarrow> Some t
      | None \<Rightarrow> qsUnescape lib s True)"

definition put_value :: "jstr \<Rightarrow> jstr \<Rightarrow> qobject \<Rightarrow> qobject" where
  "put_value key value obj =
     (case obj key of
        None \<Rightarrow> obj(key := Some (R_String value))
      | Some (R_Array vs) \<Rightarrow> obj(key := Some (R_Array (vs @ [value])))
      | Some (R_String v) \<Rightarrow> obj(key := Some (R_Array [v, value])))"

definition addKeyVal :: "codecs \<Rightarrow> (jstr \<Rightarrow> jstr option) option \<Rightarrow> jstr \<Rightarrow> jstr \<Rightarrow> bool \<Rightarrow> bool \<Rightarrow> qobject \<Rightarrow> qobject option" where
  "addKeyVal lib custom key value keyEncoded valEncoded obj =
     Option.bind (if key \<noteq> [] \<and> keyEncoded then decodeStr lib custom key else Some key) (\<lambda>key.
     Option.bind (if value \<noteq> [] \<and> valEncoded then decodeStr lib custom value else Some value) (\<lambda>value.
       Some (put_value key value obj)))"

record pstate =
  lastPos :: nat
  sepIdx :: nat
  eqIdx :: nat
  key :: jstr
  val :: jstr
  keyEncoded :: bool
  valEncoded :: bool
  encodeCheck :: nat
  pairs :: int
  obj :: qobject

definition js_slice :: "jstr \<Rightarrow> nat \<Rightarrow> nat \<Rightarrow> jstr" where
  "js_slice s a b = take (b - a) (drop a s)"

text \<open>What a step leads to: the next step, the result, or an error.\<close>

datatype pstep = Next pstate | Return qobject | Throw

record pargs =
  sepCodes :: jstr
  eqCodes :: jstr
  custom_decode :: "(jstr \<Rightarrow> jstr option) option"

definition plusChar :: "pargs \<Rightarrow> jstr" where
  "plusChar a = (if custom_decode a \<noteq> None then [37, 50, 48] else [32])"

text \<open>A separator is complete.\<close>

definition sep_step :: "codecs \<Rightarrow> pargs \<Rightarrow> jstr \<Rightarrow> nat \<Rightarrow> pstate \<Rightarrow> pstep" where
  "sep_step lib a qs i st =
     (let e = i + 1 - sepIdx st;
          skip = (eqIdx st < length (eqCodes a) \<and> \<not> lastPos st < e \<and> key st = [])
      in if skip then
           (if pairs st - 1 = 0 then Return (obj st)
            else Next (st\<lparr>pairs := pairs st - 1, lastPos := i + 1, sepIdx := 0, eqIdx := 0\<rparr>))
         else
           let k = (if eqIdx st < length (eqCodes a) \<and> lastPos st < e then key st @ js_slice qs (lastPos st) e else key st);
               v = (if \<not> eqIdx st < length (eqCodes a) \<and> lastPos st < e then val st @ js_slice qs (lastPos st) e else val st)
           in case addKeyVal lib (custom_decode a) k v (keyEncoded st) (valEncoded st) (obj st) of
                None \<Rightarrow> Throw
              | Some ob \<Rightarrow>
                  if pairs st - 1 = 0 then Return ob
                  else Next (st\<lparr>pairs := pairs st - 1, keyEncoded := custom_decode a \<noteq> None, valEncoded := custom_decode a \<noteq> None,
                         key := [], val := [], encodeCheck := 0, lastPos := i + 1, sepIdx := 0, eqIdx := 0, obj := ob\<rparr>))"

text \<open>A unit that is no separator is looked at for an escape or a plus sign of the value.\<close>

definition value_step :: "pargs \<Rightarrow> jstr \<Rightarrow> nat \<Rightarrow> pstate \<Rightarrow> pstate" where
  "value_step a qs i st =
     (let code = qs ! i
      in if code = 43 then
           st\<lparr>val := (if lastPos st < i then val st @ js_slice qs (lastPos st) i else val st) @ plusChar a, lastPos := i + 1\<rparr>
         else if \<not> valEncoded st then
           (if code = 37 then st\<lparr>encodeCheck := 1\<rparr>
            else if encodeCheck st > 0 then
              (if isHexTable code then st\<lparr>encodeCheck := encodeCheck st + 1, valEncoded := (encodeCheck st + 1 = 3)\<rparr>
               else st\<lparr>encodeCheck := 0\<rparr>)
            else st)
         else st)"

definition key_step :: "pargs \<Rightarrow> jstr \<Rightarrow> nat \<Rightarrow> pstate \<Rightarrow> pstate" where
  "key_step a qs i st =
     (let code = qs ! i
      in if eqIdx st < length (eqCodes a) then
           (if code = eqCodes a ! eqIdx st then
              let st = st\<lparr>eqIdx := eqIdx st + 1\<rparr>
              in if eqIdx st = length (eqCodes a) then
                   let e = i + 1 - eqIdx st
                   in st\<lparr>key := (if lastPos st < e then key st @ js_slice qs (lastPos st) e else key st), encodeCheck := 0, lastPos := i + 1\<rparr>
                 else st
            else
              let st = st\<lparr>eqIdx := 0\<rparr>
              in if \<not> keyEncoded st \<and> code = 37 then st\<lparr>encodeCheck := 1\<rparr>
                 else if \<not> keyEncoded st \<and> encodeCheck st > 0 \<and> isHexTable code then
                   st\<lparr>encodeCheck := encodeCheck st + 1, keyEncoded := (encodeCheck st + 1 = 3)\<rparr>
                 else
                   let st = (if \<not> keyEncoded st \<and> encodeCheck st > 0 then st\<lparr>encodeCheck := 0\<rparr> else st)
                   in if code = 43 then
                        st\<lparr>key := (if lastPos st < i then key st @ js_slice qs (lastPos st) i else key st) @ plusChar a, lastPos := i + 1\<rparr>
                      else value_step a qs i st)
         else value_step a qs i st)"

definition parse_step :: "codecs \<Rightarrow> pargs \<Rightarrow> jstr \<Rightarrow> nat \<Rightarrow> pstate \<Rightarrow> pstep" where
  "parse_step lib a qs i st =
     (if vec_get (sepCodes a) (sepIdx st) = Some (qs ! i) then
        let st = st\<lparr>sepIdx := sepIdx st + 1\<rparr>
        in if sepIdx st = length (sepCodes a) then sep_step lib a qs i st else Next st
      else Next (key_step a qs i (st\<lparr>sepIdx := 0\<rparr>)))"

fun parse_loop :: "codecs \<Rightarrow> pargs \<Rightarrow> jstr \<Rightarrow> nat list \<Rightarrow> pstate \<Rightarrow> pstep" where
  "parse_loop lib a qs [] st = Next st"
| "parse_loop lib a qs (i # is) st = (case parse_step lib a qs i st of Next st \<Rightarrow> parse_loop lib a qs is st | r \<Rightarrow> r)"

definition parse_end :: "codecs \<Rightarrow> pargs \<Rightarrow> jstr \<Rightarrow> pstate \<Rightarrow> qobject option" where
  "parse_end lib a qs st =
     (if \<not> lastPos st < length qs \<and> eqIdx st = 0 \<and> key st = [] then Some (obj st)
      else
        let rest = (if lastPos st < length qs then drop (lastPos st) qs else []);
            k = (if eqIdx st < length (eqCodes a) then key st @ rest else key st);
            v = (if \<not> eqIdx st < length (eqCodes a) \<and> sepIdx st < length (sepCodes a) then val st @ rest else val st)
        in addKeyVal lib (custom_decode a) k v (keyEncoded st) (valEncoded st) (obj st))"

text \<open>\<open>qs\<close> is \<open>None\<close> if it is no string; \<open>maxKeys\<close> is the option of that name if it is a number.\<close>

definition qs_parse :: "codecs \<Rightarrow> jstr option \<Rightarrow> jstr option \<Rightarrow> jstr option \<Rightarrow> int option \<Rightarrow> (jstr \<Rightarrow> jstr option) option \<Rightarrow> qobject option" where
  "qs_parse lib qs sep eq maxKeys custom =
     (case qs of
        Some (c # r) \<Rightarrow>
          let qs = c # r;
              a = \<lparr>sepCodes = or_default sep 38, eqCodes = or_default eq 61, custom_decode = custom\<rparr>;
              st = \<lparr>lastPos = 0, sepIdx = 0, eqIdx = 0, key = [], val = [], keyEncoded = custom \<noteq> None, valEncoded = custom \<noteq> None,
                encodeCheck = 0, pairs = (case maxKeys of None \<Rightarrow> 1000 | Some n \<Rightarrow> if n > 0 then n else -1), obj = \<lambda>_. None\<rparr>
          in (case parse_loop lib a qs [0..<length qs] st of
                Next st \<Rightarrow> parse_end lib a qs st
              | Return ob \<Rightarrow> Some ob
              | Throw \<Rightarrow> None)
      | _ \<Rightarrow> Some (\<lambda>_. None))"

end
