(* ===== verification/Querystring_Laws.thy ===== *)
theory Querystring_Laws
  imports Querystring
begin

text \<open>
  What \<open>querystring\<close> promises: escaping is the percent encoding of the UTF-8 text, unescaping undoes it, and
  \<open>parse\<close> gives back, key by key, what \<open>stringify\<close> wrote, up to \<open>maxKeys\<close> pairs.
\<close>

section \<open>Escaping\<close>

text \<open>The reference: unreserved characters stand for themselves, of all others every UTF-8 byte is escaped.\<close>

definition percent :: "byte list \<Rightarrow> jstr" where
  "percent bs = concat (map (\<lambda>b. hexTable (unat b)) bs)"

definition esc_char :: "nat \<Rightarrow> jstr" where
  "esc_char c = (if noEscape c then [c] else percent (utf8_encode c))"

definition esc :: "rstring \<Rightarrow> jstr" where
  "esc s = concat (map esc_char s)"

definition units :: "nat \<Rightarrow> jstr" where
  "units c = map unat (utf16_encode c)"

lemma js_of_simps [simp]: "js_of [] = []" "js_of (c # s) = units c @ js_of s"
  by (simp_all add: js_of_def units_def)

lemma esc_simps [simp]: "esc [] = []" "esc (c # s) = esc_char c @ esc s"
  by (simp_all add: esc_def)

lemma percent_simps [simp]: "percent [] = []" "percent (b # bs) = hexTable (unat b) @ percent bs"
  by (simp_all add: percent_def)

lemma noEscape_less: "noEscape c \<Longrightarrow> c < 0x80"
  by (auto simp: noEscape_def)

lemma noEscape_plain: "noEscape c \<Longrightarrow> c \<noteq> 37 \<and> c \<noteq> 38 \<and> c \<noteq> 43 \<and> c \<noteq> 61"
  by (auto simp: noEscape_def)

lemma units_small: "c < 0x10000 \<Longrightarrow> units c = [c]"
  by (simp add: units_def utf16_encode_def unat_u16_of_nat)

lemma units_pair:
  assumes "0x10000 \<le> c" "c < 0x110000"
  shows "units c = [0xD800 + (c - 0x10000) div 1024, 0xDC00 + (c - 0x10000) mod 1024]"
    and "(c - 0x10000) div 1024 < 1024"
proof -
  let ?d = "c - 0x10000"
  show d: "?d div 1024 < 1024" using assms by auto
  have "?d mod 1024 < 1024" by simp
  with d show "units c = [0xD800 + ?d div 1024, 0xDC00 + ?d mod 1024]"
    using assms by (simp add: units_def utf16_encode_def unat_u16_of_nat del: of_nat_add)
qed

lemma surrogate_bits:
  "x < 1024 \<Longrightarrow> (0xD800 + x) mod 1024 = (x::nat)" "y < 1024 \<Longrightarrow> (0xDC00 + y) mod 1024 = (y::nat)"
  using mod_mult_self4 [of 1024 54 x] mod_mult_self4 [of 1024 55 y] by simp_all

lemma encodeStr_pair:
  assumes "x < 1024" "y < 1024" "c = 0x10000 + x * 1024 + y"
  shows "encodeStr ((0xD800 + x) # (0xDC00 + y) # r) = map_option ((@) (percent (utf8_encode c))) (encodeStr r)"
proof -
  have "c < 0x110000" "0x10000 \<le> c" using assms by auto
  moreover from this(1) have "c div 262144 < 5" by (rule scalar_ranges)
  ultimately have "percent (utf8_encode c) = hexTable (0xF0 + c div 262144) @ hexTable (0x80 + c div 4096 mod 64)
      @ hexTable (0x80 + c div 64 mod 64) @ hexTable (0x80 + c mod 64)"
    by (simp add: utf8_encode_def unat_byte_of_nat del: of_nat_add)
  then show ?thesis
    using assms by (simp add: surrogate_bits Let_def fun_eq_iff cong: option.map_cong)
qed

lemma encodeStr_char:
  assumes "is_scalar c"
  shows "encodeStr (units c @ r) = map_option ((@) (esc_char c)) (encodeStr r)"
proof -
  consider "c < 0x80" | "0x80 \<le> c" "c < 0x800" | "0x800 \<le> c" "c < 0x10000" | "0x10000 \<le> c" "c < 0x110000"
    using assms by (force simp: is_scalar_def)
  then show ?thesis
  proof cases
    case 1
    then show ?thesis
      by (simp add: units_small esc_char_def utf8_encode_def unat_byte_of_nat fun_eq_iff cong: option.map_cong)
  next
    case 2
    then have "\<not> noEscape c" using noEscape_less [of c] by auto
    with 2 show ?thesis
      by (simp add: units_small esc_char_def utf8_encode_def unat_byte_of_nat del: of_nat_add cong: option.map_cong)
  next
    case 3
    then have "\<not> noEscape c" "c div 4096 < 16" using noEscape_less [of c] by auto
    moreover have "c < 0xD800 \<or> 0xE000 \<le> c" using assms by (auto simp: is_scalar_def)
    ultimately show ?thesis
      using 3 by (simp add: units_small esc_char_def utf8_encode_def unat_byte_of_nat del: of_nat_add cong: option.map_cong)
  next
    case 4
    then have "\<not> noEscape c" using noEscape_less [of c] by auto
    with 4 units_pair [OF 4] show ?thesis
      using encodeStr_pair [of "(c - 0x10000) div 1024" "(c - 0x10000) mod 1024" c r]
      by (simp add: esc_char_def del: encodeStr.simps)
  qed
qed

lemma encodeStr_js_of: "list_all is_scalar s \<Longrightarrow> encodeStr (js_of s) = Some (esc s)"
  by (induction s) (simp_all add: encodeStr_char)

section \<open>Unescaping\<close>

lemma unhex_digit: "d < 16 \<Longrightarrow> unhexTable (hex_digit d) = Some d"
  by (auto simp: unhexTable_def hex_digit_def)

lemma hex_escape_table: "b < 256 \<Longrightarrow> hex_escape (hexTable b @ r) = Some (b, r)"
  by (simp add: hexTable_def unhex_digit)

lemma decode_table:
  assumes "b < 256"
  shows "decodeURIComponent (hexTable b @ r) =
    (if b < 0x80 then map_option ((#) b) (decodeURIComponent r)
     else case octets (utf8_width (word_of_nat b) - 1) r of
         None \<Rightarrow> None
       | Some (bs, r) \<Rightarrow>
           if utf8_item (word_of_nat b) bs = Scalar (length bs + 1)
           then map_option ((@) (js_of [scalar_of (word_of_nat b # bs)])) (decodeURIComponent r)
           else None)"
  using assms by (subst decodeURIComponent.simps) (simp add: hexTable_def unhex_digit)

lemma octets_percent: "octets (length bs) (percent bs @ r) = Some (bs, r)"
  by (induction bs) (simp_all add: hex_escape_table)

lemma utf8_item_width: "utf8_item b bs = Scalar n \<Longrightarrow> n = utf8_width b"
  using utf8_rest_len(1) [of "utf8_width b" 2] utf8_width_cases [of b]
  by (cases bs) (fastforce simp: utf8_item_def Let_def split: if_splits)+

lemma decode_escaped:
  assumes "is_scalar c" "0x80 \<le> c"
  shows "decodeURIComponent (percent (utf8_encode c) @ r) = map_option ((@) (units c)) (decodeURIComponent r)"
proof -
  obtain b bs where e: "utf8_encode c = b # bs" "utf8_item b bs = Scalar (Suc (length bs))" "scalar_of (b # bs) = c"
    using utf8_encode_item [OF assms(1), of "[]"] by auto
  have "\<not> unat b < 0x80"
  proof
    assume "unat b < 0x80"
    then have "utf8_item b bs = Scalar 1 \<and> scalar_of [b] = unat b" by (rule utf8_item_1)
    with e assms(2) \<open>unat b < 0x80\<close> show False by simp
  qed
  moreover have "utf8_width b - 1 = length bs" using utf8_item_width [OF e(2)] by simp
  ultimately show ?thesis
    using e by (simp add: decode_table octets_percent)
qed

lemma decode_char:
  assumes "is_scalar c"
  shows "decodeURIComponent (esc_char c @ r) = map_option ((@) (units c)) (decodeURIComponent r)"
proof (cases "noEscape c")
  case True
  then show ?thesis
    using noEscape_less [OF True] noEscape_plain [OF True]
    by (subst decodeURIComponent.simps) (simp add: esc_char_def units_small fun_eq_iff cong: option.map_cong)
next
  case esc: False
  show ?thesis
  proof (cases "c < 0x80")
    case True
    then have "esc_char c = hexTable c" using esc by (simp add: esc_char_def utf8_encode_def unat_byte_of_nat)
    with True show ?thesis by (simp add: decode_table units_small fun_eq_iff cong: option.map_cong)
  next
    case False
    with esc show ?thesis by (simp add: esc_char_def decode_escaped assms)
  qed
qed

lemma percent_unreserved: "c \<in> set (percent bs) \<Longrightarrow> noEscape c \<or> c = 37"
proof (induction bs)
  case (Cons b bs)
  have "d < 16 \<Longrightarrow> noEscape (hex_digit d)" for d by (auto simp: hex_digit_def noEscape_def)
  moreover have "unat b div 16 < 16" "unat b mod 16 < 16" using less_mult_imp_div_less [of "unat b" 16 16] by simp_all
  ultimately show ?case using Cons by (auto simp: hexTable_def)
qed simp

lemma esc_unreserved: "\<forall>c \<in> set (esc s). noEscape c \<or> c = 37"
  by (induction s) (auto simp: esc_char_def dest: percent_unreserved)

lemma decode_esc: "list_all is_scalar s \<Longrightarrow> decodeURIComponent (esc s) = Some (js_of s)"
proof (induction s)
  case Nil
  then show ?case by (simp add: decodeURIComponent.simps)
qed (simp add: decode_char)

lemma decodeStr_esc: "list_all is_scalar s \<Longrightarrow> decodeStr lib None (esc s) = Some (js_of s)"
  by (simp add: decodeStr_def qsUnescape_def decode_esc)

section \<open>The reference reader\<close>

text \<open>
  The text is cut at the ampersands and each part at its first equals sign; plus signs are spaces. Whether a part is
  decoded depends on flags that the scanner keeps about the escapes it has seen.
\<close>

fun segments :: "jstr \<Rightarrow> jstr list" where
  "segments [] = [[]]"
| "segments (c # r) = (if c = 38 then [] # segments r else (c # hd (segments r)) # tl (segments r))"

definition plus :: "jstr \<Rightarrow> jstr" where
  "plus t = map (\<lambda>c. if c = 43 then 32 else c) t"

definition seg_key :: "jstr \<Rightarrow> jstr" where
  "seg_key s = takeWhile (\<lambda>c. c \<noteq> 61) s"

definition seg_val :: "jstr \<Rightarrow> jstr" where
  "seg_val s = tl (dropWhile (\<lambda>c. c \<noteq> 61) s)"

definition vflag :: "bool \<times> bool \<times> nat \<Rightarrow> nat \<Rightarrow> bool \<times> bool \<times> nat" where
  "vflag f c = (case f of (ke, ve, n) \<Rightarrow>
     if c = 43 \<or> ve then (ke, ve, n)
     else if c = 37 then (ke, ve, 1)
     else if n > 0 then (if isHexTable c then (ke, n + 1 = 3, n + 1) else (ke, ve, 0))
     else (ke, ve, n))"

definition kflag :: "bool \<times> bool \<times> nat \<Rightarrow> nat \<Rightarrow> bool \<times> bool \<times> nat" where
  "kflag f c = (case f of (ke, ve, n) \<Rightarrow>
     if \<not> ke \<and> c = 37 then (ke, ve, 1)
     else if \<not> ke \<and> n > 0 \<and> isHexTable c then (n + 1 = 3, ve, n + 1)
     else vflag (ke, ve, if \<not> ke \<and> n > 0 then 0 else n) c)"

definition kflags :: "jstr \<Rightarrow> bool \<times> bool \<times> nat" where
  "kflags s = foldl kflag (False, False, 0) s"

definition eqflag :: "bool \<times> bool \<times> nat \<Rightarrow> bool \<times> bool \<times> nat" where
  "eqflag f = (fst f, fst (snd f), 0)"

definition seg_flags :: "jstr \<Rightarrow> bool \<times> bool \<times> nat" where
  "seg_flags s = (if 61 \<in> set s then foldl vflag (eqflag (kflags (seg_key s))) (seg_val s) else kflags s)"

definition add_segment :: "codecs \<Rightarrow> jstr \<Rightarrow> qobject \<Rightarrow> qobject option" where
  "add_segment lib s ob = addKeyVal lib None (plus (seg_key s)) (plus (seg_val s)) (fst (seg_flags s)) (fst (snd (seg_flags s))) ob"

primrec add_segments :: "codecs \<Rightarrow> jstr list \<Rightarrow> qobject \<Rightarrow> qobject option" where
  "add_segments lib [] ob = Some ob"
| "add_segments lib (s # ss) ob = (if s = [] then add_segments lib ss ob else Option.bind (add_segment lib s ob) (add_segments lib ss))"

definition limit :: "int \<Rightarrow> 'a list \<Rightarrow> 'a list" where
  "limit n ps = (if n > 0 then take (nat n) ps else ps)"

definition max_pairs :: "int option \<Rightarrow> int" where
  "max_pairs m = (case m of None \<Rightarrow> 1000 | Some n \<Rightarrow> if n > 0 then n else -1)"

lemma limit_Cons: "n \<noteq> 0 \<Longrightarrow> limit n (p # ps) = p # (if n = 1 then [] else limit (n - 1) ps)"
  by (auto simp: limit_def take_Cons' nat_diff_distrib)

lemma plus_simps [simp]: "plus [] = []" "plus (c # t) = (if c = 43 then 32 else c) # plus t" "plus (a @ b) = plus a @ plus b"
    "plus t = [] \<longleftrightarrow> t = []" "[] = plus t \<longleftrightarrow> t = []"
  by (auto simp: plus_def)

lemma segments_nonempty [simp]: "segments t \<noteq> []"
  by (cases t) simp_all

lemma segments_plain: "38 \<notin> set s \<Longrightarrow> segments s = [s]"
  by (induction s) auto

lemma segments_cut: "38 \<notin> set s \<Longrightarrow> segments (s @ 38 # t) = s # segments t"
  by (induction s) auto

lemma seg_cut:
  assumes "61 \<notin> set s"
  shows "seg_key (s @ 61 # t) = s" "seg_val (s @ 61 # t) = t" "seg_key s = s" "seg_val s = []"
  using assms by (induction s) (simp_all add: seg_key_def seg_val_def)

lemma seg_snoc:
  "61 \<notin> set s \<Longrightarrow> seg_key s = s" "61 \<notin> set s \<Longrightarrow> seg_val s = []"
  "61 \<in> set s \<Longrightarrow> seg_key (s @ [c]) = seg_key s" "61 \<in> set s \<Longrightarrow> seg_val (s @ [c]) = seg_val s @ [c]"
proof -
  show "61 \<notin> set s \<Longrightarrow> seg_key s = s" "61 \<notin> set s \<Longrightarrow> seg_val s = []" by (simp_all add: seg_cut)
  show "61 \<in> set s \<Longrightarrow> seg_key (s @ [c]) = seg_key s" by (simp add: seg_key_def)
  show "61 \<in> set s \<Longrightarrow> seg_val (s @ [c]) = seg_val s @ [c]"
    by (auto simp: seg_val_def dropWhile_append1 tl_append2 dropWhile_eq_Nil_conv)
qed

lemma seg_flags_snoc:
  "61 \<notin> set s \<Longrightarrow> c \<noteq> 61 \<Longrightarrow> seg_flags (s @ [c]) = kflag (seg_flags s) c"
  "61 \<notin> set s \<Longrightarrow> seg_flags (s @ [61]) = eqflag (seg_flags s)"
  "61 \<in> set s \<Longrightarrow> seg_flags (s @ [c]) = vflag (seg_flags s) c"
  by (simp_all add: seg_flags_def kflags_def seg_snoc seg_cut)

section \<open>Scanning a segment\<close>

definition flags :: "pstate \<Rightarrow> bool \<times> bool \<times> nat" where
  "flags st = (keyEncoded st, valEncoded st, encodeCheck st)"

definition dargs :: pargs where
  "dargs = \<lparr>sepCodes = [38], eqCodes = [61], custom_decode = None\<rparr>"

definition fresh :: "nat \<Rightarrow> int \<Rightarrow> qobject \<Rightarrow> pstate" where
  "fresh i n ob = \<lparr>lastPos = i, sepIdx = 0, eqIdx = 0, key = [], val = [], keyEncoded = False, valEncoded = False,
     encodeCheck = 0, pairs = n, obj = ob\<rparr>"

text \<open>The state of the scanner when it has read the part \<open>s\<close> of a segment and stands at \<open>i\<close>.\<close>

definition in_segment :: "jstr \<Rightarrow> nat \<Rightarrow> jstr \<Rightarrow> int \<Rightarrow> qobject \<Rightarrow> pstate \<Rightarrow> bool" where
  "in_segment qs i s n ob st \<longleftrightarrow>
     sepIdx st = 0 \<and> lastPos st \<le> i \<and> pairs st = n \<and> obj st = ob \<and> flags st = seg_flags s
     \<and> eqIdx st = (if 61 \<in> set s then 1 else 0)
     \<and> (if 61 \<in> set s then key st = plus (seg_key s) \<and> val st @ js_slice qs (lastPos st) i = plus (seg_val s)
        else key st @ js_slice qs (lastPos st) i = plus s \<and> val st = [])"

lemma dargs_simps [simp]: "sepCodes dargs = [38]" "eqCodes dargs = [61]" "custom_decode dargs = None"
  by (simp_all add: dargs_def)

lemma js_slice_same [simp]: "js_slice qs i i = []"
  by (simp add: js_slice_def)

lemma append_slice [simp]: "(if l < i then k @ js_slice qs l i else k) = k @ js_slice qs l i"
  by (simp add: js_slice_def)

lemma js_slice_Suc: "l \<le> i \<Longrightarrow> i < length qs \<Longrightarrow> js_slice qs l (Suc i) = js_slice qs l i @ [qs ! i]"
  by (simp add: js_slice_def Suc_diff_le take_Suc_conv_app_nth)

lemma js_slice_empty: "i \<le> length qs \<Longrightarrow> js_slice qs l i = [] \<longleftrightarrow> i \<le> l"
  by (auto simp: js_slice_def)

lemma in_segment_fresh: "in_segment qs i [] n ob (fresh i n ob)"
  by (simp add: in_segment_def fresh_def flags_def seg_flags_def kflags_def)

lemma no_sep_step: "sepIdx st = 0 \<Longrightarrow> qs ! i \<noteq> 38 \<Longrightarrow> parse_step lib dargs qs i st = Next (key_step dargs qs i st)"
proof -
  assume a: "sepIdx st = 0" "qs ! i \<noteq> 38"
  then have same: "st\<lparr>sepIdx := 0\<rparr> = st" by simp
  from a show ?thesis by (simp add: parse_step_def vec_get_def same)
qed

lemma value_char:
  assumes st: "in_segment qs i s n ob st" "61 \<in> set s" and i: "i < length qs"
  shows "in_segment qs (Suc i) (s @ [qs ! i]) n ob (value_step dargs qs i st)"
proof (cases "qs ! i = 43")
  case True
  have "value_step dargs qs i st = st\<lparr>val := val st @ js_slice qs (lastPos st) i @ [32], lastPos := Suc i\<rparr>"
    using True st js_slice_empty [of i qs "lastPos st"] i by (simp add: value_step_def in_segment_def plusChar_def)
  moreover have "vflag (seg_flags s) 43 = seg_flags s" by (cases "seg_flags s") (simp add: vflag_def)
  ultimately show ?thesis
    using st True seg_snoc(3,4) [OF st(2)] seg_flags_snoc(3) [OF st(2)] by (simp add: in_segment_def flags_def)
next
  case False
  have "flags (value_step dargs qs i st) = vflag (flags st) (qs ! i)"
    using False by (simp add: value_step_def vflag_def flags_def Let_def)
  moreover have "val (value_step dargs qs i st) = val st" "key (value_step dargs qs i st) = key st" "lastPos (value_step dargs qs i st) = lastPos st"
      "pairs (value_step dargs qs i st) = pairs st" "obj (value_step dargs qs i st) = obj st" "eqIdx (value_step dargs qs i st) = eqIdx st"
      "sepIdx (value_step dargs qs i st) = sepIdx st"
    using False by (simp_all add: value_step_def Let_def)
  ultimately show ?thesis
    using st i False seg_snoc(3,4) [OF st(2)] seg_flags_snoc(3) [OF st(2)] by (simp add: in_segment_def js_slice_Suc)
qed

lemma equals_sign:
  assumes st: "in_segment qs i s n ob st" "61 \<notin> set s" and i: "qs ! i = 61"
  shows "in_segment qs (Suc i) (s @ [61]) n ob (key_step dargs qs i st)"
proof -
  have "eqIdx st = 0" using st by (simp add: in_segment_def)
  then have "key_step dargs qs i st = st\<lparr>eqIdx := 1, key := key st @ js_slice qs (lastPos st) i, encodeCheck := 0, lastPos := Suc i\<rparr>"
    using i by (simp add: key_step_def Let_def cong: if_cong split del: if_split)
  moreover have "flags (st\<lparr>eqIdx := 1, key := k, encodeCheck := 0, lastPos := j\<rparr>) = eqflag (flags st)" for k j
    by (simp add: flags_def eqflag_def)
  ultimately show ?thesis
    using st seg_flags_snoc(2) [OF st(2)] seg_cut(1,2) [OF st(2), of "[]"] by (simp add: in_segment_def)
qed

lemma key_char:
  assumes st: "in_segment qs i s n ob st" "61 \<notin> set s" and i: "i < length qs" "qs ! i \<noteq> 61"
  shows "in_segment qs (Suc i) (s @ [qs ! i]) n ob (key_step dargs qs i st)"
proof -
  let ?r = "key_step dargs qs i st"
  have eq: "eqIdx st = 0" using st by (simp add: in_segment_def)
  have f: "flags ?r = kflag (flags st) (qs ! i)"
    using i(2) eq by (simp add: key_step_def value_step_def kflag_def vflag_def flags_def isHexTable_def Let_def)
  have same: "eqIdx ?r = 0" "sepIdx ?r = sepIdx st" "pairs ?r = pairs st" "obj ?r = obj st" "val ?r = val st"
    using i(2) eq by (simp_all add: key_step_def value_step_def Let_def)
  have "if qs ! i = 43 then key ?r = key st @ js_slice qs (lastPos st) i @ [32] \<and> lastPos ?r = Suc i
      else key ?r = key st \<and> lastPos ?r = lastPos st"
    using i eq js_slice_empty [of i qs "lastPos st"]
    by (simp add: key_step_def value_step_def plusChar_def isHexTable_def Let_def)
  then show ?thesis
    using st i same f seg_flags_snoc(1) [OF st(2) i(2)]
    by (cases "qs ! i = 43") (simp_all add: in_segment_def js_slice_Suc)
qed

lemma upt_split: "[i..<i + a + 1 + b] = [i..<i + a] @ (i + a) # [i + a + 1..<i + a + 1 + b]"
proof -
  have "[i..<i + a + (1 + b)] = [i..<i + a] @ [i + a..<i + a + (1 + b)]" by (rule upt_add_eq_append) simp
  then show ?thesis by (simp add: upt_conv_Cons add.assoc del: upt_Suc)
qed

lemma parse_loop_append:
  "parse_loop lib a qs (xs @ ys) st = (case parse_loop lib a qs xs st of Next st \<Rightarrow> parse_loop lib a qs ys st | r \<Rightarrow> r)"
  by (induction xs arbitrary: st) (simp_all split: pstep.splits)

lemma segment_loop:
  assumes "38 \<notin> set s" "qs = pre @ s @ post"
  shows "\<exists>st. parse_loop lib dargs qs [length pre..<length pre + length s] (fresh (length pre) n ob) = Next st
    \<and> in_segment qs (length pre + length s) s n ob st"
  using assms
proof (induction s arbitrary: post rule: rev_induct)
  case Nil
  then show ?case by (simp add: in_segment_fresh)
next
  case (snoc c s)
  let ?i = "length pre + length s"
  from snoc.IH [of "c # post"] snoc.prems obtain st where st: "in_segment qs ?i s n ob st"
      "parse_loop lib dargs qs [length pre..<?i] (fresh (length pre) n ob) = Next st" by auto
  have c: "qs ! ?i = c" "?i < length qs" "c \<noteq> 38" using snoc.prems by (auto simp: nth_append)
  have step: "parse_step lib dargs qs ?i st = Next (key_step dargs qs ?i st)"
    using st(1) c by (intro no_sep_step) (simp_all add: in_segment_def)
  have "in_segment qs (Suc ?i) (s @ [c]) n ob (key_step dargs qs ?i st)"
  proof (cases "61 \<in> set s")
    case True
    then have "key_step dargs qs ?i st = value_step dargs qs ?i st" using st(1) by (simp add: key_step_def in_segment_def)
    with value_char [OF st(1) True c(2)] c(1) show ?thesis by simp
  next
    case False
    with equals_sign [OF st(1) False] key_char [OF st(1) False c(2)] c(1) show ?thesis by (cases "c = 61") simp_all
  qed
  with st(2) step show ?case by (simp add: parse_loop_append)
qed

section \<open>The end of a segment\<close>

lemma part_sep:
  assumes st: "in_segment qs i s n ob st" and i: "i < length qs" "qs ! i = 38"
  shows "parse_step lib dargs qs i st =
    (case (if s = [] then Some ob else add_segment lib s ob) of
       None \<Rightarrow> Throw
     | Some ob' \<Rightarrow> if n = 1 then Return ob' else Next (fresh (Suc i) (n - 1) ob'))"
proof -
  have sl: "js_slice qs (lastPos st) i = [] \<longleftrightarrow> \<not> lastPos st < i" using js_slice_empty [of i qs "lastPos st"] i by auto
  have p: "parse_step lib dargs qs i st = sep_step lib dargs qs i (st\<lparr>sepIdx := 1\<rparr>)"
    using st i by (simp add: parse_step_def vec_get_def in_segment_def)
  have fl: "seg_flags s = (keyEncoded st, valEncoded st, encodeCheck st)" and ob: "obj st = ob" "pairs st = n"
    using st by (simp_all add: in_segment_def flags_def)
  show ?thesis
  proof (cases "61 \<in> set s")
    case True
    then have "s \<noteq> []" "eqIdx st = 1" "plus (seg_key s) = key st" "plus (seg_val s) = val st @ js_slice qs (lastPos st) i"
      using st by (auto simp: in_segment_def)
    then show ?thesis
      unfolding p add_segment_def fl ob(1) [symmetric] ob(2) [symmetric]
      by (cases st) (simp add: sep_step_def Let_def fresh_def cong: if_cong option.case_cong split del: if_split)
  next
    case False
    then have k: "eqIdx st = 0" "plus s = key st @ js_slice qs (lastPos st) i" "val st = []" using st by (simp_all add: in_segment_def)
    have sk: "(\<not> lastPos st < i \<and> key st = []) \<longleftrightarrow> s = []" using k(2) sl plus_simps(4) [of s] by auto
    have "s = [] \<Longrightarrow> \<not> keyEncoded st \<and> \<not> valEncoded st \<and> encodeCheck st = 0"
      using fl by (simp add: seg_flags_def kflags_def)
    with k sk seg_cut(3,4) [OF False] show ?thesis
      unfolding p add_segment_def fl ob(1) [symmetric] ob(2) [symmetric]
      by (cases st; cases "s = []"; cases "lastPos st < i") (simp_all add: sep_step_def Let_def fresh_def cong: if_cong option.case_cong split del: if_split)
  qed
qed

lemma part_end:
  assumes st: "in_segment qs (length qs) s n ob st"
  shows "parse_end lib dargs qs st = (if s = [] then Some ob else add_segment lib s ob)"
proof -
  have r: "(if lastPos st < length qs then drop (lastPos st) qs else []) = js_slice qs (lastPos st) (length qs)"
    by (simp add: js_slice_def)
  have sl: "js_slice qs (lastPos st) (length qs) = [] \<longleftrightarrow> \<not> lastPos st < length qs"
    using js_slice_empty [of "length qs" qs "lastPos st"] by auto
  have fl: "seg_flags s = (keyEncoded st, valEncoded st, encodeCheck st)" "obj st = ob" "sepIdx st = 0"
    using st by (simp_all add: in_segment_def flags_def)
  show ?thesis
  proof (cases "61 \<in> set s")
    case True
    then have "s \<noteq> []" "eqIdx st = 1" "plus (seg_key s) = key st" "plus (seg_val s) = val st @ js_slice qs (lastPos st) (length qs)"
      using st by (auto simp: in_segment_def)
    then show ?thesis unfolding parse_end_def Let_def r add_segment_def fl by (simp add: fl)
  next
    case False
    then have k: "eqIdx st = 0" "plus s = key st @ js_slice qs (lastPos st) (length qs)" "val st = []" using st by (simp_all add: in_segment_def)
    have "(\<not> lastPos st < length qs \<and> key st = []) \<longleftrightarrow> s = []" using k(2) sl plus_simps(4) [of s] by auto
    with k seg_cut(3,4) [OF False] show ?thesis unfolding parse_end_def Let_def r add_segment_def fl by (simp add: fl)
  qed
qed

text \<open>What a loop with its end returns.\<close>

definition run :: "codecs \<Rightarrow> pargs \<Rightarrow> jstr \<Rightarrow> nat list \<Rightarrow> pstate \<Rightarrow> qobject option" where
  "run lib a qs js st = (case parse_loop lib a qs js st of Next st \<Rightarrow> parse_end lib a qs st | Return ob \<Rightarrow> Some ob | Throw \<Rightarrow> None)"

lemma first_segment:
  obtains (last_one) "38 \<notin> set t" "segments t = [t]"
    | (more) s r where "t = s @ 38 # r" "38 \<notin> set s" "segments t = s # segments r"
proof (cases "38 \<in> set t")
  case True
  then obtain s r where "t = s @ 38 # r" "38 \<notin> set s" by (meson split_list_first)
  with segments_cut more show thesis by blast
qed (use segments_plain last_one in blast)

lemma run_segments:
  assumes "qs = pre @ t" "n \<noteq> 0"
  shows "run lib dargs qs [length pre..<length qs] (fresh (length pre) n ob) = add_segments lib (limit n (segments t)) ob"
  using assms
proof (induction "length t" arbitrary: t pre n ob rule: less_induct)
  case less
  show ?case
  proof (cases t rule: first_segment)
    case last_one
    obtain st where "parse_loop lib dargs qs [length pre..<length qs] (fresh (length pre) n ob) = Next st" "in_segment qs (length qs) t n ob st"
      using segment_loop [OF last_one(1), of qs pre "[]" lib n ob] less.prems by auto
    with part_end [of qs t n ob st lib] limit_Cons [OF less.prems(2), of t "[]"] last_one(2) show ?thesis
      by (cases "add_segment lib t ob") (simp_all add: run_def limit_def)
  next
    case (more s r)
    let ?i = "length pre + length s"
    have len: "length qs = ?i + 1 + length r" and at: "qs ! ?i = 38" "?i < length qs"
      using more(1) less.prems by (simp_all add: nth_append)
    obtain st where st: "parse_loop lib dargs qs [length pre..<?i] (fresh (length pre) n ob) = Next st" "in_segment qs ?i s n ob st"
      using segment_loop [OF more(2), of qs pre "38 # r" lib n ob] more(1) less.prems by auto
    have "[length pre..<length qs] = [length pre..<?i] @ ?i # [Suc ?i..<length qs]"
      using upt_split [of "length pre" "length s" "length r"] len by simp
    then have rn: "run lib dargs qs [length pre..<length qs] (fresh (length pre) n ob) =
        (case (if s = [] then Some ob else add_segment lib s ob) of None \<Rightarrow> None
         | Some ob' \<Rightarrow> if n = 1 then Some ob' else run lib dargs qs [Suc ?i..<length qs] (fresh (Suc ?i) (n - 1) ob'))"
      using part_sep [OF st(2) at(2,1), of lib] st(1)
      by (simp add: run_def parse_loop_append del: upt_Suc split: option.splits)
    have "length (pre @ s @ [38]) = Suc ?i" by simp
    then have "n \<noteq> 1 \<Longrightarrow> run lib dargs qs [Suc ?i..<length qs] (fresh (Suc ?i) (n - 1) ob') = add_segments lib (limit (n - 1) (segments r)) ob'" for ob'
      using less.hyps [of r "pre @ s @ [38]" "n - 1" ob'] more(1) less.prems by simp
    with rn more(3) limit_Cons [OF less.prems(2), of s "segments r"] show ?thesis
      by (cases "n = 1"; cases "s = []"; cases "add_segment lib s ob") simp_all
  qed
qed

lemma parse_run:
  "t \<noteq> [] \<Longrightarrow> qs_parse lib (Some t) None None m None = run lib dargs t [0..<length t] (fresh 0 (max_pairs m) (\<lambda>_. None))"
  by (cases t) (simp_all add: qs_parse_def run_def dargs_def or_default_def fresh_def max_pairs_def Let_def del: upt_Suc)

lemma parse_segments:
  "qs_parse lib (Some t) None None m None = add_segments lib (limit (max_pairs m) (segments t)) (\<lambda>_. None)"
proof (cases "t = []")
  case True
  then show ?thesis by (simp add: qs_parse_def limit_def take_Cons' max_pairs_def split: option.splits)
next
  case False
  have "max_pairs m \<noteq> 0" by (auto simp: max_pairs_def split: option.splits)
  with run_segments [of t "[]" t "max_pairs m" lib "\<lambda>_. None"] False show ?thesis by (simp add: parse_run)
qed

section \<open>Flags after escaped text\<close>

lemma isHex_digit: "d < 16 \<Longrightarrow> isHexTable (hex_digit d) \<and> hex_digit d \<notin> {37, 38, 43, 61}"
  by (auto simp: isHexTable_def hex_digit_def)

lemma hexTable_safe: "b < 256 \<Longrightarrow> \<forall>c \<in> set (hexTable b). c \<noteq> 38 \<and> c \<noteq> 43 \<and> c \<noteq> 61"
  using isHex_digit [of "b div 16"] isHex_digit [of "b mod 16"] by (auto simp: hexTable_def)

lemma percent_safe: "\<forall>c \<in> set (percent bs). c \<noteq> 38 \<and> c \<noteq> 43 \<and> c \<noteq> 61"
proof (induction bs)
  case (Cons b bs)
  then show ?case using hexTable_safe [OF unat_byte_less, of b] by auto
qed simp

lemma esc_safe: "\<forall>c \<in> set (esc s). c \<noteq> 38 \<and> c \<noteq> 43 \<and> c \<noteq> 61"
  by (induction s) (use percent_safe noEscape_plain in \<open>auto simp: esc_char_def\<close>)

text \<open>Between two escapes a count is running only once the flag is set.\<close>

definition kidle :: "bool \<times> bool \<times> nat \<Rightarrow> bool" where
  "kidle f = (case f of (ke, ve, n) \<Rightarrow> ke \<or> n = 0)"

definition vidle :: "bool \<times> bool \<times> nat \<Rightarrow> bool" where
  "vidle f = (case f of (ke, ve, n) \<Rightarrow> ve \<or> n = 0)"

lemma kflag_hex: "b < 256 \<Longrightarrow> fst (foldl kflag f (hexTable b))"
  using isHex_digit [of "b div 16"] isHex_digit [of "b mod 16"]
  by (cases f) (auto simp: hexTable_def kflag_def vflag_def)

lemma kflag_stays: "fst f \<Longrightarrow> fst (kflag f c)"
  by (auto simp: kflag_def vflag_def split: prod.splits)

lemma kflag_idle: "noEscape c \<Longrightarrow> kidle f \<Longrightarrow> kidle (kflag f c)"
  using noEscape_plain [of c] by (cases f) (auto simp: kidle_def kflag_def vflag_def)

lemma vflag_hex: "b < 256 \<Longrightarrow> fst (snd (foldl vflag f (hexTable b)))"
  using isHex_digit [of "b div 16"] isHex_digit [of "b mod 16"]
  by (cases f) (auto simp: hexTable_def vflag_def)

lemma vflag_stays: "fst (snd f) \<Longrightarrow> fst (snd (vflag f c))" "fst (vflag f c) = fst f"
  by (auto simp: vflag_def split: prod.splits)

lemma vflag_idle: "noEscape c \<Longrightarrow> vidle f \<Longrightarrow> vidle (vflag f c)"
  using noEscape_plain [of c] by (cases f) (auto simp: vidle_def vflag_def)

lemma foldl_stays:
  "fst f \<Longrightarrow> fst (foldl kflag f T)" "fst (snd f) \<Longrightarrow> fst (snd (foldl vflag f T))" "fst (foldl vflag f T) = fst f"
  by (induction T arbitrary: f) (simp_all add: kflag_stays vflag_stays)

lemma foldl_percent:
  assumes "bs \<noteq> []"
  shows "fst (foldl kflag f (percent bs))" "fst (snd (foldl vflag f (percent bs)))"
  using assms by (cases bs; simp add: kflag_hex vflag_hex foldl_stays)+

lemma utf8_encode_nonempty: "utf8_encode c \<noteq> []"
  by (simp add: utf8_encode_def)

text \<open>Where no flag is set, the escaped text has no escape: it is the text itself.\<close>

lemma esc_flag:
  "kidle f \<Longrightarrow> fst (foldl kflag f (esc s)) \<or> esc s = js_of s"
  "vidle f \<Longrightarrow> fst (snd (foldl vflag f (esc s))) \<or> esc s = js_of s"
proof (induction s arbitrary: f)
  case (Cons c s)
  have u: "noEscape c \<Longrightarrow> esc_char c = [c] \<and> units c = [c]"
    using noEscape_less [of c] by (simp add: esc_char_def units_small)
  have p: "\<not> noEscape c \<Longrightarrow> esc_char c = percent (utf8_encode c)" by (simp add: esc_char_def)
  {
    case 1
    then show ?case using Cons.IH(1) [of "kflag f c"] u p
      by (cases "noEscape c") (simp_all add: kflag_idle foldl_stays foldl_percent utf8_encode_nonempty)
  next
    case 2
    then show ?case using Cons.IH(2) [of "vflag f c"] u p
      by (cases "noEscape c") (simp_all add: vflag_idle foldl_stays foldl_percent utf8_encode_nonempty)
  }
qed simp_all

section \<open>Pairs\<close>

lemma addKeyVal_esc:
  assumes "list_all is_scalar k" "list_all is_scalar v" "ke \<or> esc k = js_of k" "ve \<or> esc v = js_of v"
  shows "addKeyVal lib None (esc k) (esc v) ke ve ob = Some (put_value (js_of k) (js_of v) ob)"
proof -
  have "esc s = [] \<Longrightarrow> list_all is_scalar s \<Longrightarrow> js_of s = []" for s
    using decode_esc [of s] by (simp add: decodeURIComponent.simps)
  with assms show ?thesis by (auto simp: addKeyVal_def decodeStr_esc)
qed

definition pair_text :: "rstring \<times> rstring \<Rightarrow> jstr" where
  "pair_text p = esc (fst p) @ 61 # esc (snd p)"

fun query_text :: "(rstring \<times> rstring) list \<Rightarrow> jstr" where
  "query_text [] = []"
| "query_text [p] = pair_text p"
| "query_text (p # q # ps) = pair_text p @ 38 # query_text (q # ps)"

definition put_pair :: "qobject \<Rightarrow> rstring \<times> rstring \<Rightarrow> qobject" where
  "put_pair ob p = put_value (js_of (fst p)) (js_of (snd p)) ob"

lemma put_pair_Pair [simp]: "put_pair ob (k, v) = put_value (js_of k) (js_of v) ob"
  by (simp add: put_pair_def)

definition scalar_pair :: "rstring \<times> rstring \<Rightarrow> bool" where
  "scalar_pair p \<longleftrightarrow> list_all is_scalar (fst p) \<and> list_all is_scalar (snd p)"

lemma pair_text_plain: "38 \<notin> set (pair_text p)" "pair_text p \<noteq> []"
  using esc_safe [of "fst p"] esc_safe [of "snd p"] by (auto simp: pair_text_def)

lemma segments_query_text: "ps \<noteq> [] \<Longrightarrow> segments (query_text ps) = map pair_text ps"
  by (induction ps rule: query_text.induct) (simp_all add: segments_plain segments_cut pair_text_plain)

lemma add_segment_pair:
  assumes "scalar_pair p"
  shows "add_segment lib (pair_text p) ob = Some (put_pair ob p)"
proof -
  obtain k v where p: "p = (k, v)" by (cases p)
  have k: "61 \<notin> set (esc k)" using esc_safe [of k] by auto
  have kv: "seg_key (pair_text p) = esc k" "seg_val (pair_text p) = esc v"
    using k by (simp_all add: p pair_text_def seg_cut)
  have pl: "plus (esc s) = esc s" for s using esc_safe [of s] by (simp add: plus_def map_idI)
  let ?f = "eqflag (kflags (esc k))"
  have "fst (kflags (esc k)) \<or> esc k = js_of k"
    unfolding kflags_def by (rule esc_flag(1)) (simp add: kidle_def)
  then have "fst (foldl vflag ?f (esc v)) \<or> esc k = js_of k" by (simp add: foldl_stays eqflag_def)
  moreover have "fst (snd (foldl vflag ?f (esc v))) \<or> esc v = js_of v"
    by (rule esc_flag(2)) (simp add: vidle_def eqflag_def)
  moreover have "seg_flags (pair_text p) = foldl vflag ?f (esc v)"
    unfolding seg_flags_def kv by (simp add: p pair_text_def)
  ultimately show ?thesis
    using addKeyVal_esc [of k v] assms by (simp add: add_segment_def kv [unfolded p] pl p scalar_pair_def)
qed

lemma add_segments_pairs:
  "list_all scalar_pair ps \<Longrightarrow> add_segments lib (map pair_text ps) ob = Some (foldl put_pair ob ps)"
  by (induction ps arbitrary: ob) (simp_all add: add_segment_pair pair_text_plain)

section \<open>What is written\<close>

text \<open>A string of the language without lone surrogates is the text of Unicode scalars.\<close>

fun well_formed :: "jstr \<Rightarrow> bool" where
  "well_formed [] = True"
| "well_formed (u # r) =
     (if u < 0xD800 \<or> (0xE000 \<le> u \<and> u < 0x10000) then well_formed r
      else case r of [] \<Rightarrow> False | v # r' \<Rightarrow> u < 0xDC00 \<and> 0xDC00 \<le> v \<and> v < 0xE000 \<and> well_formed r')"

lemma well_formed_scalars: "well_formed t \<Longrightarrow> \<exists>s. list_all is_scalar s \<and> js_of s = t"
proof (induction t rule: well_formed.induct)
  case (2 u r)
  show ?case
  proof (cases "u < 0xD800 \<or> (0xE000 \<le> u \<and> u < 0x10000)")
    case True
    with 2 obtain s where "list_all is_scalar s" "js_of s = r" by auto
    moreover have "units u = [u]" "is_scalar u" using True by (auto simp: units_small is_scalar_def)
    ultimately show ?thesis by (intro exI [of _ "u # s"]) simp
  next
    case False
    with "2.prems" obtain v r' where r: "r = v # r'" "0xD800 \<le> u" "u < 0xDC00" "0xDC00 \<le> v" "v < 0xE000" "well_formed r'"
      by (auto split: list.splits)
    with "2.IH"(2) [OF False r(1)] obtain s where s: "list_all is_scalar s" "js_of s = r'" by auto
    from r obtain x y where xy: "u = 0xD800 + x" "v = 0xDC00 + y" "x < 1024" "y < 1024"
      by (auto dest!: le_Suc_ex)
    let ?c = "0x10000 + (x * 1024 + y)"
    have b: "0x10000 \<le> ?c" "?c < 0x110000" using xy by auto
    then have "units ?c = [u, v]" using units_pair(1) [OF b] xy by simp
    moreover have "is_scalar ?c" using b by (simp add: is_scalar_def)
    ultimately show ?thesis using r s by (intro exI [of _ "?c # s"]) simp
  qed
qed (simp add: exI [of _ "[]"])

text \<open>The text of a finite number below 1e21 or of a bigint has digits, signs, points and exponents only.\<close>

definition ok_prim :: "qprim \<Rightarrow> bool" where
  "ok_prim p = (case p of
     Q_String t \<Rightarrow> well_formed t
   | Q_Number t small \<Rightarrow> list_all (\<lambda>c. c < 128) t \<and> (small \<longrightarrow> list_all noEscape t)
   | Q_BigInt t \<Rightarrow> list_all noEscape t
   | _ \<Rightarrow> True)"

definition prims :: "qvalue \<Rightarrow> qprim list" where
  "prims v = (case v of Q_Prim p \<Rightarrow> [p] | Q_Array ps \<Rightarrow> ps)"

definition pairs_of :: "(jstr \<times> qvalue) list \<Rightarrow> (jstr \<times> jstr) list" where
  "pairs_of kvs = concat (map (\<lambda>(k, v). map (\<lambda>p. (k, stringifyPrimitive p)) (prims v)) kvs)"

lemma ascii_text: "list_all (\<lambda>c. c < 128) t \<Longrightarrow> list_all is_scalar t \<and> js_of t = t"
  by (induction t) (simp_all add: is_scalar_def units_small)

lemma plain_text: "list_all noEscape t \<Longrightarrow> list_all is_scalar t \<and> js_of t = t \<and> esc t = t"
proof (induction t)
  case (Cons c t)
  then show ?case using noEscape_less [of c] by (simp add: is_scalar_def units_small esc_char_def)
qed simp

definition writes :: "qprim \<Rightarrow> rstring \<Rightarrow> bool" where
  "writes p s \<longleftrightarrow> list_all is_scalar s \<and> stringifyPrimitive p = js_of s \<and> convert None p = Some (esc s)"

lemma bool_text: "list_all noEscape true_text" "list_all noEscape false_text"
  by (simp_all add: true_text_def false_text_def noEscape_def)

lemma ok_prim_writes: "ok_prim p \<Longrightarrow> \<exists>s. writes p s"
proof (cases p)
  case (Q_String t)
  assume "ok_prim p"
  then obtain s where "list_all is_scalar s" "js_of s = t" using Q_String well_formed_scalars by (auto simp: ok_prim_def)
  moreover have "js_of s = [] \<Longrightarrow> esc s = []"
    using calculation(1) by (cases s) (auto simp: units_def utf16_encode_def split: if_splits)
  ultimately show ?thesis
    using Q_String by (intro exI [of _ s])
      (auto simp: writes_def stringifyPrimitive_def convert_def encodeStringified_def qsEscape_def encodeStr_js_of)
next
  case (Q_Number t small)
  assume "ok_prim p"
  with Q_Number have a: "list_all is_scalar t \<and> js_of t = t" and b: "small \<Longrightarrow> esc t = t"
    using ascii_text [of t] plain_text [of t] by (auto simp: ok_prim_def)
  moreover have "encodeStr t = Some (esc t)" using encodeStr_js_of [of t] a by simp
  ultimately show ?thesis
    using Q_Number by (intro exI [of _ t]) (auto simp: writes_def stringifyPrimitive_def convert_def encodeStringified_def qsEscape_def)
next
  case (Q_BigInt t)
  assume "ok_prim p"
  with Q_BigInt plain_text [of t] show ?thesis
    by (intro exI [of _ t]) (auto simp: ok_prim_def writes_def stringifyPrimitive_def convert_def encodeStringified_def)
next
  case (Q_Bool b)
  with plain_text [OF bool_text(1)] plain_text [OF bool_text(2)] show ?thesis
    by (intro exI [of _ "if b then true_text else false_text"])
      (auto simp: writes_def stringifyPrimitive_def convert_def encodeStringified_def)
next
  case Q_Other
  then show ?thesis by (intro exI [of _ "[]"]) (simp add: writes_def stringifyPrimitive_def convert_def encodeStringified_def)
qed

text \<open>Joining two texts with the separator between them.\<close>

definition join_text :: "jstr \<Rightarrow> jstr \<Rightarrow> jstr" where
  "join_text a b = (if a = [] then b else if b = [] then a else a @ 38 # b)"

lemma query_text_empty [simp]: "query_text ps = [] \<longleftrightarrow> ps = []"
  by (cases ps rule: query_text.cases) (simp_all add: pair_text_def)

lemma query_text_Cons: "query_text (p # ps) = join_text (pair_text p) (query_text ps)"
  by (cases ps) (simp_all add: join_text_def pair_text_def)

lemma join_text_assoc: "join_text (join_text a b) c = join_text a (join_text b c)"
  by (simp add: join_text_def)

lemma query_text_append: "query_text (ps @ rs) = join_text (query_text ps) (query_text rs)"
  by (induction ps) (simp_all add: query_text_Cons join_text_assoc, simp add: join_text_def)

lemma array_fields_text:
  assumes "list_all2 writes vs ss"
  shows "array_fields [38] (esc k @ [61]) (convert None) False vs F = Some (F @ concat (map (\<lambda>s. 38 # pair_text (k, s)) ss))"
  using assms
proof (induction vs ss arbitrary: F rule: list_all2_induct)
  case (Cons v vs s ss)
  then show ?case by (simp add: writes_def pair_text_def)
qed simp

lemma query_text_map:
  "query_text (map (Pair k) (s # ss)) = pair_text (k, s) @ concat (map (\<lambda>s. 38 # pair_text (k, s)) ss)"
  by (induction ss arbitrary: s) simp_all

text \<open>One entry of the object adds its pairs to what has been written.\<close>

lemma entry_text:
  assumes "writes (Q_String k) ks" "list_all2 writes (prims v) ss"
  shows "fields_loop [38] [61] (convert None) ((k, v) # kvs) F
    = fields_loop [38] [61] (convert None) kvs (join_text F (query_text (map (Pair ks) ss)))"
proof -
  have k: "convert None (Q_String k) = Some (esc ks)" using assms(1) by (simp add: writes_def)
  show ?thesis
  proof (cases v)
    case (Q_Prim p)
    then obtain s where "ss = [s]" "convert None p = Some (esc s)"
      using assms(2) by (auto simp: prims_def writes_def list_all2_Cons1)
    with Q_Prim k show ?thesis by (simp add: Let_def join_text_def pair_text_def)
  next
    case (Q_Array ps)
    show ?thesis
    proof (cases ps)
      case Nil
      with Q_Array assms(2) k show ?thesis by (simp add: Let_def prims_def join_text_def)
    next
      case (Cons p qs)
      with Q_Array assms(2) obtain s ts where ss: "ss = s # ts" "convert None p = Some (esc s)" "list_all2 writes qs ts"
        by (auto simp: prims_def writes_def list_all2_Cons1)
      with Q_Array Cons k array_fields_text [OF ss(3), of ks] query_text_map [of ks s ts] show ?thesis
        by (auto simp: Let_def join_text_def pair_text_def)
    qed
  qed
qed

lemma prims_write: "list_all ok_prim ps \<Longrightarrow> \<exists>ss. list_all2 writes ps ss"
  by (induction ps) (auto dest: ok_prim_writes intro: list_all2_Cons [THEN iffD2])

definition ok_entry :: "jstr \<times> qvalue \<Rightarrow> bool" where
  "ok_entry kv \<longleftrightarrow> well_formed (fst kv) \<and> list_all ok_prim (prims (snd kv))"

lemma writes_pairs:
  assumes "writes (Q_String k) ks" "list_all2 writes ps ss"
  shows "list_all scalar_pair (map (Pair ks) ss)"
    and "map (\<lambda>p. (k, stringifyPrimitive p)) ps = map (map_prod js_of js_of) (map (Pair ks) ss)"
proof -
  have k: "list_all is_scalar ks" "k = js_of ks" using assms(1) by (simp_all add: writes_def stringifyPrimitive_def)
  show "list_all scalar_pair (map (Pair ks) ss)"
    "map (\<lambda>p. (k, stringifyPrimitive p)) ps = map (map_prod js_of js_of) (map (Pair ks) ss)"
    using assms(2) by (induction rule: list_all2_induct) (simp_all add: k writes_def scalar_pair_def)
qed

lemma stringify_text:
  assumes "list_all ok_entry kvs"
  shows "\<exists>ps. list_all scalar_pair ps \<and> pairs_of kvs = map (map_prod js_of js_of) ps
    \<and> (\<forall>F. fields_loop [38] [61] (convert None) kvs F = Some (join_text F (query_text ps)))"
  using assms
proof (induction kvs)
  case Nil
  show ?case by (intro exI [of _ "[]"]) (simp add: pairs_of_def join_text_def)
next
  case (Cons kv kvs)
  obtain k v where kv: "kv = (k, v)" by (cases kv)
  from Cons.prems kv have "ok_prim (Q_String k)" "list_all ok_prim (prims v)" by (simp_all add: ok_entry_def ok_prim_def)
  then obtain ks ss where w: "writes (Q_String k) ks" "list_all2 writes (prims v) ss"
    using ok_prim_writes prims_write by blast
  from Cons obtain ps where ps: "list_all scalar_pair ps" "pairs_of kvs = map (map_prod js_of js_of) ps"
      "\<And>F. fields_loop [38] [61] (convert None) kvs F = Some (join_text F (query_text ps))" by auto
  let ?ps = "map (Pair ks) ss @ ps"
  have "list_all scalar_pair ?ps" using writes_pairs(1) [OF w] ps(1) by simp
  moreover have "pairs_of (kv # kvs) = map (map_prod js_of js_of) ?ps"
    using writes_pairs(2) [OF w] ps(2) by (simp add: kv pairs_of_def)
  moreover have "fields_loop [38] [61] (convert None) (kv # kvs) F = Some (join_text F (query_text ?ps))" for F
    using entry_text [OF w] ps(3) by (simp add: kv query_text_append join_text_assoc del: fields_loop.simps)
  ultimately show ?case by blast
qed

section \<open>What is read\<close>

text \<open>The values of a key in the order of the pairs: none, one, or an array of them.\<close>

definition collect :: "(jstr \<times> jstr) list \<Rightarrow> qobject" where
  "collect ps k = (case map snd (filter (\<lambda>p. fst p = k) ps) of
     [] \<Rightarrow> None
   | [v] \<Rightarrow> Some (R_String v)
   | vs \<Rightarrow> Some (R_Array vs))"

lemma collect_snoc: "collect (ps @ [(k, v)]) = put_value k v (collect ps)"
proof
  fix x
  show "collect (ps @ [(k, v)]) x = put_value k v (collect ps) x"
    by (cases "map snd (filter (\<lambda>p. fst p = x) ps)" rule: remdups_adj.cases)
      (auto simp: collect_def put_value_def split: list.splits option.splits qresult.splits)
qed

lemma foldl_put_pair: "foldl put_pair (\<lambda>_. None) ps = collect (map (map_prod js_of js_of) ps)"
proof (induction ps rule: rev_induct)
  case Nil
  show ?case by (simp add: collect_def fun_eq_iff)
next
  case (snoc p ps)
  then show ?case by (cases p) (simp add: put_pair_def collect_snoc)
qed

lemma parse_query_text:
  assumes "list_all scalar_pair ps"
  shows "qs_parse lib (Some (query_text ps)) None None m None
    = Some (collect (limit (max_pairs m) (map (map_prod js_of js_of) ps)))"
proof (cases "ps = []")
  case True
  then show ?thesis by (simp add: qs_parse_def limit_def collect_def fun_eq_iff)
next
  case False
  have "limit n (map pair_text ps) = map pair_text (limit n ps)" for n by (simp add: limit_def take_map)
  moreover have "list_all scalar_pair (limit n ps)" for n
    using assms by (auto simp: limit_def list_all_iff dest: in_set_takeD)
  ultimately show ?thesis
    using False by (simp add: parse_segments segments_query_text add_segments_pairs foldl_put_pair) (simp add: limit_def take_map)
qed

section \<open>Strings stay strings\<close>

definition units_ok :: "jstr \<Rightarrow> bool" where
  "units_ok t \<longleftrightarrow> (\<forall>u \<in> set t. u < 0x10000)"

definition result_ok :: "qresult \<Rightarrow> bool" where
  "result_ok r = (case r of R_String v \<Rightarrow> units_ok v | R_Array vs \<Rightarrow> 2 \<le> length vs \<and> list_all units_ok vs)"

definition object_ok :: "qobject \<Rightarrow> bool" where
  "object_ok ob \<longleftrightarrow> (\<forall>k r. ob k = Some r \<longrightarrow> units_ok k \<and> result_ok r)"

definition decoder_ok :: "(jstr \<Rightarrow> jstr option) option \<Rightarrow> bool" where
  "decoder_ok custom \<longleftrightarrow> (\<forall>f s t. custom = Some f \<longrightarrow> f s = Some t \<longrightarrow> units_ok t)"

lemma units_ok_simps [simp]:
  "units_ok []" "units_ok (u # t) \<longleftrightarrow> u < 0x10000 \<and> units_ok t" "units_ok (a @ b) \<longleftrightarrow> units_ok a \<and> units_ok b"
  by (auto simp: units_ok_def)

lemma units_ok_part: "units_ok t \<Longrightarrow> units_ok (drop i t)" "units_ok t \<Longrightarrow> units_ok (js_slice t i j)"
  by (auto simp: units_ok_def js_slice_def dest: in_set_takeD in_set_dropD)

lemma units_ok_js_of: "units_ok (js_of s)"
proof -
  have "unat (u :: u16) < 0x10000" for u using unsigned_less [of u] by simp
  then show ?thesis by (auto simp: units_ok_def js_of_def)
qed

lemma hex_escape_ok: "hex_escape s = Some (b, r) \<Longrightarrow> units_ok s \<Longrightarrow> units_ok r"
  by (induction s rule: hex_escape.induct) (auto split: if_splits option.splits)

lemma octets_ok: "octets n s = Some (bs, r) \<Longrightarrow> units_ok s \<Longrightarrow> units_ok r"
  by (induction n arbitrary: s bs) (fastforce split: option.splits dest: hex_escape_ok)+

lemma decode_unfold:
  "c \<noteq> 37 \<Longrightarrow> decodeURIComponent (c # r) = map_option ((#) c) (decodeURIComponent r)"
  "hex_escape (37 # r) = None \<Longrightarrow> decodeURIComponent (37 # r) = None"
  "hex_escape (37 # r) = Some (b, q) \<Longrightarrow> b < 0x80 \<Longrightarrow> decodeURIComponent (37 # r) = map_option ((#) b) (decodeURIComponent q)"
  "hex_escape (37 # r) = Some (b, q) \<Longrightarrow> \<not> b < 0x80 \<Longrightarrow> decodeURIComponent (37 # r) =
     (case octets (utf8_width (word_of_nat b) - 1) q of
        None \<Rightarrow> None
      | Some (bs, p) \<Rightarrow>
          if utf8_item (word_of_nat b) bs = Scalar (length bs + 1)
          then map_option ((@) (js_of [scalar_of (word_of_nat b # bs)])) (decodeURIComponent p)
          else None)"
  by (subst decodeURIComponent.simps, simp)+

lemma decodeURIComponent_ok: "decodeURIComponent s = Some t \<Longrightarrow> units_ok s \<Longrightarrow> units_ok t"
proof (induction "length s" arbitrary: s t rule: less_induct)
  case less
  show ?case
  proof (cases s)
    case Nil
    with less.prems show ?thesis by (simp add: decodeURIComponent.simps)
  next
    case (Cons c r)
    consider "c \<noteq> 37" | "c = 37" "hex_escape s = None" | b q where "c = 37" "hex_escape s = Some (b, q)" "b < 0x80"
      | b q where "c = 37" "hex_escape s = Some (b, q)" "\<not> b < 0x80" by fastforce
    then show ?thesis
    proof cases
      case 1
      with less.prems less.hyps [of r] Cons show ?thesis by (auto simp: decode_unfold)
    next
      case 2
      with less.prems Cons show ?thesis by (simp add: decode_unfold)
    next
      case (3 b q)
      with less.hyps [of q] hex_escape_shorter [of s b q] hex_escape_ok [of s b q] less.prems Cons
      show ?thesis by (auto simp: decode_unfold)
    next
      case (4 b q)
      with less.prems Cons obtain bs p t' where o: "octets (utf8_width (word_of_nat b) - 1) q = Some (bs, p)"
          and d: "decodeURIComponent p = Some t'" "t = js_of [scalar_of (word_of_nat b # bs)] @ t'"
        by (simp add: decode_unfold split: option.splits prod.splits if_splits) metis
      have "length p < length s" using octets_shorter [OF o] hex_escape_shorter [OF 4(2)] by simp
      moreover have "units_ok p" using octets_ok [OF o] hex_escape_ok [OF 4(2)] less.prems(2) by simp
      ultimately have "units_ok t'" using less.hyps d(1) by blast
      with d(2) show ?thesis by (simp only: units_ok_simps units_ok_js_of simp_thms)
    qed
  qed
qed

text \<open>A decoder that is not fatal always answers, so unescaping always does.\<close>

lemma unescapeBuffer_total: "\<exists>t. unescapeBuffer lib s d = Some t \<and> units_ok t"
proof -
  have "answers (fst (decode lib (Some bs) None (td_new Utf8 False False))) (bom_whole Utf8 (utf8_payload True) False bs)" for bs
    using session_utf8 [of lib "[]" "Some bs" False False] by (simp add: session_def opt_bytes_def)
  from this [of "unescape_loop s d 0"]
  obtain out where "fst (decode lib (Some (unescape_loop s d 0)) None (td_new Utf8 False False)) = Ok out"
    by (cases "fst (decode lib (Some (unescape_loop s d 0)) None (td_new Utf8 False False))")
      (simp_all add: bom_whole_def utf8_payload_def)
  then show ?thesis by (simp add: unescapeBuffer_def units_ok_js_of)
qed

lemma qsUnescape_total: "units_ok s \<Longrightarrow> \<exists>t. qsUnescape lib s d = Some t \<and> units_ok t"
  using unescapeBuffer_total [of lib s d] decodeURIComponent_ok [of s]
  by (auto simp: qsUnescape_def split: option.splits)

lemma decodeStr_total: "units_ok s \<Longrightarrow> decoder_ok custom \<Longrightarrow> \<exists>t. decodeStr lib custom s = Some t \<and> units_ok t"
  using qsUnescape_total [of s lib True] by (auto simp: decodeStr_def decoder_ok_def split: option.splits)

lemma put_value_ok:
  assumes "units_ok k" "units_ok v" "object_ok ob"
  shows "object_ok (put_value k v ob)"
proof -
  have "result_ok r" if "put_value k v ob k = Some r" for r
    using that assms(2,3) by (cases "ob k") (force simp: put_value_def result_ok_def object_ok_def split: qresult.splits)+
  moreover have "put_value k v ob j = ob j" if "j \<noteq> k" for j
    using that by (simp add: put_value_def split: option.splits qresult.splits)
  ultimately show ?thesis using assms(1,3) by (metis object_ok_def)
qed

lemma addKeyVal_total:
  assumes "units_ok k" "units_ok v" "decoder_ok custom" "object_ok ob"
  shows "\<exists>ob'. addKeyVal lib custom k v ke ve ob = Some ob' \<and> object_ok ob'"
proof -
  have part: "\<exists>t. (if s \<noteq> [] \<and> e then decodeStr lib custom s else Some s) = Some t \<and> units_ok t" if "units_ok s" for s e
    using decodeStr_total [OF that assms(3)] that by auto
  from part [OF assms(1), of ke] obtain k' where k: "(if k \<noteq> [] \<and> ke then decodeStr lib custom k else Some k) = Some k'" "units_ok k'"
    by (elim exE conjE)
  from part [OF assms(2), of ve] obtain v' where v: "(if v \<noteq> [] \<and> ve then decodeStr lib custom v else Some v) = Some v'" "units_ok v'"
    by (elim exE conjE)
  show ?thesis unfolding addKeyVal_def k(1) v(1) using put_value_ok [OF k(2) v(2) assms(4)] by simp
qed

definition state_ok :: "pstate \<Rightarrow> bool" where
  "state_ok st \<longleftrightarrow> units_ok (key st) \<and> units_ok (val st) \<and> object_ok (obj st)"

definition step_ok :: "pstep \<Rightarrow> bool" where
  "step_ok r = (case r of Next st \<Rightarrow> state_ok st | Return ob \<Rightarrow> object_ok ob | Throw \<Rightarrow> False)"

lemma plusChar_ok: "units_ok (plusChar a)"
  by (simp add: plusChar_def)

lemma state_ok_update [simp]:
  "state_ok (st\<lparr>sepIdx := n\<rparr>) = state_ok st" "state_ok (st\<lparr>eqIdx := n\<rparr>) = state_ok st"
  "state_ok (st\<lparr>lastPos := n\<rparr>) = state_ok st" "state_ok (st\<lparr>encodeCheck := n\<rparr>) = state_ok st"
  "state_ok (st\<lparr>keyEncoded := f\<rparr>) = state_ok st" "state_ok (st\<lparr>valEncoded := f\<rparr>) = state_ok st"
  "state_ok (st\<lparr>pairs := p\<rparr>) = state_ok st"
  by (simp_all add: state_ok_def)

lemma state_ok_text:
  "state_ok st \<Longrightarrow> units_ok t \<Longrightarrow> state_ok (st\<lparr>key := t\<rparr>)" "state_ok st \<Longrightarrow> units_ok t \<Longrightarrow> state_ok (st\<lparr>val := t\<rparr>)"
  "state_ok st \<Longrightarrow> object_ok ob \<Longrightarrow> state_ok (st\<lparr>obj := ob\<rparr>)"
  "state_ok st \<Longrightarrow> units_ok (key st)" "state_ok st \<Longrightarrow> units_ok (val st)" "state_ok st \<Longrightarrow> object_ok (obj st)"
  by (simp_all add: state_ok_def)

lemma sep_step_ok:
  assumes "units_ok qs" "decoder_ok (custom_decode a)" "state_ok st"
  shows "step_ok (sep_step lib a qs i st)"
proof -
  define e where "e = i + 1 - sepIdx st"
  define K where "K = (if eqIdx st < length (eqCodes a) \<and> lastPos st < e then key st @ js_slice qs (lastPos st) e else key st)"
  define V where "V = (if \<not> eqIdx st < length (eqCodes a) \<and> lastPos st < e then val st @ js_slice qs (lastPos st) e else val st)"
  have "units_ok K" "units_ok V" "object_ok (obj st)"
    using assms(3) units_ok_part(2) [OF assms(1)] by (simp_all add: K_def V_def state_ok_text)
  from addKeyVal_total [OF this(1,2) assms(2) this(3)]
  obtain ob where "addKeyVal lib (custom_decode a) K V (keyEncoded st) (valEncoded st) (obj st) = Some ob" "object_ok ob" by blast
  with assms(3) show ?thesis
    unfolding sep_step_def Let_def e_def [symmetric] K_def [symmetric] V_def [symmetric]
    by (simp add: step_ok_def state_ok_text)
qed

lemma value_step_ok: "units_ok qs \<Longrightarrow> state_ok st \<Longrightarrow> state_ok (value_step a qs i st)"
  by (simp add: value_step_def Let_def plusChar_ok units_ok_part state_ok_text)

lemma key_step_ok: "units_ok qs \<Longrightarrow> state_ok st \<Longrightarrow> state_ok (key_step a qs i st)"
  by (simp add: key_step_def Let_def plusChar_ok units_ok_part state_ok_text value_step_ok)

lemma parse_step_ok:
  assumes "units_ok qs" "decoder_ok (custom_decode a)" "state_ok st"
  shows "step_ok (parse_step lib a qs i st)"
proof -
  have n: "step_ok (Next st') = state_ok st'" for st' by (simp add: step_ok_def)
  show ?thesis
    using sep_step_ok [OF assms(1,2)] key_step_ok [OF assms(1)] assms(3)
    by (simp add: parse_step_def Let_def n)
qed

lemma parse_loop_ok:
  "units_ok qs \<Longrightarrow> decoder_ok (custom_decode a) \<Longrightarrow> state_ok st \<Longrightarrow> step_ok (parse_loop lib a qs js st)"
proof (induction js arbitrary: st)
  case (Cons j js)
  with parse_step_ok [of qs a st lib j] show ?case by (cases "parse_step lib a qs j st") (simp_all add: step_ok_def)
qed (simp add: step_ok_def)

lemma parse_end_ok:
  assumes "units_ok qs" "decoder_ok (custom_decode a)" "state_ok st"
  shows "\<exists>ob. parse_end lib a qs st = Some ob \<and> object_ok ob"
proof -
  define R where "R = (if lastPos st < length qs then drop (lastPos st) qs else [])"
  define K where "K = (if eqIdx st < length (eqCodes a) then key st @ R else key st)"
  define V where "V = (if \<not> eqIdx st < length (eqCodes a) \<and> sepIdx st < length (sepCodes a) then val st @ R else val st)"
  have "units_ok R" using units_ok_part(1) [OF assms(1)] by (simp add: R_def)
  then have "units_ok K" "units_ok V" "object_ok (obj st)"
    using assms(3) by (simp_all add: K_def V_def state_ok_text)
  with addKeyVal_total [OF this(1,2) assms(2) this(3)] show ?thesis
    unfolding parse_end_def Let_def R_def [symmetric] K_def [symmetric] V_def [symmetric] by simp
qed

section \<open>Properties\<close>

text \<open>C31: On every string \<open>querystring.parse\<close>, with its positions, partial texts and counters, does what the reference
  reader does: cut the text at the ampersands, cut each part at its first equals sign, turn plus signs into spaces,
  decode, and add the pair. Empty parts add nothing but count towards \<open>maxKeys\<close>.
\<close>

theorem parse_reads_segments:
  "qs_parse lib (Some t) None None maxKeys None = add_segments lib (limit (max_pairs maxKeys) (segments t)) (\<lambda>_. None)"
  by (rule parse_segments)

text \<open>\<open>querystring.escape\<close> returns for every string without lone surrogates; the result has only unreserved characters
  and percent signs, and \<open>unescape\<close> gives the string back.
\<close>

theorem escape_unescape:
  assumes "well_formed t"
  shows "\<exists>e. qsEscape t = Some e \<and> (\<forall>c \<in> set e. noEscape c \<or> c = 37) \<and> qsUnescape lib e decodeSpaces = Some t"
proof -
  obtain s where s: "list_all is_scalar s" "js_of s = t" using well_formed_scalars [OF assms] by blast
  have "qsEscape t = Some (esc s)" using encodeStr_js_of [OF s(1)] s(2) by (simp add: qsEscape_def)
  moreover have "qsUnescape lib (esc s) decodeSpaces = Some t" using decode_esc [OF s(1)] s(2) by (simp add: qsUnescape_def)
  ultimately show ?thesis using esc_unreserved by blast
qed

text \<open>The euro sign, an emoji and an ampersand.\<close>

theorem escape_unescape_witness:
  "well_formed [0x20AC, 0xD83D, 0xDE00, 38] \<and> (\<exists>e. qsEscape [0x20AC, 0xD83D, 0xDE00, 38] = Some e
    \<and> (\<forall>c \<in> set e. noEscape c \<or> c = 37) \<and> qsUnescape rfc_codecs e True = Some [0x20AC, 0xD83D, 0xDE00, 38])"
  using escape_unescape [of "[0x20AC, 0xD83D, 0xDE00, 38]" rfc_codecs True] by simp

text \<open>\<open>querystring.parse\<close> reads back what \<open>stringify\<close> wrote with the default separators. Every key has its values in the
  order they were written, one value as a string and several as an array; pairs after the first \<open>maxKeys\<close> are dropped.
  Empty arrays write nothing, and values that are no strings come back as their text.
\<close>

theorem parse_stringify:
  assumes "list_all ok_entry kvs"
  shows "\<exists>t. qs_stringify (Some kvs) None None None = Some t
    \<and> qs_parse lib (Some t) None None maxKeys None = Some (collect (limit (max_pairs maxKeys) (pairs_of kvs)))"
proof -
  obtain ps where ps: "list_all scalar_pair ps" "pairs_of kvs = map (map_prod js_of js_of) ps"
      "\<And>F. fields_loop [38] [61] (convert None) kvs F = Some (join_text F (query_text ps))"
    using stringify_text [OF assms] by blast
  have "qs_stringify (Some kvs) None None None = Some (query_text ps)"
    using ps(3) [of "[]"] by (simp add: qs_stringify_def or_default_def join_text_def)
  then show ?thesis using parse_query_text [OF ps(1), of lib maxKeys] ps(2) by simp
qed

text \<open>The key \<open>a\<close> has a number, \<open>&\<close> has an array of a string and a truth value, and one more key is beyond the limit.\<close>

theorem parse_stringify_witness:
  "\<exists>t ob. qs_stringify (Some [([97], Q_Prim (Q_Number [49] True)), ([38], Q_Array [Q_String [61, 0xE9], Q_Bool True]), ([98], Q_Prim Q_Other)])
      None None None = Some t
    \<and> qs_parse rfc_codecs (Some t) None None (Some 3) None = Some ob
    \<and> ob [97] = Some (R_String [49]) \<and> ob [38] = Some (R_Array [[61, 0xE9], true_text]) \<and> ob [98] = None"
proof -
  let ?kvs = "[([97], Q_Prim (Q_Number [49] True)), ([38], Q_Array [Q_String [61, 0xE9], Q_Bool True]), ([98], Q_Prim Q_Other)]"
  have "list_all ok_entry ?kvs"
    by (simp add: ok_entry_def ok_prim_def prims_def noEscape_def)
  from parse_stringify [OF this, of rfc_codecs "Some 3"] obtain t where t: "qs_stringify (Some ?kvs) None None None = Some t"
      "qs_parse rfc_codecs (Some t) None None (Some 3) None = Some (collect (limit (max_pairs (Some 3)) (pairs_of ?kvs)))" by blast
  have "limit (max_pairs (Some 3)) (pairs_of ?kvs) = [([97], [49]), ([38], [61, 0xE9]), ([38], true_text)]"
    by (simp add: limit_def max_pairs_def pairs_of_def prims_def stringifyPrimitive_def numeral_3_eq_3)
  with t show ?thesis
    by (intro exI [of _ t] exI [of _ "collect [([97], [49]), ([38], [61, 0xE9]), ([38], true_text)]"]) (simp add: collect_def)
qed

text \<open>C30: \<open>querystring.parse\<close> throws on no string, whatever the separators, the limit and a custom decoder, which may throw
  itself; every key and value of the result is a string of 16-bit units, and an array has at least two of them.
\<close>

theorem parse_type:
  assumes "units_ok qs" "decoder_ok custom"
  shows "\<exists>ob. qs_parse lib (Some qs) sep eq maxKeys custom = Some ob \<and> object_ok ob"
proof (cases qs)
  case Nil
  then show ?thesis by (simp add: qs_parse_def object_ok_def)
next
  case (Cons c r)
  let ?a = "\<lparr>sepCodes = or_default sep 38, eqCodes = or_default eq 61, custom_decode = custom\<rparr>"
  let ?st = "\<lparr>lastPos = 0, sepIdx = 0, eqIdx = 0, key = [], val = [], keyEncoded = custom \<noteq> None, valEncoded = custom \<noteq> None,
    encodeCheck = 0, pairs = max_pairs maxKeys, obj = \<lambda>_. None\<rparr>"
  have "state_ok ?st" by (simp add: state_ok_def object_ok_def)
  then have "step_ok (parse_loop lib ?a qs [0..<length qs] ?st)" using parse_loop_ok [of qs ?a] assms by simp
  moreover have "\<exists>ob. parse_end lib ?a qs st = Some ob \<and> object_ok ob" if "state_ok st" for st
    using parse_end_ok [of qs ?a st lib] assms that by simp
  moreover have "qs_parse lib (Some qs) sep eq maxKeys custom = run lib ?a qs [0..<length qs] ?st"
    using Cons by (simp add: qs_parse_def run_def max_pairs_def Let_def del: upt_Suc)
  ultimately show ?thesis
    by (cases "parse_loop lib ?a qs [0..<length qs] ?st") (simp_all add: run_def step_ok_def)
qed

text \<open>Malformed escapes, an own separator and a decoder that always throws.\<close>

theorem parse_type_witness:
  "\<exists>ob. qs_parse rfc_codecs (Some [97, 61, 37, 69, 52, 59, 37]) (Some [59]) None (Some 0) (Some (\<lambda>_. None)) = Some ob \<and> object_ok ob"
  using parse_type [of "[97, 61, 37, 69, 52, 59, 37]" "Some (\<lambda>_. None)"] by (simp add: decoder_ok_def)

end
