(* ===== verification/Event_Emitter.thy ===== *)
theory Event_Emitter
  imports Raster_Prelude
begin

text \<open>
  Emitters of events, \<open>raster_runtime_events/src/lib.rs\<close> and \<open>event_target.rs\<close>: the lists of listeners, adding and
  removing, and emitting with its snapshots. A JavaScript function is a number. What a listener does is a parameter, the
  program: it looks at everything that has happened and chooses its next call, so listeners may add, remove and emit
  while an event is being emitted. Execution takes fuel; an execution that runs out of it is cut, and its state is the
  state reached so far.
  The methods called on an object are those of its own class, and of \<open>EventEmitter\<close> on a plain object; so the list behind
  the hidden property of an object of another native class stays empty, and the \<open>removeListener\<close> event that
  \<open>remove_listener_by_id\<close> emits as an \<open>EventEmitter\<close> goes to the same list as one emitted by the class itself. The hook
  \<open>on_event_changed\<close> of a class is outside; its calls are in the log and succeed. An argument that is \<open>undefined\<close> is missing.
\<close>

section \<open>State\<close>

datatype event_key = Symbol nat | Name string

datatype event_value = V_String string | V_Symbol nat | V_Other

datatype failure = Js_Error string | Thrown nat

text \<open>How a call ends: with a value, an exception, or not within the fuel.\<close>

datatype 'a outcome = Done 'a | Fail failure | Cut

definition from_value :: "event_value \<Rightarrow> event_key outcome" where
  "from_value v = (case v of V_String s \<Rightarrow> Done (Name s) | V_Symbol n \<Rightarrow> Done (Symbol n) | V_Other \<Rightarrow> Fail (Js_Error ''Not a symbol''))"

definition event_key_to_value :: "event_key \<Rightarrow> event_value" where
  "event_key_to_value k = (case k of Name s \<Rightarrow> V_String s | Symbol n \<Rightarrow> V_Symbol n)"

definition is_remove_listener_key :: "event_key \<Rightarrow> bool" where
  "is_remove_listener_key k \<longleftrightarrow> k = Name ''removeListener''"

text \<open>The cell \<open>fired\<close> of an item is shared with the snapshots, so it is kept in the state under the number of the item.\<close>

record event_item =
  item_id :: nat
  callback :: nat
  once_only :: bool

type_synonym event_list = "(event_key \<times> event_item list) list"

text \<open>The two classes of this crate, another native class that implements \<open>Emitter\<close>, and a plain object.\<close>

datatype eclass = C_EventEmitter | C_EventTarget | C_Native | C_Plain

text \<open>\<open>hidden\<close> is the list behind the hidden property of an object; before it is created it is empty.\<close>

record eobject =
  class_of :: eclass
  own :: event_list
  hidden :: event_list

datatype earg = A_Event event_value | A_Function nat | A_Data nat

datatype eop =
    Op_On nat event_value nat bool bool
  | Op_Off nat event_value nat
  | Op_Emit nat event_value "earg list" bool
  | Op_Remove_All nat "event_value option"

datatype eevent =
    E_Call nat event_key event_item "earg list"
  | E_Defer nat event_key event_item "earg list"
  | E_Changed nat event_key bool
  | E_Returned eop "bool outcome"

record estate =
  objects :: "nat \<Rightarrow> eobject"
  next_listener_id :: nat
  fired :: "nat \<Rightarrow> bool"
  elog :: "eevent list"

definition emit_log :: "eevent \<Rightarrow> estate \<Rightarrow> estate" where
  "emit_log e s = s\<lparr>elog := elog s @ [e]\<rparr>"

section \<open>Lists of listeners\<close>

definition is_native :: "eclass \<Rightarrow> bool" where
  "is_native c \<longleftrightarrow> c \<noteq> C_Plain"

definition is_base :: "eclass \<Rightarrow> bool" where
  "is_base c \<longleftrightarrow> c = C_EventEmitter \<or> c = C_EventTarget"

definition resolve_events :: "eobject \<Rightarrow> event_list" where
  "resolve_events ob = (if is_base (class_of ob) then own ob else hidden ob)"

definition resolve_events_from :: "eobject \<Rightarrow> event_list" where
  "resolve_events_from ob = (if is_native (class_of ob) then own ob else resolve_events ob)"

definition put_events :: "event_list \<Rightarrow> eobject \<Rightarrow> eobject" where
  "put_events es ob = (if is_base (class_of ob) then ob\<lparr>own := es\<rparr> else ob\<lparr>hidden := es\<rparr>)"

definition put_events_from :: "event_list \<Rightarrow> eobject \<Rightarrow> eobject" where
  "put_events_from es ob = (if is_native (class_of ob) then ob\<lparr>own := es\<rparr> else put_events es ob)"

definition set_object :: "nat \<Rightarrow> eobject \<Rightarrow> estate \<Rightarrow> estate" where
  "set_object this ob s = s\<lparr>objects := (objects s)(this := ob)\<rparr>"

text \<open>The items of a key, and the list with those items changed; a key without items is removed.\<close>

fun set_items :: "event_key \<Rightarrow> event_item list \<Rightarrow> event_list \<Rightarrow> event_list" where
  "set_items k items [] = []"
| "set_items k items ((k', its) # es) =
     (if k' = k then (if items = [] then es else (k, items) # es) else (k', its) # set_items k items es)"

fun remove_first :: "('a \<Rightarrow> bool) \<Rightarrow> 'a list \<Rightarrow> 'a list" where
  "remove_first P [] = []"
| "remove_first P (x # xs) = (if P x then xs else x # remove_first P xs)"

definition remove_last :: "('a \<Rightarrow> bool) \<Rightarrow> 'a list \<Rightarrow> 'a list" where
  "remove_last P xs = rev (remove_first P (rev xs))"

definition find_all_listeners :: "event_list \<Rightarrow> event_key \<Rightarrow> nat list" where
  "find_all_listeners es k = (case map_of es k of None \<Rightarrow> [] | Some items \<Rightarrow> map callback items)"

definition has_key :: "event_list \<Rightarrow> event_key \<Rightarrow> bool" where
  "has_key es k \<longleftrightarrow> k \<in> fst ` set es"

section \<open>Removing\<close>

type_synonym emitf = "nat \<Rightarrow> event_value \<Rightarrow> earg list \<Rightarrow> bool \<Rightarrow> estate \<Rightarrow> bool outcome \<times> estate"

definition remove_listener_by_id :: "emitf \<Rightarrow> nat \<Rightarrow> event_key \<Rightarrow> nat \<Rightarrow> bool \<Rightarrow> estate \<Rightarrow> bool outcome \<times> estate" where
  "remove_listener_by_id emit this k i emit_meta s =
     (let ob = objects s this
      in case map_of (resolve_events ob) k of
           None \<Rightarrow> (Done False, s)
         | Some items \<Rightarrow>
             (case find (\<lambda>it. item_id it = i) items of
                None \<Rightarrow> (Done False, s)
              | Some removed \<Rightarrow>
                  let items' = remove_first (\<lambda>it. item_id it = i) items;
                      s1 = set_object this (put_events (set_items k items' (resolve_events ob)) ob) s;
                      (r, s2) = (if emit_meta
                        then emit this (V_String ''removeListener'') [A_Event (event_key_to_value k), A_Function (callback removed)] False s1
                        else (Done True, s1))
                  in case r of
                       Done _ \<Rightarrow> (Done True, if items' = [] \<and> is_base (class_of ob) then emit_log (E_Changed this k False) s2 else s2)
                     | _ \<Rightarrow> (r, s2)))"

primrec remove_ids :: "emitf \<Rightarrow> nat \<Rightarrow> event_key \<Rightarrow> nat list \<Rightarrow> estate \<Rightarrow> bool outcome \<times> estate" where
  "remove_ids emit this k [] s = (Done True, s)"
| "remove_ids emit this k (i # ids) s =
     (case remove_listener_by_id emit this k i True s of
        (Done _, s) \<Rightarrow> remove_ids emit this k ids s
      | r \<Rightarrow> r)"

definition remove_all_for_key :: "emitf \<Rightarrow> nat \<Rightarrow> event_key \<Rightarrow> estate \<Rightarrow> bool outcome \<times> estate" where
  "remove_all_for_key emit this k s =
     (let ids = (case map_of (resolve_events (objects s this)) k of None \<Rightarrow> [] | Some items \<Rightarrow> rev (map item_id items))
      in remove_ids emit this k ids s)"

primrec remove_keys :: "emitf \<Rightarrow> nat \<Rightarrow> event_key list \<Rightarrow> estate \<Rightarrow> bool outcome \<times> estate" where
  "remove_keys emit this [] s = (Done True, s)"
| "remove_keys emit this (k # ks) s =
     (case remove_all_for_key emit this k s of (Done _, s) \<Rightarrow> remove_keys emit this ks s | r \<Rightarrow> r)"

definition remove_all_listeners :: "emitf \<Rightarrow> nat \<Rightarrow> event_value option \<Rightarrow> estate \<Rightarrow> bool outcome \<times> estate" where
  "remove_all_listeners emit this event s =
     (case event of
        Some v \<Rightarrow>
          (case from_value v of Done k \<Rightarrow> remove_all_for_key emit this k s | Fail e \<Rightarrow> (Fail e, s) | Cut \<Rightarrow> (Cut, s))
      | None \<Rightarrow>
          let ks = map fst (filter (\<lambda>(k, items). items \<noteq> []) (resolve_events_from (objects s this)))
          in case remove_keys emit this (filter (\<lambda>k. \<not> is_remove_listener_key k) ks) s of
               (Done _, s) \<Rightarrow> remove_all_for_key emit this (Name ''removeListener'') s
             | r \<Rightarrow> r)"

definition remove_event_listener :: "emitf \<Rightarrow> nat \<Rightarrow> event_value \<Rightarrow> nat \<Rightarrow> estate \<Rightarrow> bool outcome \<times> estate" where
  "remove_event_listener emit this event listener s =
     (case from_value event of
        Fail e \<Rightarrow> (Fail e, s)
      | Cut \<Rightarrow> (Cut, s)
      | Done k \<Rightarrow>
          let ob = objects s this
          in case map_of (resolve_events_from ob) k of
               None \<Rightarrow> (Done True, s)
             | Some items \<Rightarrow>
                 if listener \<notin> callback ` set items then (Done True, s)
                 else
                   let items' = remove_last (\<lambda>it. callback it = listener) items;
                       s1 = set_object this (put_events_from (set_items k items' (resolve_events_from ob)) ob) s
                   in case emit this (V_String ''removeListener'') [A_Event event, A_Function listener] False s1 of
                        (Done _, s2) \<Rightarrow>
                          (Done True, if items' = [] \<and> is_native (class_of ob) then emit_log (E_Changed this k False) s2 else s2)
                      | r \<Rightarrow> r)"

section \<open>Adding\<close>

definition insert_item :: "event_key \<Rightarrow> event_item \<Rightarrow> bool \<Rightarrow> event_list \<Rightarrow> event_list" where
  "insert_item k it prepend es =
     (case map_of es k of
        None \<Rightarrow> es @ [(k, [it])]
      | Some items \<Rightarrow> set_items k (if prepend then it # items else items @ [it]) es)"

definition add_event_listener :: "emitf \<Rightarrow> nat \<Rightarrow> event_value \<Rightarrow> nat \<Rightarrow> bool \<Rightarrow> bool \<Rightarrow> estate \<Rightarrow> bool outcome \<times> estate" where
  "add_event_listener emit this event listener prepend once s =
     (case emit this (V_String ''newListener'') [A_Event event, A_Function listener] False s of
        (Done _, s) \<Rightarrow>
          (case from_value event of
             Fail e \<Rightarrow> (Fail e, s)
           | Cut \<Rightarrow> (Cut, s)
           | Done k \<Rightarrow>
               let ob = objects s this; es = resolve_events_from ob;
                   it = \<lparr>item_id = next_listener_id s, callback = listener, once_only = once\<rparr>;
                   s1 = set_object this (put_events_from (insert_item k it prepend es) ob) (s\<lparr>next_listener_id := next_listener_id s + 1\<rparr>)
               in (Done True, if map_of es k = None \<and> is_native (class_of ob) then emit_log (E_Changed this k True) s1 else s1))
      | r \<Rightarrow> r)"

section \<open>Emitting\<close>

text \<open>\<open>call\<close> runs a listener.\<close>

primrec emit_items ::
    "emitf \<Rightarrow> (nat \<Rightarrow> estate \<Rightarrow> bool outcome \<times> estate) \<Rightarrow> nat \<Rightarrow> event_key \<Rightarrow> earg list \<Rightarrow> bool \<Rightarrow> event_item list \<Rightarrow> estate \<Rightarrow> bool outcome \<times> estate" where
  "emit_items emit call this k args defer [] s = (Done True, s)"
| "emit_items emit call this k args defer (it # its) s =
     (if once_only it \<and> fired s (item_id it) then emit_items emit call this k args defer its s
      else
        let (r, s1) = (if once_only it then remove_listener_by_id emit this k (item_id it) True s else (Done True, s))
        in case r of
             Done _ \<Rightarrow>
               let s2 = (if once_only it then s1\<lparr>fired := (fired s1)(item_id it := True)\<rparr> else s1);
                   (r, s3) = (if defer then (Done True, emit_log (E_Defer this k it args) s2)
                     else call (callback it) (emit_log (E_Call this k it args) s2))
               in (case r of Done _ \<Rightarrow> emit_items emit call this k args defer its s3 | _ \<Rightarrow> (r, s3))
           | _ \<Rightarrow> (r, s1))"

definition do_emit :: "emitf \<Rightarrow> (nat \<Rightarrow> estate \<Rightarrow> bool outcome \<times> estate) \<Rightarrow> emitf" where
  "do_emit emit call this event args defer s =
     (case from_value event of
        Fail e \<Rightarrow> (Fail e, s)
      | Cut \<Rightarrow> (Cut, s)
      | Done k \<Rightarrow>
          (case map_of (resolve_events_from (objects s this)) k of
             None \<Rightarrow> (Done False, s)
           | Some items \<Rightarrow> emit_items emit call this k args defer items s))"

definition exec_op :: "emitf \<Rightarrow> eop \<Rightarrow> estate \<Rightarrow> bool outcome \<times> estate" where
  "exec_op emit x s =
     (case x of
        Op_On this event listener prepend once \<Rightarrow> add_event_listener emit this event listener prepend once s
      | Op_Off this event listener \<Rightarrow> remove_event_listener emit this event listener s
      | Op_Emit this event args defer \<Rightarrow> emit this event args defer s
      | Op_Remove_All this event \<Rightarrow> remove_all_listeners emit this event s)"

text \<open>What a listener does next, from all that has happened.\<close>

datatype action = Do eop | Return | Raise nat

type_synonym program = "nat \<Rightarrow> eevent list \<Rightarrow> action"

fun emit :: "program \<Rightarrow> nat \<Rightarrow> emitf"
  and call :: "program \<Rightarrow> nat \<Rightarrow> nat \<Rightarrow> estate \<Rightarrow> bool outcome \<times> estate" where
  "emit P 0 this event args defer s = (Cut, s)"
| "emit P (Suc n) this event args defer s = do_emit (emit P n) (call P n) this event args defer s"
| "call P 0 f s = (Cut, s)"
| "call P (Suc n) f s =
     (case P f (elog s) of
        Return \<Rightarrow> (Done True, s)
      | Raise v \<Rightarrow> (Fail (Thrown v), s)
      | Do x \<Rightarrow>
          (case exec_op (emit P n) x s of
             (Cut, s) \<Rightarrow> (Cut, s)
           | (r, s) \<Rightarrow> call P n f (emit_log (E_Returned x r) s)))"

section \<open>Queries\<close>

definition event_names :: "nat \<Rightarrow> estate \<Rightarrow> event_value list" where
  "event_names this s = map (\<lambda>(k, _). event_key_to_value k) (resolve_events_from (objects s this))"

definition listener_count :: "nat \<Rightarrow> event_value \<Rightarrow> estate \<Rightarrow> nat outcome" where
  "listener_count this event s =
     (case from_value event of
        Done k \<Rightarrow> Done (case map_of (resolve_events_from (objects s this)) k of None \<Rightarrow> 0 | Some items \<Rightarrow> length items)
      | Fail e \<Rightarrow> Fail e
      | Cut \<Rightarrow> Cut)"

definition listeners :: "nat \<Rightarrow> event_value \<Rightarrow> estate \<Rightarrow> nat list outcome" where
  "listeners this event s =
     (case from_value event of
        Done k \<Rightarrow> Done (find_all_listeners (resolve_events_from (objects s this)) k)
      | Fail e \<Rightarrow> Fail e
      | Cut \<Rightarrow> Cut)"

definition init_state :: "(nat \<Rightarrow> eclass) \<Rightarrow> estate" where
  "init_state c = \<lparr>objects = \<lambda>i. \<lparr>class_of = c i, own = [], hidden = []\<rparr>, next_listener_id = 1, fired = \<lambda>_. False, elog = []\<rparr>"

end
