(* ===== verification/Emitter_Laws.thy ===== *)
theory Emitter_Laws
  imports Event_Emitter
begin

text \<open>
  What emitters promise, whatever the listeners do: a listener added with \<open>once\<close> is called at most once. When the
  listeners are quiet, an event calls them in order, and \<open>off\<close> undoes \<open>on\<close>. The last section shows where the native
  classes leave their listeners behind.
\<close>

section \<open>Counting listeners\<close>

definition ids_in :: "event_list \<Rightarrow> nat list" where
  "ids_in es = concat (map (\<lambda>e. map item_id (snd e)) es)"

lemma ids_in_simps [simp]: "ids_in [] = []" "ids_in (e # es) = map item_id (snd e) @ ids_in es" "ids_in (es @ fs) = ids_in es @ ids_in fs"
  by (simp_all add: ids_in_def)


lemma count_set_items:
  "map_of es k = Some items \<Longrightarrow>
    count_list (ids_in (set_items k items' es)) i + count_list (map item_id items) i
      = count_list (ids_in es) i + count_list (map item_id items') i"
  by (induction es) (auto split: if_splits)

lemma count_remove_first:
  "j \<in> item_id ` set items \<Longrightarrow>
    count_list (map item_id (remove_first (\<lambda>it. item_id it = j) items)) i + (if i = j then 1 else 0) = count_list (map item_id items) i"
  by (induction items) auto

lemma remove_first_split:
  "(\<exists>x \<in> set xs. P x) \<Longrightarrow> \<exists>a y b. xs = a @ y # b \<and> P y \<and> remove_first P xs = a @ b"
proof (induction xs)
  case (Cons x xs)
  show ?case
  proof (cases "P x")
    case True
    then show ?thesis by (intro exI [of _ "[]"] exI [of _ x] exI [of _ xs]) simp
  next
    case False
    with Cons obtain a y b where "xs = a @ y # b" "P y" "remove_first P xs = a @ b" by auto
    with False show ?thesis by (intro exI [of _ "x # a"] exI [of _ y] exI [of _ b]) simp
  qed
qed simp

lemma remove_last_split:
  "(\<exists>x \<in> set xs. P x) \<Longrightarrow> \<exists>a y b. xs = a @ y # b \<and> P y \<and> remove_last P xs = a @ b"
proof -
  assume "\<exists>x \<in> set xs. P x"
  then obtain a y b where a: "rev xs = a @ y # b" "P y" "remove_first P (rev xs) = a @ b"
    using remove_first_split [of "rev xs" P] by auto
  from arg_cong [OF a(1), of rev] have "xs = rev b @ y # rev a" by simp
  moreover have "remove_last P xs = rev b @ rev a" using a(3) by (simp add: remove_last_def)
  ultimately show ?thesis using a(2) by blast
qed

lemma keys_set_items: "map fst (set_items k items es) = map fst es \<or> map fst (set_items k items es) = remove1 k (map fst es)"
  by (induction es) (auto split: if_splits)

lemma distinct_set_items: "distinct (map fst es) \<Longrightarrow> distinct (map fst (set_items k items es))"
  using keys_set_items [of k items es] by (metis distinct_remove1)


lemma nonempty_set_items: "\<forall>e \<in> set es. snd e \<noteq> [] \<Longrightarrow> \<forall>e \<in> set (set_items k items es). snd e \<noteq> []"
  by (induction es) (fastforce split: if_splits)+

section \<open>The invariant\<close>

definition slot :: "estate \<Rightarrow> nat \<Rightarrow> bool \<Rightarrow> event_list" where
  "slot s o' b = (if b then own (objects s o') else hidden (objects s o'))"

definition present :: "estate \<Rightarrow> nat \<Rightarrow> bool" where
  "present s i \<longleftrightarrow> (\<exists>x b. 0 < count_list (ids_in (slot s x b)) i)"

text \<open>How often a listener that was added with \<open>once\<close> has been called or scheduled.\<close>

definition is_once_call :: "nat \<Rightarrow> eevent \<Rightarrow> bool" where
  "is_once_call i e = (case e of
     E_Call _ _ it _ \<Rightarrow> once_only it \<and> item_id it = i
   | E_Defer _ _ it _ \<Rightarrow> once_only it \<and> item_id it = i
   | _ \<Rightarrow> False)"

definition once_calls :: "nat \<Rightarrow> eevent list \<Rightarrow> nat" where
  "once_calls i l = length (filter (is_once_call i) l)"

definition lists_ok :: "(nat \<Rightarrow> bool \<Rightarrow> event_list) \<Rightarrow> bool" where
  "lists_ok sl \<longleftrightarrow> (\<forall>x b. distinct (map fst (sl x b)) \<and> (\<forall>e \<in> set (sl x b). snd e \<noteq> []) \<and> (\<forall>i. count_list (ids_in (sl x b)) i \<le> 1))"

definition apart :: "(nat \<Rightarrow> bool \<Rightarrow> event_list) \<Rightarrow> bool" where
  "apart sl \<longleftrightarrow>
     (\<forall>x b y c i. 0 < count_list (ids_in (sl x b)) i \<longrightarrow> 0 < count_list (ids_in (sl y c)) i \<longrightarrow> (x, b) = (y, c))"

definition calls_ok :: "estate \<Rightarrow> bool" where
  "calls_ok s \<longleftrightarrow> (\<forall>i. once_calls i (elog s) \<le> 1 \<and> (0 < once_calls i (elog s) \<longrightarrow> fired s i \<and> i < next_listener_id s))"

definition wf_state :: "estate \<Rightarrow> bool" where
  "wf_state s \<longleftrightarrow> lists_ok (slot s) \<and> apart (slot s) \<and> (\<forall>i. present s i \<longrightarrow> i < next_listener_id s) \<and> calls_ok s"

lemma apartD: "apart sl \<Longrightarrow> 0 < count_list (ids_in (sl x b)) i \<Longrightarrow> 0 < count_list (ids_in (sl y c)) i \<Longrightarrow> (x, b) = (y, c)"
  unfolding apart_def by blast

text \<open>
  What an execution may do: numbers that are no longer in any list, and not in \<open>J\<close>, stay away and are not called.
\<close>

definition leads :: "nat set \<Rightarrow> estate \<Rightarrow> estate \<Rightarrow> bool" where
  "leads J s t \<longleftrightarrow>
     wf_state t \<and> next_listener_id s \<le> next_listener_id t \<and> (\<forall>i. fired s i \<longrightarrow> fired t i)
     \<and> (\<forall>x. class_of (objects t x) = class_of (objects s x))
     \<and> (\<forall>i < next_listener_id s. \<not> present s i \<longrightarrow> i \<notin> J \<longrightarrow> \<not> present t i \<and> once_calls i (elog t) = once_calls i (elog s))"

lemma leads_refl: "wf_state s \<Longrightarrow> leads J s s"
  by (simp add: leads_def)

lemma leads_trans: "leads J s t \<Longrightarrow> leads J t u \<Longrightarrow> leads J s u"
proof -
  assume a: "leads J s t" "leads J t u"
  have "\<not> present u i \<and> once_calls i (elog u) = once_calls i (elog s)" if "i < next_listener_id s" "\<not> present s i" "i \<notin> J" for i
  proof -
    have "\<not> present t i" "once_calls i (elog t) = once_calls i (elog s)" "i < next_listener_id t"
      using a(1) that by (auto simp: leads_def)
    with a(2) that(3) show ?thesis by (auto simp: leads_def)
  qed
  with a show ?thesis unfolding leads_def by (simp add: le_trans [of "next_listener_id s" "next_listener_id t"])
qed

lemma leads_mono: "leads J s t \<Longrightarrow> J \<subseteq> K \<Longrightarrow> leads K s t"
  by (auto simp: leads_def)

lemma leads_wf: "leads J s t \<Longrightarrow> wf_state t"
  by (simp add: leads_def)

section \<open>Primitive changes\<close>

lemma slot_log [simp]: "slot (emit_log e s) = slot s" "present (emit_log e s) = present s"
  "objects (emit_log e s) = objects s" "next_listener_id (emit_log e s) = next_listener_id s" "fired (emit_log e s) = fired s"
  "elog (emit_log e s) = elog s @ [e]"
  by (simp_all add: emit_log_def slot_def present_def fun_eq_iff)

lemma slot_fired [simp]: "slot (s\<lparr>fired := f\<rparr>) = slot s" "present (s\<lparr>fired := f\<rparr>) = present s"
  by (simp_all add: slot_def present_def fun_eq_iff)

lemma once_calls_snoc [simp]: "once_calls i (l @ [e]) = once_calls i l + (if is_once_call i e then 1 else 0)"
  by (simp add: once_calls_def)

lemma log_other: "wf_state s \<Longrightarrow> (\<And>i. \<not> is_once_call i e) \<Longrightarrow> leads {} s (emit_log e s)"
  by (simp add: leads_def wf_state_def calls_ok_def)

lemma log_once:
  assumes "wf_state s" "once_calls j (elog s) = 0" "fired s j" "j < next_listener_id s" "\<And>i. is_once_call i e \<Longrightarrow> i = j"
  shows "leads {j} s (emit_log e s)"
proof -
  have "once_calls i (elog (emit_log e s)) \<le> 1 \<and> (0 < once_calls i (elog (emit_log e s)) \<longrightarrow> fired s i \<and> i < next_listener_id s)" for i
  proof (cases "i = j")
    case True
    with assms show ?thesis by simp
  next
    case False
    with assms(1) assms(5) [of i] show ?thesis by (auto simp: wf_state_def calls_ok_def)
  qed
  then have "calls_ok (emit_log e s)" by (simp add: calls_ok_def)
  with assms show ?thesis by (auto simp: leads_def wf_state_def)
qed

lemma mark_fired: "wf_state s \<Longrightarrow> leads {} s (s\<lparr>fired := (fired s)(j := True)\<rparr>)"
  by (simp add: leads_def wf_state_def calls_ok_def)

text \<open>A list is replaced by one whose listeners are among the old ones.\<close>

definition replaces :: "nat \<Rightarrow> bool \<Rightarrow> event_list \<Rightarrow> estate \<Rightarrow> estate \<Rightarrow> bool" where
  "replaces x b es s t \<longleftrightarrow>
     slot t x b = es \<and> (\<forall>y c. (y, c) \<noteq> (x, b) \<longrightarrow> slot t y c = slot s y c)
     \<and> fired t = fired s \<and> elog t = elog s \<and> (\<forall>y. class_of (objects t y) = class_of (objects s y))"

lemma replaces_counts:
  "replaces x b es s t \<Longrightarrow> count_list (ids_in (slot t y c)) i =
    (if (y, c) = (x, b) then count_list (ids_in es) i else count_list (ids_in (slot s y c)) i)"
  by (auto simp: replaces_def)

lemma shrink:
  assumes "wf_state s" "replaces x b es s t" "next_listener_id t = next_listener_id s"
    and "distinct (map fst es)" "\<forall>e \<in> set es. snd e \<noteq> []"
    and le: "\<And>i. count_list (ids_in es) i \<le> count_list (ids_in (slot s x b)) i"
  shows "leads {} s t"
proof -
  note c = replaces_counts [OF assms(2)]
  have le': "count_list (ids_in (slot t y c)) i \<le> count_list (ids_in (slot s y c)) i" for y c i
    using le c by simp
  then have p: "present t i \<Longrightarrow> present s i" for i
    unfolding present_def by (metis order.strict_trans2)
  have "distinct (map fst (slot t y c)) \<and> (\<forall>e \<in> set (slot t y c). snd e \<noteq> [])" for y c
    using assms(1,2,4,5) by (cases "(y, c) = (x, b)") (auto simp: replaces_def wf_state_def lists_ok_def)
  moreover have "count_list (ids_in (slot t y c)) i \<le> 1" for y c i
    using le' assms(1) unfolding wf_state_def lists_ok_def by (meson order.trans)
  ultimately have "lists_ok (slot t)" by (simp add: lists_ok_def)
  moreover have "apart (slot t)"
    unfolding apart_def
  proof (intro allI impI)
    fix y c z d i
    assume "0 < count_list (ids_in (slot t y c)) i" "0 < count_list (ids_in (slot t z d)) i"
    then have "0 < count_list (ids_in (slot s y c)) i" "0 < count_list (ids_in (slot s z d)) i"
      using le' [of y c i] le' [of z d i] by linarith+
    with assms(1) show "(y, c) = (z, d)" unfolding wf_state_def by (blast dest: apartD)
  qed
  ultimately have "wf_state t"
    using assms(1,2,3) p by (auto simp: wf_state_def replaces_def calls_ok_def)
  with assms(2,3) p show ?thesis by (auto simp: leads_def replaces_def)
qed

lemma grow:
  assumes "wf_state s" "replaces x b es s t" "next_listener_id t = next_listener_id s + 1"
    and "distinct (map fst es)" "\<forall>e \<in> set es. snd e \<noteq> []"
    and cnt: "\<And>i. count_list (ids_in es) i = count_list (ids_in (slot s x b)) i + (if i = next_listener_id s then 1 else 0)"
  shows "leads {} s t"
proof -
  let ?n = "next_listener_id s"
  note c = replaces_counts [OF assms(2)]
  have fresh: "count_list (ids_in (slot s y c)) ?n = 0" for y c
    using assms(1) unfolding wf_state_def present_def by (metis gr0I less_irrefl)
  have same: "i \<noteq> ?n \<Longrightarrow> count_list (ids_in (slot t y c)) i = count_list (ids_in (slot s y c)) i" for y c i
    using c cnt by simp
  have new: "count_list (ids_in (slot t y c)) ?n = (if (y, c) = (x, b) then 1 else 0)" for y c
    using c cnt fresh by simp
  have p: "present t i \<Longrightarrow> present s i \<or> i = ?n" for i
    using same unfolding present_def by metis
  have "distinct (map fst (slot t y c)) \<and> (\<forall>e \<in> set (slot t y c). snd e \<noteq> [])" for y c
    using assms(1,2,4,5) by (cases "(y, c) = (x, b)") (auto simp: replaces_def wf_state_def lists_ok_def)
  moreover have "count_list (ids_in (slot t y c)) i \<le> 1" for y c i
    using same new assms(1) by (cases "i = ?n") (simp_all add: wf_state_def lists_ok_def)
  ultimately have "lists_ok (slot t)" by (simp add: lists_ok_def)
  moreover have "apart (slot t)"
    unfolding apart_def
  proof (intro allI impI)
    fix y c z d i
    assume a: "0 < count_list (ids_in (slot t y c)) i" "0 < count_list (ids_in (slot t z d)) i"
    show "(y, c) = (z, d)"
    proof (cases "i = ?n")
      case True
      with a new [of y c] new [of z d] show ?thesis by (metis less_irrefl)
    next
      case False
      with a same have "0 < count_list (ids_in (slot s y c)) i" "0 < count_list (ids_in (slot s z d)) i" by simp_all
      with assms(1) show ?thesis unfolding wf_state_def by (blast dest: apartD)
    qed
  qed
  moreover have "i < next_listener_id t" if "present t i" for i
    using p [OF that] assms(1,3) by (auto simp: wf_state_def less_Suc_eq)
  moreover have "calls_ok t"
    using assms(1,2,3) by (auto simp: wf_state_def calls_ok_def replaces_def less_Suc_eq)
  ultimately have "wf_state t" by (simp add: wf_state_def)
  with assms(2,3) p show ?thesis by (auto simp: leads_def replaces_def)
qed

lemma put_events_replaces:
  "replaces this (is_base (class_of (objects s this))) es s (set_object this (put_events es (objects s this)) s)"
  by (auto simp: replaces_def set_object_def put_events_def slot_def)

lemma put_events_from_replaces:
  "replaces this (is_native (class_of (objects s this))) es s (set_object this (put_events_from es (objects s this)) s)"
  "replaces this (is_native (class_of (objects s this))) es s (set_object this (put_events_from es (objects s this)) (s\<lparr>next_listener_id := n\<rparr>))"
  by (auto simp: replaces_def set_object_def put_events_from_def put_events_def is_native_def is_base_def slot_def)

lemma resolve_slot:
  "resolve_events (objects s this) = slot s this (is_base (class_of (objects s this)))"
  "resolve_events_from (objects s this) = slot s this (is_native (class_of (objects s this)))"
  by (auto simp: resolve_events_def resolve_events_from_def slot_def is_native_def is_base_def)

section \<open>The operations keep the invariant\<close>

definition keeps :: "(estate \<Rightarrow> 'a \<times> estate) \<Rightarrow> bool" where
  "keeps f \<longleftrightarrow> (\<forall>s. wf_state s \<longrightarrow> leads {} s (snd (f s)))"

definition emit_keeps :: "emitf \<Rightarrow> bool" where
  "emit_keeps em \<longleftrightarrow> (\<forall>this event args defer. keeps (em this event args defer))"

lemma keepsD: "keeps f \<Longrightarrow> wf_state s \<Longrightarrow> f s = (r, t) \<Longrightarrow> leads {} s t"
  unfolding keeps_def by (metis snd_conv)

lemma emit_keepsD: "emit_keeps em \<Longrightarrow> wf_state s \<Longrightarrow> em this event args defer s = (r, t) \<Longrightarrow> leads {} s t"
  unfolding emit_keeps_def by (blast intro: keepsD)

lemma log_changed: "wf_state s \<Longrightarrow> leads {} s (emit_log (E_Changed x k b) s)" "wf_state s \<Longrightarrow> leads {} s (emit_log (E_Returned y r) s)"
  by (rule log_other; simp add: is_once_call_def)+

lemma wf_slot:
  assumes "wf_state s"
  shows "distinct (map fst (slot s x b))" "\<forall>e \<in> set (slot s x b). snd e \<noteq> []" "count_list (ids_in (slot s x b)) i \<le> 1"
    "present s i \<Longrightarrow> i < next_listener_id s"
  using assms by (simp_all add: wf_state_def lists_ok_def)

text \<open>Taking one item out of a list.\<close>

lemma take_out:
  assumes wf: "wf_state s" and k: "map_of (slot s x b) k = Some (a @ y # c)"
    and t: "replaces x b (set_items k (a @ c) (slot s x b)) s t" "next_listener_id t = next_listener_id s"
  shows "leads {} s t" "\<not> present t (item_id y)"
proof -
  let ?es = "set_items k (a @ c) (slot s x b)"
  have cnt: "count_list (ids_in ?es) i + (if item_id y = i then 1 else 0) = count_list (ids_in (slot s x b)) i" for i
    using count_set_items [OF k, of "a @ c" i] by (cases "item_id y = i") simp_all
  have le: "count_list (ids_in ?es) i \<le> count_list (ids_in (slot s x b)) i" for i
    unfolding cnt [symmetric] by (rule le_add1)
  show "leads {} s t"
    using shrink [OF wf t] distinct_set_items [OF wf_slot(1) [OF wf, of x b]] nonempty_set_items [OF wf_slot(2) [OF wf, of x b]] le
    by blast
  have one: "count_list (ids_in (slot s x b)) (item_id y) = 1"
    using cnt [of "item_id y"] wf_slot(3) [OF wf, of x b "item_id y"] by simp
  show "\<not> present t (item_id y)"
  proof
    assume "present t (item_id y)"
    then obtain z d where z: "0 < count_list (ids_in (slot t z d)) (item_id y)" unfolding present_def by blast
    show False
    proof (cases "(z, d) = (x, b)")
      case True
      with z replaces_counts [OF t(1), of z d "item_id y"] cnt [of "item_id y"] one show False by simp
    next
      case False
      with z replaces_counts [OF t(1), of z d "item_id y"] have "0 < count_list (ids_in (slot s z d)) (item_id y)"
        by (simp only: if_False)
      moreover have "apart (slot s)" using wf by (simp add: wf_state_def)
      ultimately show False using apartD [of "slot s" z d "item_id y" x b] one False by simp
    qed
  qed
qed

lemma find_id_split:
  assumes "find (\<lambda>it. item_id it = i) items = Some y"
  shows "\<exists>a c. items = a @ y # c \<and> item_id y = i \<and> remove_first (\<lambda>it. item_id it = i) items = a @ c"
  using assms
proof (induction items)
  case (Cons x items)
  then show ?case
  proof (cases "item_id x = i")
    case False
    with Cons obtain a c where "items = a @ y # c" "item_id y = i" "remove_first (\<lambda>it. item_id it = i) items = a @ c" by auto
    with False show ?thesis by (intro exI [of _ "x # a"] exI [of _ c]) simp
  qed (simp add: exI [of _ "[]"])
qed simp

text \<open>A listener that was not called before is not called by the removal of itself.\<close>

lemma remove_listener_by_id_keeps:
  assumes em: "emit_keeps em" and wf: "wf_state s"
    and r: "remove_listener_by_id em this k i meta s = (r, t)"
  shows "leads {} s t \<and> (once_calls i (elog s) = 0 \<longrightarrow> i < next_listener_id s \<longrightarrow> once_calls i (elog t) = 0)"
proof -
  let ?ob = "objects s this"
  consider "t = s" | items y where "map_of (resolve_events ?ob) k = Some items" "find (\<lambda>it. item_id it = i) items = Some y"
    using r by (auto simp: remove_listener_by_id_def Let_def split: option.splits)
  then show ?thesis
  proof cases
    case 1
    with wf show ?thesis by (simp add: leads_refl)
  next
    case (2 items y)
    then obtain a c where y: "items = a @ y # c" "item_id y = i" "remove_first (\<lambda>it. item_id it = i) items = a @ c"
      using find_id_split by blast
    define s1 where "s1 = set_object this (put_events (set_items k (a @ c) (resolve_events ?ob)) ?ob) s"
    have rep: "replaces this (is_base (class_of ?ob)) (set_items k (a @ c) (slot s this (is_base (class_of ?ob)))) s s1"
      unfolding s1_def resolve_slot by (rule put_events_replaces)
    have k1: "map_of (slot s this (is_base (class_of ?ob))) k = Some (a @ y # c)" using 2(1) y(1) by (simp add: resolve_slot)
    have n1: "next_listener_id s1 = next_listener_id s" "elog s1 = elog s" by (simp_all add: s1_def set_object_def)
    note out = take_out [OF wf k1 rep n1(1)]
    obtain q s2 where q: "(if meta then em this (V_String ''removeListener'') [A_Event (event_key_to_value k), A_Function (callback y)] False s1
        else (Done True, s1)) = (q, s2)" by fastforce
    have l2: "leads {} s1 s2"
    proof (cases meta)
      case True
      with q emit_keepsD [where em = em, OF em leads_wf [OF out(1)]] show ?thesis by simp
    next
      case False
      with q leads_refl [OF leads_wf [OF out(1)]] show ?thesis by simp
    qed
    have t: "t = s2 \<or> t = emit_log (E_Changed this k False) s2"
      using r q unfolding remove_listener_by_id_def Let_def 2 y(3) option.case s1_def [symmetric]
      by (auto split: outcome.splits if_splits)
    then have l3: "leads {} s2 t" using log_changed(1) [OF leads_wf [OF l2]] leads_refl [OF leads_wf [OF l2]] by auto
    have "once_calls i (elog t) = once_calls i (elog s2)" using t by (auto simp: is_once_call_def)
    moreover have "i < next_listener_id s1 \<Longrightarrow> once_calls i (elog s2) = once_calls i (elog s1)"
      using l2 out(2) y(2) by (simp add: leads_def)
    ultimately show ?thesis using leads_trans [OF leads_trans [OF out(1) l2] l3] n1 by simp
  qed
qed

lemma remove_ids_keeps:
  "emit_keeps em \<Longrightarrow> wf_state s \<Longrightarrow> remove_ids em this k ids s = (r, t) \<Longrightarrow> leads {} s t"
proof (induction ids arbitrary: s)
  case (Cons i ids)
  obtain q s1 where q: "remove_listener_by_id em this k i True s = (q, s1)" by fastforce
  with remove_listener_by_id_keeps [OF Cons.prems(1,2) q] have l: "leads {} s s1" by simp
  show ?case
  proof (cases q)
    case (Done x)
    with Cons.IH [OF Cons.prems(1) leads_wf [OF l]] Cons.prems(3) q l show ?thesis by (auto intro: leads_trans)
  qed (use Cons.prems(3) q l in auto)
qed (simp add: leads_refl)

lemma remove_all_for_key_keeps:
  "emit_keeps em \<Longrightarrow> wf_state s \<Longrightarrow> remove_all_for_key em this k s = (r, t) \<Longrightarrow> leads {} s t"
  unfolding remove_all_for_key_def Let_def by (rule remove_ids_keeps)

lemma remove_keys_keeps:
  "emit_keeps em \<Longrightarrow> wf_state s \<Longrightarrow> remove_keys em this ks s = (r, t) \<Longrightarrow> leads {} s t"
proof (induction ks arbitrary: s)
  case (Cons k ks)
  obtain q s1 where q: "remove_all_for_key em this k s = (q, s1)" by fastforce
  note l = remove_all_for_key_keeps [OF Cons.prems(1,2) q]
  show ?case
  proof (cases q)
    case (Done x)
    with Cons.IH [OF Cons.prems(1) leads_wf [OF l]] Cons.prems(3) q l show ?thesis by (auto intro: leads_trans)
  qed (use Cons.prems(3) q l in auto)
qed (simp add: leads_refl)

lemma remove_all_listeners_keeps:
  assumes "emit_keeps em" "wf_state s" "remove_all_listeners em this event s = (r, t)"
  shows "leads {} s t"
proof (cases event)
  case None
  let ?ks = "filter (\<lambda>k. \<not> is_remove_listener_key k) (map fst (filter (\<lambda>(k, items). items \<noteq> []) (resolve_events_from (objects s this))))"
  obtain q s1 where q: "remove_keys em this ?ks s = (q, s1)" by fastforce
  note l = remove_keys_keeps [OF assms(1,2) q]
  show ?thesis
  proof (cases q)
    case (Done x)
    with assms(3) None q have "remove_all_for_key em this (Name ''removeListener'') s1 = (r, t)"
      by (simp add: remove_all_listeners_def Let_def)
    with remove_all_for_key_keeps [OF assms(1) leads_wf [OF l]] l show ?thesis by (blast intro: leads_trans)
  qed (use assms(3) None q l in \<open>auto simp: remove_all_listeners_def Let_def\<close>)
next
  case (Some v)
  with assms show ?thesis
    by (auto simp: remove_all_listeners_def split: outcome.splits intro: leads_refl remove_all_for_key_keeps)
qed

lemma remove_event_listener_keeps:
  assumes em: "emit_keeps em" and wf: "wf_state s" and r: "remove_event_listener em this event f s = (r, t)"
  shows "leads {} s t"
proof -
  let ?ob = "objects s this"
  show ?thesis
  proof (cases "\<exists>k items. from_value event = Done k \<and> map_of (resolve_events_from ?ob) k = Some items \<and> f \<in> callback ` set items")
    case False
    then have "remove_event_listener em this event f s = (case from_value event of Fail e \<Rightarrow> (Fail e, s) | Cut \<Rightarrow> (Cut, s) | Done k \<Rightarrow> (Done True, s))"
      unfolding remove_event_listener_def Let_def by (simp split: outcome.split option.split)
    with r have "t = s" by (simp split: outcome.splits)
    with wf show ?thesis by (simp add: leads_refl)
  next
    case True
    then obtain k items where 2: "from_value event = Done k" "map_of (resolve_events_from ?ob) k = Some items" "f \<in> callback ` set items"
      by blast
    from 2(3) have "\<exists>it \<in> set items. callback it = f" by blast
    from remove_last_split [OF this] obtain a y c where y: "items = a @ y # c" "remove_last (\<lambda>it. callback it = f) items = a @ c"
      by blast
    define s1 where "s1 = set_object this (put_events_from (set_items k (a @ c) (resolve_events_from ?ob)) ?ob) s"
    have rep: "replaces this (is_native (class_of ?ob)) (set_items k (a @ c) (slot s this (is_native (class_of ?ob)))) s s1"
      unfolding s1_def resolve_slot by (rule put_events_from_replaces(1))
    have k1: "map_of (slot s this (is_native (class_of ?ob))) k = Some (a @ y # c)" using 2(2) y(1) by (simp add: resolve_slot)
    have n1: "next_listener_id s1 = next_listener_id s" by (simp add: s1_def set_object_def)
    note l1 = take_out(1) [OF wf k1 rep n1]
    obtain q s2 where q: "em this (V_String ''removeListener'') [A_Event event, A_Function f] False s1 = (q, s2)" by fastforce
    note l2 = emit_keepsD [where em = em, OF em leads_wf [OF l1] q]
    have "(r, t) = (case em this (V_String ''removeListener'') [A_Event event, A_Function f] False s1 of
        (Done _, s2) \<Rightarrow> (Done True, if a @ c = [] \<and> is_native (class_of ?ob) then emit_log (E_Changed this k False) s2 else s2)
      | r \<Rightarrow> r)"
      using r 2(3) unfolding remove_event_listener_def Let_def 2(1,2) y(2) option.case outcome.case s1_def [symmetric] by simp
    then have "t = s2 \<or> t = emit_log (E_Changed this k False) s2"
      unfolding q by (cases q) (simp_all split: if_splits)
    then have "leads {} s2 t" using log_changed(1) [OF leads_wf [OF l2]] leads_refl [OF leads_wf [OF l2]] by auto
    with l1 l2 show ?thesis by (blast intro: leads_trans)
  qed
qed

lemma insert_item_lists:
  assumes "distinct (map fst es)" "\<forall>e \<in> set es. snd e \<noteq> []"
  shows "distinct (map fst (insert_item k it p es))" "\<forall>e \<in> set (insert_item k it p es). snd e \<noteq> []"
    "count_list (ids_in (insert_item k it p es)) i = count_list (ids_in es) i + (if i = item_id it then 1 else 0)"
proof -
  show "distinct (map fst (insert_item k it p es))" "\<forall>e \<in> set (insert_item k it p es). snd e \<noteq> []"
    using assms distinct_set_items [of es k] nonempty_set_items [of es k]
    by (auto simp: insert_item_def map_of_eq_None_iff split: option.splits)
  show "count_list (ids_in (insert_item k it p es)) i = count_list (ids_in es) i + (if i = item_id it then 1 else 0)"
  proof (cases "map_of es k")
    case (Some items)
    with count_set_items [OF Some, of "if p then it # items else items @ [it]" i] show ?thesis
      by (cases p; cases "i = item_id it") (simp_all add: insert_item_def)
  qed (simp add: insert_item_def)
qed

lemma add_event_listener_keeps:
  assumes em: "emit_keeps em" and wf: "wf_state s" and r: "add_event_listener em this event f p once s = (r, t)"
  shows "leads {} s t"
proof -
  obtain q s0 where q: "em this (V_String ''newListener'') [A_Event event, A_Function f] False s = (q, s0)" by fastforce
  note l0 = emit_keepsD [where em = em, OF em wf q]
  show ?thesis
  proof (cases "\<exists>k v. from_value event = Done k \<and> q = Done v")
    case False
    then have "t = s0" using r q by (cases q; cases "from_value event") (simp_all add: add_event_listener_def)
    with l0 show ?thesis by simp
  next
    case True
    then obtain k v where 2: "from_value event = Done k" "q = Done v" by blast
    let ?ob = "objects s0 this"
    let ?it = "\<lparr>item_id = next_listener_id s0, callback = f, once_only = once\<rparr>"
    let ?es = "insert_item k ?it p (resolve_events_from ?ob)"
    define s1 where "s1 = set_object this (put_events_from ?es ?ob) (s0\<lparr>next_listener_id := next_listener_id s0 + 1\<rparr>)"
    have rep: "replaces this (is_native (class_of ?ob)) (insert_item k ?it p (slot s0 this (is_native (class_of ?ob)))) s0 s1"
      unfolding s1_def resolve_slot by (rule put_events_from_replaces(2))
    have l1: "leads {} s0 s1"
    proof (rule grow [OF leads_wf [OF l0] rep])
      let ?sl = "slot s0 this (is_native (class_of ?ob))"
      note sl = wf_slot(1,2) [OF leads_wf [OF l0], of this "is_native (class_of ?ob)"]
      show "next_listener_id s1 = next_listener_id s0 + 1" by (simp add: s1_def set_object_def)
      show "distinct (map fst (insert_item k ?it p ?sl))" "\<forall>e \<in> set (insert_item k ?it p ?sl). snd e \<noteq> []"
        by (rule insert_item_lists [OF sl])+
      show "count_list (ids_in (insert_item k ?it p ?sl)) i = count_list (ids_in ?sl) i + (if i = next_listener_id s0 then 1 else 0)" for i
        using insert_item_lists(3) [OF sl, of k ?it p i] by simp
    qed
    have "t = s1 \<or> t = emit_log (E_Changed this k True) s1"
      using r unfolding add_event_listener_def q Let_def 2 prod.case outcome.case s1_def [symmetric] by (simp split: if_splits)
    then have "leads {} s1 t" using log_changed(1) [OF leads_wf [OF l1]] leads_refl [OF leads_wf [OF l1]] by auto
    with l0 l1 show ?thesis by (blast intro: leads_trans)
  qed
qed

lemma exec_op_keeps:
  assumes "emit_keeps em" "wf_state s" "exec_op em x s = (r, t)"
  shows "leads {} s t"
proof (cases x)
  case (Op_On this event f p once)
  with assms add_event_listener_keeps show ?thesis by (simp add: exec_op_def)
next
  case (Op_Off this event f)
  with assms remove_event_listener_keeps show ?thesis by (simp add: exec_op_def)
next
  case (Op_Emit this event args d)
  with assms(3) have "em this event args d s = (r, t)" by (simp add: exec_op_def)
  with emit_keepsD [where em = em, OF assms(1,2)] show ?thesis .
next
  case (Op_Remove_All this event)
  with assms remove_all_listeners_keeps show ?thesis by (simp add: exec_op_def)
qed

section \<open>Emitting keeps the invariant\<close>

text \<open>Calling one item: it is taken out of the list and marked before it is called.\<close>

lemma prepare_item:
  assumes em: "emit_keeps em" and wf: "wf_state s" and it: "\<not> (once_only it \<and> fired s (item_id it))" "item_id it < next_listener_id s"
    and q: "(if once_only it then remove_listener_by_id em this k (item_id it) True s else (Done True, s)) = (q, s1)"
    and s2: "s2 = (if once_only it then s1\<lparr>fired := (fired s1)(item_id it := True)\<rparr> else s1)"
    and e: "e = E_Call this k it args \<or> e = E_Defer this k it args"
  shows "leads {} s s1" "leads {item_id it} s (emit_log e s2)"
proof -
  have "leads {} s s1 \<and> leads {item_id it} s (emit_log e s2)"
  proof (cases "once_only it")
    case True
    have "once_calls (item_id it) (elog s) = 0" using wf it(1) True by (auto simp: wf_state_def calls_ok_def)
    moreover note remove_listener_by_id_keeps [OF em wf, of this k "item_id it" True q s1]
    ultimately have l1: "leads {} s s1" and z: "once_calls (item_id it) (elog s1) = 0" using q True it(2) by simp_all
    have l2: "leads {} s1 s2" using mark_fired [OF leads_wf [OF l1]] True by (simp add: s2)
    have "leads {item_id it} s2 (emit_log e s2)"
      by (rule log_once [OF leads_wf [OF l2]]) (use True z s2 e it(2) l1 in \<open>auto simp: is_once_call_def leads_def\<close>)
    with l1 l2 show ?thesis by (meson empty_subsetI leads_mono leads_trans)
  next
    case False
    then have "s1 = s" "s2 = s" using q s2 by simp_all
    moreover have "leads {} s (emit_log e s)" by (rule log_other [OF wf]) (use e False in \<open>auto simp: is_once_call_def\<close>)
    ultimately show ?thesis using wf by (meson empty_subsetI leads_mono leads_refl)
  qed
  then show "leads {} s s1" "leads {item_id it} s (emit_log e s2)" by simp_all
qed

lemma emit_items_keeps:
  assumes em: "emit_keeps em" and call: "\<And>f. keeps (cl f)"
  shows "wf_state s \<Longrightarrow> \<forall>it \<in> set its. item_id it < next_listener_id s \<Longrightarrow> emit_items em cl this k args defer its s = (r, t)
    \<Longrightarrow> leads (item_id ` set its) s t"
proof (induction its arbitrary: s)
  case Nil
  then show ?case by (simp add: leads_refl)
next
  case (Cons it its)
  have sub: "item_id ` set its \<subseteq> item_id ` set (it # its)" "{item_id it} \<subseteq> item_id ` set (it # its)" by auto
  show ?case
  proof (cases "once_only it \<and> fired s (item_id it)")
    case True
    then have "emit_items em cl this k args defer its s = (r, t)" using Cons.prems(3) by simp
    moreover have "\<forall>it \<in> set its. item_id it < next_listener_id s" using Cons.prems(2) by simp
    ultimately show ?thesis using Cons.IH [OF Cons.prems(1)] leads_mono [OF _ sub(1)] by blast
  next
    case False
    obtain q s1 where q: "(if once_only it then remove_listener_by_id em this k (item_id it) True s else (Done True, s)) = (q, s1)" by fastforce
    define s2 where "s2 = (if once_only it then s1\<lparr>fired := (fired s1)(item_id it := True)\<rparr> else s1)"
    define e where "e = (if defer then E_Defer this k it args else E_Call this k it args)"
    have e: "e = E_Call this k it args \<or> e = E_Defer this k it args" by (simp add: e_def)
    have id: "item_id it < next_listener_id s" using Cons.prems(2) by simp
    note prep = prepare_item [OF em Cons.prems(1) False id q s2_def e]
    obtain q' s3 where q': "(if defer then (Done True, emit_log e s2) else cl (callback it) (emit_log e s2)) = (q', s3)" by fastforce
    have l3: "leads {} (emit_log e s2) s3"
    proof (cases "defer")
      case True
      with q' leads_refl [OF leads_wf [OF prep(2)]] show ?thesis by simp
    next
      case False
      with q' keepsD [OF call leads_wf [OF prep(2)]] show ?thesis by simp
    qed
    have l: "leads (item_id ` set (it # its)) s s1" "leads (item_id ` set (it # its)) s s3"
      using leads_mono [OF prep(1)] leads_trans [OF leads_mono [OF prep(2) sub(2)] leads_mono [OF l3]] by blast+
    have n: "next_listener_id s \<le> next_listener_id s3" using l(2) by (simp add: leads_def)
    have r: "(r, t) = (case q of Done _ \<Rightarrow> (case q' of Done _ \<Rightarrow> emit_items em cl this k args defer its s3 | _ \<Rightarrow> (q', s3)) | _ \<Rightarrow> (q, s1))"
      using Cons.prems(3) False q' unfolding emit_items.simps q Let_def prod.case s2_def [symmetric] e_def
      by (cases q; cases q'; cases "defer") auto
    show ?thesis
    proof (cases "\<exists>v w. q = Done v \<and> q' = Done w")
      case True
      with r have "emit_items em cl this k args defer its s3 = (r, t)" by auto
      moreover have "\<forall>it \<in> set its. item_id it < next_listener_id s3" using Cons.prems(2) n by auto
      ultimately have "leads (item_id ` set its) s3 t" using Cons.IH [OF leads_wf [OF l(2)]] by blast
      with l(2) show ?thesis by (blast intro: leads_trans leads_mono [OF _ sub(1)])
    next
      case False
      then have "t = s1 \<or> t = s3" using r by (cases q; cases q') simp_all
      with l show ?thesis by blast
    qed
  qed
qed

lemma items_present:
  assumes "map_of (slot s x b) k = Some items" "it \<in> set items"
  shows "present s (item_id it)"
proof -
  have "(k, items) \<in> set (slot s x b)" using assms(1) by (rule map_of_SomeD)
  with assms(2) have "item_id it \<in> set (ids_in (slot s x b))" by (force simp: ids_in_def)
  then show ?thesis unfolding present_def by (metis count_list_0_iff gr0I)
qed


lemma do_emit_keeps:
  assumes "emit_keeps em" "\<And>f. keeps (cl f)"
  shows "emit_keeps (do_emit em cl)"
  unfolding emit_keeps_def keeps_def
proof (intro allI impI)
  fix this event args d s
  assume wf: "wf_state s"
  show "leads {} s (snd (do_emit em cl this event args d s))"
  proof (cases "\<exists>k items. from_value event = Done k \<and> map_of (slot s this (is_native (class_of (objects s this)))) k = Some items")
    case False
    then have "snd (do_emit em cl this event args d s) = s"
      by (simp add: do_emit_def resolve_slot split: outcome.split option.split)
    with wf show ?thesis by (simp add: leads_refl)
  next
    case True
    then obtain k items where k: "from_value event = Done k" "map_of (slot s this (is_native (class_of (objects s this)))) k = Some items" by blast
    note p = items_present [OF k(2)]
    obtain r t where r: "emit_items em cl this k args d items s = (r, t)" by fastforce
    have "leads (item_id ` set items) s t"
      by (rule emit_items_keeps [OF assms wf _ r]) (use p wf_slot(4) [OF wf] in blast)
    moreover have "\<forall>i \<in> item_id ` set items. present s i" using p by blast
    ultimately have "leads {} s t" unfolding leads_def by blast
    with k r show ?thesis by (simp add: do_emit_def resolve_slot)
  qed
qed

lemma emit_call_keeps: "emit_keeps (emit P n) \<and> (\<forall>f. keeps (call P n f))"
proof (induction n)
  case 0
  then show ?case by (simp add: emit_keeps_def keeps_def leads_refl)
next
  case (Suc n)
  then have em: "emit_keeps (emit P n)" and cl: "keeps (call P n f)" for f by auto
  have "emit P (Suc n) = do_emit (emit P n) (call P n)" by (intro ext) simp
  with do_emit_keeps [OF em cl] have "emit_keeps (emit P (Suc n))" by simp
  moreover have "keeps (call P (Suc n) f)" for f
    unfolding keeps_def
  proof (intro allI impI)
    fix s
    assume wf: "wf_state s"
    show "leads {} s (snd (call P (Suc n) f s))"
    proof (cases "P f (elog s)")
      case (Do x)
      obtain r t where r: "exec_op (emit P n) x s = (r, t)" by fastforce
      note l = exec_op_keeps [OF em wf r]
      note l2 = leads_trans [OF l log_changed(2) [OF leads_wf [OF l], of x r]]
      obtain r' u where u: "call P n f (emit_log (E_Returned x r) t) = (r', u)" by fastforce
      note l3 = leads_trans [OF l2 keepsD [OF cl leads_wf [OF l2] u]]
      show ?thesis using l l3 u Do r by (cases r) simp_all
    qed (use wf in \<open>simp_all add: leads_refl\<close>)
  qed
  ultimately show ?case by blast
qed

lemma init_wf: "wf_state (init_state c)"
  by (simp add: wf_state_def lists_ok_def apart_def calls_ok_def init_state_def slot_def present_def once_calls_def)

section \<open>Quiet listeners\<close>


definition unheard :: "string \<Rightarrow> nat \<Rightarrow> estate \<Rightarrow> bool" where
  "unheard name this s \<longleftrightarrow> map_of (resolve_events_from (objects s this)) (Name name) = None"

lemma emit_unheard: "unheard name this s \<Longrightarrow> emit P (Suc n) this (V_String name) args d s = (Done False, s)"
  by (simp add: do_emit_def from_value_def unheard_def)

definition called :: "eevent list \<Rightarrow> eevent list" where
  "called l = filter (\<lambda>e. case e of E_Call _ _ _ _ \<Rightarrow> True | E_Defer _ _ _ _ \<Rightarrow> True | _ \<Rightarrow> False) l"

lemma called_simps [simp]: "called (l @ [E_Call x k it a]) = called l @ [E_Call x k it a]" "called (l @ [E_Changed x k b]) = called l"
  by (simp_all add: called_def)






lemma insert_then_remove:
  assumes "\<forall>e \<in> set es. snd e \<noteq> []"
  obtains items where "map_of (insert_item k it False es) k = Some (items @ [it])" "set_items k items (insert_item k it False es) = es"
proof (cases "map_of es k")
  case None
  then have "map_of (es @ [(k, [it])]) k = Some ([] @ [it])" "set_items k [] (es @ [(k, [it])]) = es"
    by (induction es) (auto split: if_splits)
  with None that show thesis by (simp add: insert_item_def)
next
  case (Some items)
  have "map_of (set_items k (items @ [it]) es) k = Some (items @ [it]) \<and> set_items k items (set_items k (items @ [it]) es) = es"
    if "items \<noteq> []" using Some that by (induction es) (auto split: if_splits)
  moreover have "items \<noteq> []" using assms map_of_SomeD [OF Some] by auto
  ultimately show thesis using that Some by (simp add: insert_item_def)
qed

section \<open>Properties\<close>

text \<open>C32: A listener added with \<open>once\<close> is called, or scheduled, at most once. This holds at every point of every
  execution, whatever the listeners do: add, remove and emit again from inside an event, or throw.
\<close>

theorem once_at_most_once:
  "once_calls i (elog (snd (call P n f (init_state c)))) \<le> 1"
proof -
  have "leads {} (init_state c) (snd (call P n f (init_state c)))"
    using emit_call_keeps [of P n] init_wf unfolding keeps_def by blast
  then show ?thesis by (simp add: leads_def wf_state_def calls_ok_def)
qed


definition two_listeners :: estate where
  "two_listeners = \<lparr>objects = (\<lambda>_. \<lparr>class_of = C_EventEmitter, own = [], hidden = []\<rparr>)
     (0 := \<lparr>class_of = C_EventEmitter, own = [(Name ''x'', [\<lparr>item_id = 1, callback = 10, once_only = True\<rparr>, \<lparr>item_id = 2, callback = 11, once_only = False\<rparr>])], hidden = []\<rparr>),
     next_listener_id = 3, fired = \<lambda>_. False, elog = []\<rparr>"

lemma two_listeners_wf: "wf_state two_listeners"
proof -
  have "slot two_listeners = (\<lambda>x b. if x = 0 \<and> b then own (objects two_listeners 0) else [])"
    by (auto simp: slot_def two_listeners_def fun_eq_iff)
  then show ?thesis
    by (auto simp: wf_state_def lists_ok_def apart_def calls_ok_def present_def once_calls_def)
      (auto simp: two_listeners_def split: if_splits)
qed


text \<open>C34: \<open>off\<close> undoes \<open>on\<close> and \<open>once\<close>: when nobody listens for additions and removals, adding a listener and removing
  the same function gives back the list as it was, in its order, also if the function was in it before. No listener is
  called.
\<close>

theorem on_off_restores:
  assumes "from_value event = Done k" "wf_state s" "unheard ''newListener'' this s" "unheard ''removeListener'' this s"
  shows "\<exists>s1 s2. add_event_listener (emit P (Suc n)) this event f False once s = (Done True, s1)
    \<and> remove_event_listener (emit P (Suc n)) this event f s1 = (Done True, s2)
    \<and> resolve_events_from (objects s2 this) = resolve_events_from (objects s this) \<and> called (elog s2) = called (elog s)"
proof -
  let ?es = "resolve_events_from (objects s this)"
  let ?it = "\<lparr>item_id = next_listener_id s, callback = f, once_only = once\<rparr>"
  let ?es1 = "insert_item k ?it False ?es"
  have put: "resolve_events_from (put_events_from es ob) = es" "class_of (put_events_from es ob) = class_of ob" for es ob
    by (simp_all add: resolve_events_from_def put_events_from_def resolve_events_def put_events_def)
  obtain items where items: "map_of ?es1 k = Some (items @ [?it])" "set_items k items ?es1 = ?es"
    by (rule insert_then_remove [of ?es k ?it]) (use wf_slot(2) [OF assms(2)] in \<open>simp add: resolve_slot\<close>)
  have rl: "remove_last (\<lambda>it. callback it = f) (items @ [?it]) = items" by (simp add: remove_last_def)
  define s1 where "s1 = snd (add_event_listener (emit P (Suc n)) this event f False once s)"
  have add: "add_event_listener (emit P (Suc n)) this event f False once s = (Done True, s1)"
    and o1: "objects s1 this = put_events_from ?es1 (objects s this)" and c1: "called (elog s1) = called (elog s)"
    using emit_unheard [OF assms(3)] assms(1)
    by (simp_all add: s1_def add_event_listener_def Let_def set_object_def del: emit.simps)
  let ?s2 = "set_object this (put_events_from ?es (objects s1 this)) s1"
  have o2: "resolve_events_from (objects ?s2 this) = ?es" by (simp add: set_object_def put)
  have un: "unheard ''removeListener'' this ?s2" using assms(4) o2 by (simp add: unheard_def)
  have "\<exists>s2. remove_event_listener (emit P (Suc n)) this event f s1 = (Done True, s2)
      \<and> objects s2 = objects ?s2 \<and> called (elog s2) = called (elog s1)"
    using emit_unheard [OF un] assms(1) items rl o1
    by (simp add: remove_event_listener_def Let_def put del: emit.simps) (simp add: set_object_def)
  with add o2 c1 show ?thesis by metis
qed

theorem on_off_restores_witness:
  "\<exists>s1 s2. add_event_listener (emit (\<lambda>_ _. Return) 1) 0 (V_String ''x'') 11 False True two_listeners = (Done True, s1)
    \<and> remove_event_listener (emit (\<lambda>_ _. Return) 1) 0 (V_String ''x'') 11 s1 = (Done True, s2)
    \<and> resolve_events_from (objects s2 0) = resolve_events_from (objects two_listeners 0)"
proof -
  have "unheard ''newListener'' 0 two_listeners" "unheard ''removeListener'' 0 two_listeners" "from_value (V_String ''x'') = Done (Name ''x'')"
    by (simp_all add: two_listeners_def unheard_def resolve_events_from_def is_native_def from_value_def)
  with on_off_restores [OF this(3) two_listeners_wf this(1,2), of "\<lambda>_ _. Return" 0 11 True] show ?thesis
    by (simp del: emit.simps) blast
qed

section \<open>Where the code goes wrong\<close>

text \<open>
  On an object of another native class (a socket, a child process, an abort signal) the listeners are in its own list,
  but the helpers that remove by number look behind the hidden property. So \<open>removeAllListeners\<close> removes nothing.
\<close>

lemma native_remove_all_does_nothing:
  assumes "class_of (objects s this) = C_Native" "hidden (objects s this) = []"
  shows "remove_all_listeners em this None s = (Done True, s)"
proof -
  have "remove_all_for_key em this k s = (Done True, s)" for k
    using assms by (simp add: remove_all_for_key_def resolve_events_def is_base_def)
  moreover from this have "remove_keys em this ks s = (Done True, s)" for ks by (induction ks) simp_all
  ultimately show ?thesis by (simp add: remove_all_listeners_def Let_def)
qed

text \<open>For the same reason a \<open>once\<close> listener of such an object stays in the list after its call.\<close>

definition one_native :: estate where
  "one_native = \<lparr>objects = \<lambda>_. \<lparr>class_of = C_Native, own = [(Name ''x'', [\<lparr>item_id = 1, callback = 10, once_only = True\<rparr>])], hidden = []\<rparr>,
     next_listener_id = 2, fired = \<lambda>_. False, elog = []\<rparr>"

lemma native_once_stays:
  "let s = snd (emit (\<lambda>_ _. Return) 2 0 (V_String ''x'') [] False one_native)
   in called (elog s) = [E_Call 0 (Name ''x'') \<lparr>item_id = 1, callback = 10, once_only = True\<rparr> []]
     \<and> listener_count 0 (V_String ''x'') s = Done 1
     \<and> emit (\<lambda>_ _. Return) 2 0 (V_String ''x'') [] False s = (Done True, s)"
  by (simp add: numeral_2_eq_2 one_native_def do_emit_def from_value_def resolve_events_from_def is_native_def
      remove_listener_by_id_def resolve_events_def is_base_def emit_log_def called_def listener_count_def)

text \<open>An \<open>error\<close> event that nobody listens for is dropped; Node throws the error.\<close>

lemma error_event_dropped: "unheard ''error'' this s \<Longrightarrow> emit P (Suc n) this (V_String ''error'') args False s = (Done False, s)"
  by (rule emit_unheard)

end
