(* ===== verification/Event_Iterator.thy ===== *)
theory Event_Iterator
  imports Raster_Prelude
begin

text \<open>
  The asynchronous iterator of \<open>EventEmitter.on\<close>, in the JavaScript text of \<open>raster_runtime_events/src/lib.rs\<close>: a queue of
  events that nobody has asked for and a queue of calls of \<open>next\<close> that wait. A promise is the number of the call that
  returned it, and the arguments of an event are a number. An error is any thrown value, of which the code asks whether
  JavaScript takes it for true. The emitter, which has \<open>off\<close> or \<open>removeListener\<close>, is outside: the
  calls of its \<open>pause\<close>, \<open>resume\<close>, \<open>on\<close> and \<open>off\<close> are in the log, and a \<open>pause\<close>, \<open>resume\<close> or \<open>off\<close> that emits events before it returns is not described.
\<close>

section \<open>State\<close>

datatype thrown = Falsy | Thrown nat | AbortError

datatype settlement = S_Value nat | S_Done | S_Reject thrown

datatype listener = OnData | OnError | OnClose | OnAbort

datatype ievent = I_Settle nat settlement | I_Pause | I_Resume | I_Listen string listener | I_Unlisten string listener

record iter =
  queue :: "nat list"
  waiters :: "nat list"
  finished :: bool
  iter_error :: thrown
  paused :: bool
  highWaterMark :: nat
  lowWaterMark :: nat
  can_pause :: bool
  can_resume :: bool
  event_name :: string
  closes :: "string list"
  has_signal :: bool
  issued :: nat
  ilog :: "ievent list"

definition ilog_add :: "ievent list \<Rightarrow> iter \<Rightarrow> iter" where
  "ilog_add es s = s\<lparr>ilog := ilog s @ es\<rparr>"

text \<open>A watermark option is missing (undefined or null), a number that is an integer, or any other value.\<close>

datatype watermark = W_Missing | W_Int int | W_Other

definition nullish :: "watermark \<Rightarrow> watermark \<Rightarrow> watermark" where
  "nullish a b = (if a = W_Missing then b else a)"

definition validatePositiveInteger :: "watermark \<Rightarrow> nat option" where
  "validatePositiveInteger v = (case v of W_Int n \<Rightarrow> if n < 1 then None else Some (nat n) | _ \<Rightarrow> None)"

text \<open>
  The call of \<open>on\<close> once the emitter, the options object, the signal and the list of closing events have passed the checks of
  their types: \<open>None\<close> is a \<open>TypeError\<close> for a watermark. The two spellings of each option come in the order in which
  they are tried.
\<close>

definition MAX_SAFE_INTEGER :: int where
  "MAX_SAFE_INTEGER = 2 ^ 53 - 1"

definition iter_on :: "string \<Rightarrow> string list \<Rightarrow> bool \<Rightarrow> watermark \<times> watermark \<Rightarrow> watermark \<times> watermark \<Rightarrow> bool \<Rightarrow> bool \<Rightarrow> iter option" where
  "iter_on ev cs sg hw lw p r =
     (case validatePositiveInteger (nullish (fst hw) (nullish (snd hw) (W_Int MAX_SAFE_INTEGER))) of
        None \<Rightarrow> None
      | Some h \<Rightarrow>
          (case validatePositiveInteger (nullish (fst lw) (nullish (snd lw) (W_Int 1))) of
             None \<Rightarrow> None
           | Some l \<Rightarrow>
               Some \<lparr>queue = [], waiters = [], finished = False, iter_error = Falsy, paused = False, highWaterMark = h, lowWaterMark = l,
                 can_pause = p, can_resume = r, event_name = ev, closes = cs, has_signal = sg, issued = 0,
                 ilog = [I_Listen ev OnData] @ (if ev \<noteq> ''error'' then [I_Listen ''error'' OnError] else [])
                   @ map (\<lambda>c. I_Listen c OnClose) cs @ (if sg then [I_Listen ''abort'' OnAbort] else [])\<rparr>))"

section \<open>Operations\<close>

definition maybePause :: "iter \<Rightarrow> iter" where
  "maybePause s = (if \<not> paused s \<and> highWaterMark s \<le> length (queue s) \<and> can_pause s then ilog_add [I_Pause] (s\<lparr>paused := True\<rparr>) else s)"

definition maybeResume :: "iter \<Rightarrow> iter" where
  "maybeResume s = (if paused s \<and> length (queue s) \<le> lowWaterMark s \<and> can_resume s then ilog_add [I_Resume] (s\<lparr>paused := False\<rparr>) else s)"

definition rejectAll :: "thrown \<Rightarrow> iter \<Rightarrow> iter" where
  "rejectAll e s = ilog_add (map (\<lambda>p. I_Settle p (S_Reject e)) (waiters s)) (s\<lparr>waiters := []\<rparr>)"

definition resolveAllDone :: "iter \<Rightarrow> iter" where
  "resolveAllDone s = ilog_add (map (\<lambda>p. I_Settle p S_Done) (waiters s)) (s\<lparr>waiters := []\<rparr>)"

definition cleanup :: "iter \<Rightarrow> iter" where
  "cleanup s =
     ilog_add ([I_Unlisten (event_name s) OnData, I_Unlisten ''error'' OnError] @ map (\<lambda>c. I_Unlisten c OnClose) (closes s)
       @ (if has_signal s then [I_Unlisten ''abort'' OnAbort] else [])) s"

definition onData :: "nat \<Rightarrow> iter \<Rightarrow> iter" where
  "onData v s =
     (if finished s then s
      else case waiters s of
          w # ws \<Rightarrow> ilog_add [I_Settle w (S_Value v)] (s\<lparr>waiters := ws\<rparr>)
        | [] \<Rightarrow> maybePause (s\<lparr>queue := queue s @ [v]\<rparr>))"

definition onError :: "thrown \<Rightarrow> iter \<Rightarrow> iter" where
  "onError e s =
     (if finished s then s
      else rejectAll e ((cleanup (s\<lparr>iter_error := e, finished := True\<rparr>))\<lparr>paused := False\<rparr>))"

definition onClose :: "iter \<Rightarrow> iter" where
  "onClose s = (if finished s then s else resolveAllDone ((cleanup (s\<lparr>finished := True\<rparr>))\<lparr>paused := False\<rparr>))"

definition onAbort :: "iter \<Rightarrow> iter" where
  "onAbort s =
     (if finished s then s
      else rejectAll AbortError ((cleanup (s\<lparr>iter_error := AbortError, finished := True\<rparr>))\<lparr>paused := False\<rparr>))"

text \<open>Every call of \<open>next\<close> returns a new promise, which may be settled at once.\<close>

definition iter_next :: "iter \<Rightarrow> iter" where
  "iter_next s =
     (let p = issued s; s = s\<lparr>issued := p + 1\<rparr>
      in if iter_error s \<noteq> Falsy then ilog_add [I_Settle p (S_Reject (iter_error s))] s
         else case queue s of
             v # vs \<Rightarrow> ilog_add [I_Settle p (S_Value v)] (maybeResume (s\<lparr>queue := vs\<rparr>))
           | [] \<Rightarrow>
               if finished s then ilog_add [I_Settle p S_Done] s
               else s\<lparr>waiters := waiters s @ [p]\<rparr>)"

definition iter_return :: "iter \<Rightarrow> iter" where
  "iter_return s =
     (let p = issued s; s = s\<lparr>issued := p + 1\<rparr>;
          s = (if finished s then s else resolveAllDone ((cleanup (s\<lparr>finished := True\<rparr>))\<lparr>paused := False\<rparr>))
      in ilog_add [I_Settle p S_Done] s)"

definition iter_throw :: "thrown \<Rightarrow> iter \<Rightarrow> iter" where
  "iter_throw e s =
     (let p = issued s; s = s\<lparr>issued := p + 1\<rparr>;
          s = (if finished s then s else (cleanup (s\<lparr>finished := True\<rparr>))\<lparr>paused := False\<rparr>)
      in ilog_add [I_Settle p (S_Reject e)] (rejectAll e (s\<lparr>iter_error := e\<rparr>)))"

datatype iop = Data nat | Error thrown | Close | Abort | Next | Ret | Throw thrown

definition iexec :: "iop \<Rightarrow> iter \<Rightarrow> iter" where
  "iexec x s = (case x of
     Data v \<Rightarrow> onData v s
   | Error e \<Rightarrow> onError e s
   | Close \<Rightarrow> onClose s
   | Abort \<Rightarrow> onAbort s
   | Next \<Rightarrow> iter_next s
   | Ret \<Rightarrow> iter_return s
   | Throw e \<Rightarrow> iter_throw e s)"

definition iruns :: "iop list \<Rightarrow> iter \<Rightarrow> iter" where
  "iruns xs s = foldl (\<lambda>s x. iexec x s) s xs"

section \<open>The contract\<close>

definition settled :: "iter \<Rightarrow> nat list" where
  "settled s = concat (map (\<lambda>e. case e of I_Settle p _ \<Rightarrow> [p] | _ \<Rightarrow> []) (ilog s))"

definition delivered :: "iter \<Rightarrow> nat list" where
  "delivered s = concat (map (\<lambda>e. case e of I_Settle _ (S_Value v) \<Rightarrow> [v] | _ \<Rightarrow> []) (ilog s))"

lemma ilog_add_simps [simp]:
  "queue (ilog_add es s) = queue s" "waiters (ilog_add es s) = waiters s" "finished (ilog_add es s) = finished s"
  "iter_error (ilog_add es s) = iter_error s" "paused (ilog_add es s) = paused s" "issued (ilog_add es s) = issued s"
  "ilog (ilog_add es s) = ilog s @ es" "highWaterMark (ilog_add es s) = highWaterMark s" "lowWaterMark (ilog_add es s) = lowWaterMark s"
  "can_pause (ilog_add es s) = can_pause s" "can_resume (ilog_add es s) = can_resume s"
  by (simp_all add: ilog_add_def)

lemma pause_simps [simp]:
  "queue (maybePause s) = queue s" "waiters (maybePause s) = waiters s" "finished (maybePause s) = finished s"
  "issued (maybePause s) = issued s" "iter_error (maybePause s) = iter_error s" "iter_error (maybeResume s) = iter_error s" "settled (maybePause s) = settled s" "delivered (maybePause s) = delivered s"
  "queue (maybeResume s) = queue s" "waiters (maybeResume s) = waiters s" "finished (maybeResume s) = finished s"
  "issued (maybeResume s) = issued s" "settled (maybeResume s) = settled s" "delivered (maybeResume s) = delivered s"
  by (simp_all add: maybePause_def maybeResume_def settled_def delivered_def)

lemma settled_add [simp]:
  "settled (ilog_add es s) = settled s @ concat (map (\<lambda>e. case e of I_Settle p _ \<Rightarrow> [p] | _ \<Rightarrow> []) es)"
  "delivered (ilog_add es s) = delivered s @ concat (map (\<lambda>e. case e of I_Settle _ (S_Value v) \<Rightarrow> [v] | _ \<Rightarrow> []) es)"
  by (simp_all add: settled_def delivered_def)

lemma settled_update [simp]:
  "settled (s\<lparr>queue := q\<rparr>) = settled s" "settled (s\<lparr>waiters := w\<rparr>) = settled s" "settled (s\<lparr>finished := f\<rparr>) = settled s"
  "settled (s\<lparr>iter_error := e\<rparr>) = settled s" "settled (s\<lparr>paused := p\<rparr>) = settled s" "settled (s\<lparr>issued := n\<rparr>) = settled s"
  "delivered (s\<lparr>queue := q\<rparr>) = delivered s" "delivered (s\<lparr>waiters := w\<rparr>) = delivered s" "delivered (s\<lparr>finished := f\<rparr>) = delivered s"
  "delivered (s\<lparr>iter_error := e\<rparr>) = delivered s" "delivered (s\<lparr>paused := p\<rparr>) = delivered s" "delivered (s\<lparr>issued := n\<rparr>) = delivered s"
  by (simp_all add: settled_def delivered_def)

text \<open>
  Of the calls so far the settled ones are those that do not wait, each settled once and in the order of the calls;
  nobody waits while events are queued or after the end; the events handed out and the queued ones are all that came.
\<close>

definition iter_ok :: "nat list \<Rightarrow> iter \<Rightarrow> bool" where
  "iter_ok ds s \<longleftrightarrow>
     settled s @ waiters s = [0..<issued s] \<and> (queue s = [] \<or> waiters s = []) \<and> (finished s \<longrightarrow> waiters s = [])
     \<and> (iter_error s \<noteq> Falsy \<longrightarrow> finished s) \<and> delivered s @ queue s = ds"

fun ending :: "iop \<Rightarrow> bool" where
  "ending (Data v) = False"
| "ending Next = False"
| "ending _ = True"

definition arrivals :: "iop list \<Rightarrow> nat list" where
  "arrivals xs = concat (map (\<lambda>x. case x of Data v \<Rightarrow> [v] | _ \<Rightarrow> []) xs)"

definition accepted :: "iop list \<Rightarrow> nat list" where
  "accepted xs = arrivals (takeWhile (Not \<circ> ending) xs)"

lemma concat_settle [simp]:
  "concat (map ((\<lambda>e. case e of I_Settle p _ \<Rightarrow> [p] | _ \<Rightarrow> []) \<circ> (\<lambda>p. I_Settle p x)) ps) = ps"
  "concat (map ((\<lambda>e. case e of I_Settle _ (S_Value v) \<Rightarrow> [v] | _ \<Rightarrow> []) \<circ> (\<lambda>p. I_Settle p (S_Reject e))) ps) = []"
  "concat (map ((\<lambda>e. case e of I_Settle _ (S_Value v) \<Rightarrow> [v] | _ \<Rightarrow> []) \<circ> (\<lambda>p. I_Settle p S_Done)) ps) = []"
  by (induction ps) simp_all

lemma concat_unsettled [simp]:
  "concat (map ((\<lambda>e. case e of I_Settle p _ \<Rightarrow> [p] | _ \<Rightarrow> []) \<circ> (\<lambda>c. I_Unlisten c l)) cs) = []"
  "concat (map ((\<lambda>e. case e of I_Settle _ (S_Value v) \<Rightarrow> [v] | _ \<Rightarrow> []) \<circ> (\<lambda>c. I_Unlisten c l)) cs) = []"
  "concat (map ((\<lambda>e. case e of I_Settle p _ \<Rightarrow> [p] | _ \<Rightarrow> []) \<circ> (\<lambda>c. I_Listen c l)) cs) = []"
  "concat (map ((\<lambda>e. case e of I_Settle _ (S_Value v) \<Rightarrow> [v] | _ \<Rightarrow> []) \<circ> (\<lambda>c. I_Listen c l)) cs) = []"
  by (induction cs) simp_all

lemma cleanup_simps [simp]:
  "queue (cleanup s) = queue s" "waiters (cleanup s) = waiters s" "finished (cleanup s) = finished s" "issued (cleanup s) = issued s"
  "iter_error (cleanup s) = iter_error s" "settled (cleanup s) = settled s" "delivered (cleanup s) = delivered s"
  by (simp_all add: cleanup_def)

definition accepts :: "iop \<Rightarrow> iter \<Rightarrow> nat list" where
  "accepts x s = (if finished s then [] else arrivals [x])"

lemmas ending_defs = onError_def onClose_def onAbort_def iter_return_def iter_throw_def rejectAll_def resolveAllDone_def

lemma iexec_ok:
  assumes "iter_ok ds s"
  shows "iter_ok (ds @ accepts x s) (iexec x s)"
proof (cases x)
  case (Data v)
  with assms show ?thesis
    by (cases "waiters s") (auto simp: iexec_def onData_def accepts_def arrivals_def iter_ok_def)
next
  case Next
  with assms show ?thesis
    by (cases "queue s") (auto simp: iexec_def iter_next_def accepts_def arrivals_def iter_ok_def Let_def)
qed (use assms in \<open>auto simp: iexec_def ending_defs accepts_def arrivals_def iter_ok_def Let_def\<close>)

lemma iexec_finished: "finished (iexec x s) \<longleftrightarrow> finished s \<or> ending x"
  by (cases x) (auto simp: iexec_def ending_defs onData_def iter_next_def Let_def split: list.split)

lemma iruns_ok: "iter_ok ds s \<Longrightarrow> iter_ok (ds @ (if finished s then [] else accepted xs)) (iruns xs s)"
proof (induction xs arbitrary: ds s)
  case (Cons x xs)
  have "iter_ok ((ds @ accepts x s) @ (if finished (iexec x s) then [] else accepted xs)) (iruns xs (iexec x s))"
    by (rule Cons.IH) (rule iexec_ok [OF Cons.prems])
  moreover have "accepts x s @ (if finished (iexec x s) then [] else accepted xs) = (if finished s then [] else accepted (x # xs))"
    by (cases x) (auto simp: iexec_finished accepts_def accepted_def arrivals_def)
  ultimately show ?case
    by (simp add: iruns_def)
qed (simp add: iruns_def accepted_def arrivals_def)

lemma iter_on_ok: "iter_on ev cs sg hw lw p r = Some s \<Longrightarrow> iter_ok [] s \<and> \<not> finished s"
  by (auto simp: iter_on_def iter_ok_def settled_def delivered_def split: option.splits)

text \<open>C35: whatever events, errors, closings, aborts and calls of \<open>next\<close>, \<open>return\<close> and \<open>throw\<close> an iterator of \<open>EventEmitter.on\<close> sees, in any
  order, the promises it returned are settled at most once and in the order of the calls, with none of them waiting after
  the end; and the events that arrived before the end are handed out in the order of their arrival, with exactly the
  ones that are still queued left over, so none is dropped from the queue or handed out twice, whatever the
  watermarks are.\<close>

theorem iterator_in_order:
  assumes "iter_on ev cs sg hw lw p r = Some s"
  shows "settled (iruns xs s) @ waiters (iruns xs s) = [0..<issued (iruns xs s)]
    \<and> delivered (iruns xs s) @ queue (iruns xs s) = accepted xs
    \<and> (finished (iruns xs s) \<or> queue (iruns xs s) \<noteq> [] \<longrightarrow> waiters (iruns xs s) = [])"
  using iruns_ok [of "[]" s xs] iter_on_ok [OF assms] by (auto simp: iter_ok_def)

definition witness_iter :: iter where
  "witness_iter = the (iter_on ''data'' [''end''] False (W_Missing, W_Int 2) (W_Missing, W_Missing) True True)"

theorem iterator_in_order_witness:
  "delivered (iruns [Data 5, Data 6, Next, Next, Next, Data 7, Close, Data 8] witness_iter)
     @ queue (iruns [Data 5, Data 6, Next, Next, Next, Data 7, Close, Data 8] witness_iter) = [5, 6, 7]"
proof -
  have "iter_on ''data'' [''end''] False (W_Missing, W_Int 2) (W_Missing, W_Missing) True True = Some witness_iter"
    by (simp add: witness_iter_def iter_on_def validatePositiveInteger_def nullish_def)
  from iterator_in_order [OF this, of "[Data 5, Data 6, Next, Next, Next, Data 7, Close, Data 8]"] show ?thesis
    by (simp add: accepted_def arrivals_def)
qed

text \<open>An error hides the events that were queued before it, at every later call of \<open>next\<close>.\<close>

lemma iterator_error_hides_queue:
  assumes "\<not> finished s" "e \<noteq> Falsy" "queue s = v # vs"
  shows "ilog (iter_next (onError e s)) = ilog (onError e s) @ [I_Settle (issued s) (S_Reject e)] \<and> queue (iter_next (onError e s)) = v # vs"
  using assms by (simp add: iter_next_def onError_def rejectAll_def Let_def)

end
