(* ===== verification/Byte_Queue.thy ===== *)
theory Byte_Queue
  imports Raster_Prelude
begin

text \<open>
  The byte queue between a task that reads from a socket or a pipe and the stream that hands the bytes to JavaScript,
  \<open>raster_runtime_utils/src/bytearray_buffer.rs\<close>. The tasks of a runtime share one thread, so what runs between two
  \<open>await\<close>s is one step. The growth of the ring buffer is a parameter: \<open>grow c m\<close> is its capacity after it had the
  capacity \<open>c\<close> and needed room for \<open>m\<close> bytes, of which the documentation of \<open>VecDeque\<close> says only that it is at least
  \<open>m\<close>. The permit of \<open>Notify\<close> is kept; the one of the write semaphore is not, because \<open>let _ =\<close> drops it at once.
\<close>

section \<open>State\<close>

record bqueue =
  inner :: "nat list"
  capacity :: nat
  max_capacity :: nat
  qlen :: nat
  closed :: bool
  permit :: bool

type_synonym growth = "nat \<Rightarrow> nat \<Rightarrow> nat"

definition enough :: "growth \<Rightarrow> bool" where
  "enough grow \<longleftrightarrow> (\<forall>c m. m \<le> grow c m)"

definition reserve :: "growth \<Rightarrow> nat \<Rightarrow> bqueue \<Rightarrow> bqueue" where
  "reserve grow n s =
     (if length (inner s) + n \<le> capacity s then s else s\<lparr>capacity := grow (capacity s) (length (inner s) + n)\<rparr>)"

definition extend :: "growth \<Rightarrow> nat list \<Rightarrow> bqueue \<Rightarrow> bqueue" where
  "extend grow bs s = (reserve grow (length bs) s)\<lparr>inner := inner s @ bs\<rparr>"

definition notify_one :: "bqueue \<Rightarrow> bqueue" where
  "notify_one s = s\<lparr>permit := True\<rparr>"

definition bq_new :: "growth \<Rightarrow> nat \<Rightarrow> bqueue" where
  "bq_new grow n = (let c = grow 0 n in \<lparr>inner = [], capacity = c, max_capacity = c, qlen = 0, closed = False, permit = False\<rparr>)"

definition bq_is_empty :: "bqueue \<Rightarrow> bool" where
  "bq_is_empty s \<longleftrightarrow> qlen s = 0"

section \<open>Operations\<close>

definition write_forced :: "growth \<Rightarrow> nat list \<Rightarrow> bqueue \<Rightarrow> bqueue" where
  "write_forced grow item s =
     (let s = extend grow item s in s\<lparr>qlen := qlen s + length item, max_capacity := capacity s\<rparr>)"

text \<open>One turn of the loop of \<open>write\<close>: the value it returns, or \<open>None\<close> when it waits to be notified, and the next index.\<close>

definition write_turn :: "growth \<Rightarrow> nat list \<Rightarrow> nat \<Rightarrow> bqueue \<Rightarrow> (unit, nat option \<times> nat \<times> bqueue) res" where
  "write_turn grow item slice_index s =
     (if closed s then Ok (Some (max_capacity s), slice_index, s)
      else
        rbind (or_panic (usub (max_capacity s) (qlen s))) (\<lambda>available.
          if available > 0 then
            rbind (or_panic (usub (length item) 1)) (\<lambda>final_index.
              let end_index = min final_index (slice_index + available - 1)
              in rbind (or_panic (slice item slice_index (end_index + 1))) (\<lambda>sub_slice.
                   let slice_index = slice_index + length sub_slice;
                       s = extend grow sub_slice s;
                       s = s\<lparr>qlen := qlen s + length sub_slice\<rparr>
                   in Ok (if slice_index = length item then Some (max_capacity s) else None, slice_index, s)))
          else Ok (None, slice_index, s)))"

text \<open>One turn of the loop of \<open>write_consuming\<close>, with what is left of \<open>item\<close>.\<close>

definition consume_turn :: "growth \<Rightarrow> nat list \<Rightarrow> bqueue \<Rightarrow> nat option \<times> nat list \<times> bqueue" where
  "consume_turn grow item s =
     (if closed s then (Some (max_capacity s), item, s)
      else if item = [] then (Some (max_capacity s), item, s)
      else
        let available = max_capacity s - qlen s
        in if available > 0 then
             let n = min (length item) available; chunk = take n item; item = drop n item;
                 s = extend grow chunk s;
                 s = s\<lparr>qlen := qlen s + length chunk\<rparr>
             in (if item = [] then Some (max_capacity s) else None, item, s)
           else (None, item, s))"

definition bq_close :: "bqueue \<Rightarrow> bqueue" where
  "bq_close s = notify_one (s\<lparr>closed := True\<rparr>)"

definition bq_clear :: "bqueue \<Rightarrow> bqueue" where
  "bq_clear s = (notify_one (s\<lparr>closed := False\<rparr>))\<lparr>qlen := 0, inner := [], closed := False\<rparr>"

definition bq_read :: "growth \<Rightarrow> nat option \<Rightarrow> bqueue \<Rightarrow> (unit, nat list option \<times> bqueue) res" where
  "bq_read grow desired_size s =
     (let drain_all = notify_one (s\<lparr>inner := [], qlen := 0\<rparr>)
      in if closed s then Ok (Some (inner s), drain_all)
         else case desired_size of
             None \<Rightarrow> Ok (Some (inner s), drain_all)
           | Some desired_len \<Rightarrow>
               if desired_len > max_capacity s then
                 let diff = desired_len - max_capacity s;
                     s1 = reserve grow (diff - 1) s;
                     s2 = (if desired_len > capacity s1 then reserve grow (desired_len - capacity s1) s1 else s1)
                 in Ok (None, notify_one (s2\<lparr>max_capacity := capacity s2\<rparr>))
               else if desired_len > qlen s then Ok (None, notify_one s)
               else
                 rbind (or_panic (slice (inner s) 0 desired_len)) (\<lambda>items.
                   let rest = drop desired_len (inner s)
                   in Ok (Some items, notify_one (s\<lparr>inner := rest, qlen := length rest\<rparr>))))"

section \<open>The invariant\<close>

definition bq_ok :: "bqueue \<Rightarrow> bool" where
  "bq_ok s \<longleftrightarrow> qlen s = length (inner s) \<and> qlen s \<le> max_capacity s \<and> max_capacity s = capacity s"

lemma reserve_simps [simp]:
  "inner (reserve grow n s) = inner s" "max_capacity (reserve grow n s) = max_capacity s" "qlen (reserve grow n s) = qlen s"
  "closed (reserve grow n s) = closed s" "permit (reserve grow n s) = permit s"
  by (simp_all add: reserve_def)

lemma notify_simps [simp]:
  "inner (notify_one s) = inner s" "max_capacity (notify_one s) = max_capacity s" "qlen (notify_one s) = qlen s"
  "closed (notify_one s) = closed s" "capacity (notify_one s) = capacity s" "permit (notify_one s)"
  by (simp_all add: notify_one_def)

lemma extend_simps [simp]:
  "inner (extend grow bs s) = inner s @ bs" "max_capacity (extend grow bs s) = max_capacity s" "qlen (extend grow bs s) = qlen s"
  "closed (extend grow bs s) = closed s" "permit (extend grow bs s) = permit s"
  "capacity (extend grow bs s) = capacity (reserve grow (length bs) s)"
  by (simp_all add: extend_def)

lemma capacity_reserve:
  "enough grow \<Longrightarrow> length (inner s) + n \<le> capacity (reserve grow n s)"
  "length (inner s) + n \<le> capacity s \<Longrightarrow> capacity (reserve grow n s) = capacity s"
  by (auto simp: reserve_def enough_def)

lemma bq_new_ok: "bq_ok (bq_new grow n)"
  by (simp add: bq_new_def bq_ok_def Let_def)

lemma write_forced_ok: "enough grow \<Longrightarrow> bq_ok s \<Longrightarrow> bq_ok (write_forced grow item s)"
  using capacity_reserve(1) [of grow s "length item"] by (simp add: write_forced_def bq_ok_def Let_def)

lemma bq_clear_ok: "bq_ok s \<Longrightarrow> bq_ok (bq_clear s)"
  by (simp add: bq_clear_def bq_ok_def)

lemma bq_close_ok: "bq_ok s \<Longrightarrow> bq_ok (bq_close s)"
  by (simp add: bq_close_def bq_ok_def)

lemma consume_turn_spec:
  assumes "bq_ok s" "consume_turn grow item s = (r, item', s')"
  shows "bq_ok s' \<and> inner s' @ item' = inner s @ item \<and> closed s' = closed s
    \<and> (\<not> closed s \<longrightarrow> item' = [] \<or> qlen s' = max_capacity s') \<and> max_capacity s' = max_capacity s"
  using assms by (auto simp: consume_turn_def bq_ok_def Let_def capacity_reserve(2) min_def split: if_splits)

lemma write_turn_spec:
  assumes "bq_ok s" "i < length item"
  shows "\<exists>r j s'. write_turn grow item i s = Ok (r, j, s') \<and> bq_ok s' \<and> i \<le> j \<and> j \<le> length item
    \<and> inner s' = inner s @ take (j - i) (drop i item) \<and> (r = None \<longrightarrow> j < length item)"
proof (cases "closed s \<or> max_capacity s = qlen s")
  case True
  with assms show ?thesis by (auto simp: write_turn_def bq_ok_def usub_def)
next
  case False
  let ?k = "min (length item - i) (max_capacity s - qlen s)"
  from False assms have "slice item i (min (length item - 1) (i + (max_capacity s - qlen s) - 1) + 1) = Some (take ?k (drop i item))"
    by (auto simp: slice_def bq_ok_def min_def)
  with False assms show ?thesis
    by (auto simp: write_turn_def bq_ok_def usub_def Let_def capacity_reserve(2) min_def)
qed

lemma bq_read_spec:
  assumes "bq_ok s" "enough grow"
  shows "\<exists>out s'. bq_read grow d s = Ok (out, s') \<and> bq_ok s' \<and> permit s' \<and> closed s' = closed s
    \<and> (case out of None \<Rightarrow> inner s' = inner s | Some bs \<Rightarrow> bs @ inner s' = inner s)"
proof -
  have "length (inner s) \<le> capacity (reserve grow n t)" if "inner t = inner s" for n t
    using capacity_reserve(1) [OF assms(2), of t n] that by simp
  with assms show ?thesis
    by (auto simp: bq_read_def bq_ok_def Let_def slice_def split: option.split)
qed

section \<open>Reader and writer\<close>

text \<open>
  The task that fills the queue keeps the bytes it has received in its buffer. It calls \<open>write_consuming\<close> on it, may
  cancel the call at any \<open>await\<close>, receive more and call again; so a turn of the loop may come at any moment.
\<close>

datatype qop = Receive "nat list" | Turn | Take "nat option" | Close_Queue

record qtask =
  bqueue_of :: bqueue
  task_buffer :: "nat list"
  taken :: "nat list"

definition qexec :: "growth \<Rightarrow> qop \<Rightarrow> qtask \<Rightarrow> qtask option" where
  "qexec grow x t = (case x of
     Receive bs \<Rightarrow> Some (t\<lparr>task_buffer := task_buffer t @ bs\<rparr>)
   | Turn \<Rightarrow> (let (r, item, s) = consume_turn grow (task_buffer t) (bqueue_of t) in Some (t\<lparr>task_buffer := item, bqueue_of := s\<rparr>))
   | Take d \<Rightarrow>
       (case bq_read grow d (bqueue_of t) of
          Ok (out, s) \<Rightarrow> Some (t\<lparr>bqueue_of := s, taken := taken t @ (case out of None \<Rightarrow> [] | Some bs \<Rightarrow> bs)\<rparr>)
        | _ \<Rightarrow> None)
   | Close_Queue \<Rightarrow> Some (t\<lparr>bqueue_of := bq_close (bqueue_of t)\<rparr>))"

definition qtask_new :: "growth \<Rightarrow> nat \<Rightarrow> qtask" where
  "qtask_new grow n = \<lparr>bqueue_of = bq_new grow n, task_buffer = [], taken = []\<rparr>"

definition received :: "qop list \<Rightarrow> nat list" where
  "received xs = concat (map (\<lambda>x. case x of Receive bs \<Rightarrow> bs | _ \<Rightarrow> []) xs)"

definition flow :: "qtask \<Rightarrow> nat list" where
  "flow t = taken t @ inner (bqueue_of t) @ task_buffer t"

lemma qexec_flow:
  assumes "enough grow" "bq_ok (bqueue_of t)"
  shows "\<exists>t'. qexec grow x t = Some t' \<and> bq_ok (bqueue_of t') \<and> flow t' = flow t @ received [x]"
proof (cases x)
  case Turn
  obtain r item s where c: "consume_turn grow (task_buffer t) (bqueue_of t) = (r, item, s)" by (metis prod_cases3)
  from consume_turn_spec [OF assms(2) c] c Turn show ?thesis by (simp add: qexec_def flow_def received_def)
next
  case (Take d)
  from bq_read_spec [OF assms(2,1), of d] obtain out s where r: "bq_read grow d (bqueue_of t) = Ok (out, s)" "bq_ok s"
    "case out of None \<Rightarrow> inner s = inner (bqueue_of t) | Some bs \<Rightarrow> bs @ inner s = inner (bqueue_of t)" by blast
  then have "(case out of None \<Rightarrow> [] | Some bs \<Rightarrow> bs) @ inner s = inner (bqueue_of t)" by (cases out) auto
  then have "(case out of None \<Rightarrow> [] | Some bs \<Rightarrow> bs) @ inner s @ task_buffer t = inner (bqueue_of t) @ task_buffer t"
    by (metis append.assoc)
  with r(1,2) Take show ?thesis by (simp add: qexec_def flow_def received_def)
qed (use assms in \<open>simp_all add: qexec_def flow_def received_def bq_close_ok, simp add: bq_close_def\<close>)

lemma run_flow:
  assumes "enough grow" "bq_ok (bqueue_of t)"
  shows "\<exists>t'. run (qexec grow) xs t = Some t' \<and> bq_ok (bqueue_of t') \<and> flow t' = flow t @ received xs"
  using assms(2)
proof (induction xs arbitrary: t)
  case (Cons x xs)
  from qexec_flow [OF assms(1) Cons.prems] obtain t1 where t1: "qexec grow x t = Some t1" "bq_ok (bqueue_of t1)"
    "flow t1 = flow t @ received [x]" by blast
  from Cons.IH [OF t1(2)] obtain t' where "run (qexec grow) xs t1 = Some t'" "bq_ok (bqueue_of t')" "flow t' = flow t1 @ received xs"
    by blast
  with t1 show ?case by (simp add: received_def)
qed (simp add: received_def)

text \<open>C36: between a task that fills a queue with \<open>write_consuming\<close>, which may be cancelled at every \<open>await\<close> and called again
  with more bytes, and a reader that takes any amounts, in any order of their steps and also when the queue is
  closed, nothing panics and no byte is lost, repeated or moved: what was read, what is queued and what is left with the
  task are together the bytes that were received. The counter is the number of queued bytes and within the capacity.\<close>

theorem queue_keeps_bytes:
  assumes "enough grow"
  shows "\<exists>t. run (qexec grow) xs (qtask_new grow n) = Some t
    \<and> taken t @ inner (bqueue_of t) @ task_buffer t = received xs
    \<and> qlen (bqueue_of t) = length (inner (bqueue_of t)) \<and> qlen (bqueue_of t) \<le> max_capacity (bqueue_of t)"
  using run_flow [OF assms, of "qtask_new grow n" xs] bq_new_ok [of grow n]
  by (auto simp: qtask_new_def flow_def bq_new_def bq_ok_def Let_def)

text \<open>A growth like that of the standard library: the first allocation is exact, later ones at least double it.\<close>

definition doubling :: growth where
  "doubling c m = (if c = 0 then m else max 8 (max (2 * c) m))"

lemma doubling_enough: "enough doubling"
  by (auto simp: enough_def doubling_def max_def)

theorem queue_keeps_bytes_witness:
  "\<exists>t. run (qexec doubling) [Receive [1, 2, 3, 4, 5], Turn, Take (Some 3), Turn, Take (Some 3), Receive [6], Turn, Take None]
      (qtask_new doubling 2) = Some t
    \<and> taken t @ inner (bqueue_of t) @ task_buffer t = [1, 2, 3, 4, 5, 6]"
  using queue_keeps_bytes [OF doubling_enough, of
      "[Receive [1, 2, 3, 4, 5], Turn, Take (Some 3), Turn, Take (Some 3), Receive [6], Turn, Take None]" 2]
  by (simp add: received_def del: run.simps) blast

section \<open>A reader that asks for a size\<close>

text \<open>
  The writer takes a turn and the reader asks for \<open>n\<close> bytes, again and again; after the first turn the writer only takes
  one when it has been notified.
\<close>

primrec ask :: "growth \<Rightarrow> nat \<Rightarrow> nat \<Rightarrow> nat list \<Rightarrow> bqueue \<Rightarrow> nat list option" where
  "ask grow 0 n item s = None"
| "ask grow (Suc k) n item s =
     (case consume_turn grow item s of
        (r, item', s1) \<Rightarrow>
          (case bq_read grow (Some n) s1 of
             Ok (Some bs, s2) \<Rightarrow> Some bs
           | Ok (None, s2) \<Rightarrow> if permit s2 then ask grow k n item' (s2\<lparr>permit := False\<rparr>) else None
           | _ \<Rightarrow> None))"

text \<open>A read that is refused although the queue is full makes room, for all the bytes or for all but one.\<close>

lemma read_full:
  assumes "bq_ok s" "enough grow" "\<not> closed s" "qlen s = max_capacity s" "max_capacity s < n"
  shows "\<exists>s'. bq_read grow (Some n) s = Ok (None, s') \<and> bq_ok s' \<and> permit s' \<and> \<not> closed s' \<and> inner s' = inner s
    \<and> n - 1 \<le> max_capacity s' \<and> (max_capacity s = n - 1 \<longrightarrow> n \<le> max_capacity s')"
proof -
  let ?s1 = "reserve grow (n - max_capacity s - 1) s"
  let ?s2 = "if capacity ?s1 < n then reserve grow (n - capacity ?s1) ?s1 else ?s1"
  have len: "length (inner s) = max_capacity s" "capacity s = max_capacity s" using assms by (simp_all add: bq_ok_def)
  have c1: "n - 1 \<le> capacity ?s1" using capacity_reserve(1) [OF assms(2), of s "n - max_capacity s - 1"] len assms(5) by simp
  have mono: "capacity t \<le> capacity (reserve grow m t)" for m t
    using capacity_reserve(1) [OF assms(2), of t m]
    by (cases "length (inner t) + m \<le> capacity t") (auto simp: reserve_def)
  have c2: "capacity ?s1 \<le> capacity ?s2" using mono by simp
  have full: "n \<le> capacity ?s2" if "max_capacity s = n - 1"
    using capacity_reserve(1) [OF assms(2), of ?s1 "n - capacity ?s1"] that len assms(5) c1 by auto
  have "bq_read grow (Some n) s = Ok (None, notify_one (?s2\<lparr>max_capacity := capacity ?s2\<rparr>))"
    using assms by (simp add: bq_read_def Let_def)
  moreover have "max_capacity s \<le> capacity ?s2" using c1 c2 assms(5) by linarith
  ultimately show ?thesis using c1 c2 full assms(3) len assms(1) by (auto simp: bq_ok_def)
qed

lemma read_enough:
  assumes "bq_ok s" "\<not> closed s" "n \<le> qlen s"
  shows "\<exists>s'. bq_read grow (Some n) s = Ok (Some (take n (inner s)), s')"
  using assms by (simp add: bq_read_def bq_ok_def Let_def slice_def)

lemma ask_step:
  assumes "bq_ok s" "enough grow" "\<not> closed s" "n \<le> length (inner s @ item)"
  shows "ask grow (Suc k) n item s = Some (take n (inner s @ item))
    \<or> (\<exists>item' s'. ask grow (Suc k) n item s = ask grow k n item' s' \<and> bq_ok s' \<and> \<not> closed s' \<and> inner s' @ item' = inner s @ item
       \<and> max_capacity s < n \<and> n - 1 \<le> max_capacity s' \<and> (max_capacity s = n - 1 \<longrightarrow> n \<le> max_capacity s'))"
proof -
  obtain r item' s1 where c: "consume_turn grow item s = (r, item', s1)" by (metis prod_cases3)
  note sp = consume_turn_spec [OF assms(1) c]
  show ?thesis
  proof (cases "n \<le> qlen s1")
    case True
    from sp have "take n (inner s1) = take n (inner s @ item)" using True by (metis bq_ok_def append_eq_conv_conj take_append diff_is_0_eq take0 append_Nil2)
    with read_enough [of s1 n grow] sp True c assms(3) show ?thesis by auto
  next
    case False
    with sp assms(3,4) have full: "qlen s1 = max_capacity s1" by (metis append_Nil2 bq_ok_def)
    with False have "max_capacity s1 < n" by simp
    from read_full [OF _ assms(2) _ full this] sp assms(3) obtain s2 where s2: "bq_read grow (Some n) s1 = Ok (None, s2)" "bq_ok s2" "permit s2"
      "\<not> closed s2" "inner s2 = inner s1" "n - 1 \<le> max_capacity s2" "max_capacity s1 = n - 1 \<longrightarrow> n \<le> max_capacity s2" by blast
    have "ask grow (Suc k) n item s = ask grow k n item' (s2\<lparr>permit := False\<rparr>)" using c s2 by simp
    moreover have "bq_ok (s2\<lparr>permit := False\<rparr>)" using s2(2) by (simp add: bq_ok_def)
    ultimately show ?thesis using sp s2 \<open>max_capacity s1 < n\<close>
      by (intro disjI2 exI [of _ item'] exI [of _ "s2\<lparr>permit := False\<rparr>"]) simp
  qed
qed

text \<open>C37: a reader that asks for more bytes than the queue has room for is not stuck: when there are \<open>n\<close> bytes in the queue
  and with the writer, asking three times is enough to get the first \<open>n\<close> of them, with the queue growing in between and
  the writer running only when the reader has notified it.\<close>

theorem read_gets_size:
  assumes "enough grow" "bq_ok s" "\<not> closed s" "n \<le> length (inner s @ item)"
  shows "ask grow 3 n item s = Some (take n (inner s @ item))"
proof -
  have one: "ask grow (Suc k) n it t = Some (take n (inner t @ it))"
    if "bq_ok t" "\<not> closed t" "n \<le> length (inner t @ it)" "n \<le> max_capacity t" for k it t
    using ask_step [OF that(1) assms(1) that(2,3), of k] that(4) by auto
  have two: "ask grow (Suc (Suc k)) n it t = Some (take n (inner t @ it))"
    if "bq_ok t" "\<not> closed t" "n \<le> length (inner t @ it)" "n - 1 \<le> max_capacity t" for k it t
    using ask_step [OF that(1) assms(1) that(2,3), of "Suc k"]
  proof (elim disjE exE conjE)
    fix it' t'
    assume a: "ask grow (Suc (Suc k)) n it t = ask grow (Suc k) n it' t'" "bq_ok t'" "\<not> closed t'" "inner t' @ it' = inner t @ it"
      "max_capacity t < n" "max_capacity t = n - 1 \<longrightarrow> n \<le> max_capacity t'"
    from a(5,6) that(4) have "n \<le> max_capacity t'" by linarith
    with one [OF a(2,3), of it' k] a(1,4) that(3) show ?thesis by metis
  qed
  have "ask grow (Suc (Suc (Suc 0))) n item s = Some (take n (inner s @ item))"
    using ask_step [OF assms(2,1,3,4), of "Suc (Suc 0)"]
  proof (elim disjE exE conjE)
    fix it' t'
    assume a: "ask grow (Suc (Suc (Suc 0))) n item s = ask grow (Suc (Suc 0)) n it' t'" "bq_ok t'" "\<not> closed t'"
      "inner t' @ it' = inner s @ item" "n - 1 \<le> max_capacity t'"
    with two [OF a(2,3), of it' 0] assms(4) show ?thesis by metis
  qed
  then show ?thesis by (simp only: numeral_3_eq_3)
qed

theorem read_gets_size_witness:
  "ask doubling 3 9 [1, 2, 3, 4, 5, 6, 7, 8, 9, 10] (bq_new doubling 2) = Some [1, 2, 3, 4, 5, 6, 7, 8, 9]"
  using read_gets_size [OF doubling_enough bq_new_ok, of doubling 2 9 "[1, 2, 3, 4, 5, 6, 7, 8, 9, 10]"]
  by (simp add: bq_new_def Let_def del: ask.simps)

section \<open>Where the code goes wrong\<close>

text \<open>
  The write semaphore is meant to let one writer finish before the next and to make \<open>close\<close> and \<open>clear\<close> wait. Its permit is
  dropped at once, so the turns of two writers mix: here 7 and 8 come between 3, 4 and 5, 6.
\<close>

definition turn :: "nat list \<Rightarrow> nat \<Rightarrow> bqueue \<Rightarrow> nat \<times> bqueue" where
  "turn item i s = (case write_turn doubling item i s of Ok (_, j, s') \<Rightarrow> (j, s') | _ \<Rightarrow> (i, s))"

definition take_all :: "bqueue \<Rightarrow> nat list \<times> bqueue" where
  "take_all s = (case bq_read doubling None s of Ok (Some bs, s') \<Rightarrow> (bs, s') | _ \<Rightarrow> ([], s))"

definition mixed :: "nat list" where
  "mixed =
     (let a = [1, 2, 3, 4, 5, 6]; b = [7, 8]; s = bq_new doubling 2;
          (i, s) = turn a 0 s; (j, s) = turn b 0 s;
          (x, s) = take_all s; (i, s) = turn a i s;
          (y, s) = take_all s; (j, s) = turn b j s;
          (z, s) = take_all s; (i, s) = turn a i s
      in x @ y @ z @ inner s)"

lemma writers_mix: "mixed = [1, 2, 3, 4, 7, 8, 5, 6]"
  by code_simp

text \<open>Writing no bytes panics when there is room; \<open>write_consuming\<close> returns.\<close>

lemma write_nothing_panics: "bq_ok s \<Longrightarrow> \<not> closed s \<Longrightarrow> qlen s < max_capacity s \<Longrightarrow> write_turn grow [] 0 s = Panic"
  by (simp add: write_turn_def usub_def)

end
