(* ===== verification/Http_Headers.thy ===== *)
theory Http_Headers
  imports Raster_Prelude Rust_Text
begin

text \<open>
  The class \<open>Headers\<close> of \<open>raster_runtime_fetch/src/headers.rs\<close>: names and values of HTTP fields, with the guard against
  headers that a request without CORS must not send. Strings are lists of Unicode scalar values. The Unicode table of
  \<open>to_lowercase\<close> is a parameter, of which only ASCII matters: the check of names refuses all else.
\<close>

section \<open>Text\<close>

definition chars :: "string \<Rightarrow> rstring" where
  "chars s = map of_char s"

definition ascii_low :: "nat \<Rightarrow> nat" where
  "ascii_low c = (if 65 \<le> c \<and> c \<le> 90 then c + 32 else c)"

definition lower_ok :: "(rstring \<Rightarrow> rstring) \<Rightarrow> bool" where
  "lower_ok lower \<longleftrightarrow> (\<forall>s. list_all (\<lambda>c. c < 128) s \<longrightarrow> lower s = map ascii_low s) \<and> (\<forall>s. list_all (\<lambda>c. \<not> (65 \<le> c \<and> c \<le> 90)) (lower s))"

text \<open>The characters of the Unicode property \<open>White_Space\<close>, which \<open>trim\<close> removes at both ends.\<close>

definition is_whitespace :: "nat \<Rightarrow> bool" where
  "is_whitespace c \<longleftrightarrow> (9 \<le> c \<and> c \<le> 13) \<or> (0x2000 \<le> c \<and> c \<le> 0x200A)
     \<or> c \<in> set [32, 0x85, 0xA0, 0x1680, 0x2028, 0x2029, 0x202F, 0x205F, 0x3000]"

definition trim :: "rstring \<Rightarrow> rstring" where
  "trim s = rev (dropWhile is_whitespace (rev (dropWhile is_whitespace s)))"

definition first_part :: "nat \<Rightarrow> rstring \<Rightarrow> rstring" where
  "first_part sep s = takeWhile (\<lambda>c. c \<noteq> sep) s"

section \<open>Names and values\<close>

definition is_http_header_name :: "rstring \<Rightarrow> bool" where
  "is_http_header_name name \<longleftrightarrow> name \<noteq> [] \<and>
     list_all (\<lambda>b. b \<in> set [0x21, 0x23, 0x24, 0x25, 0x26, 0x27, 0x2A, 0x2B, 0x2D, 0x2E, 0x5E, 0x5F, 0x60, 0x7C, 0x7E]
       \<or> (0x30 \<le> b \<and> b \<le> 0x39) \<or> (0x41 \<le> b \<and> b \<le> 0x5A) \<or> (0x61 \<le> b \<and> b \<le> 0x7A)) (utf8_bytes name)"

definition is_value_char :: "nat \<Rightarrow> bool" where
  "is_value_char c \<longleftrightarrow> c = 9 \<or> c = 32 \<or> (0x21 \<le> c \<and> c \<le> 0x7E) \<or> c = 0x0C \<or> c = 0xA0"

definition is_http_header_value :: "rstring \<Rightarrow> bool" where
  "is_http_header_value value = list_all is_value_char value"

definition contains_cors_unsafe_request_header_byte :: "rstring \<Rightarrow> bool" where
  "contains_cors_unsafe_request_header_byte value =
     list_ex (\<lambda>b. b \<le> 0x08 \<or> (0x0A \<le> b \<and> b \<le> 0x1F)
       \<or> b \<in> set [0x22, 0x28, 0x29, 0x3A, 0x3C, 0x3E, 0x3F, 0x40, 0x5B, 0x5C, 0x5D, 0x7B, 0x7F, 0x7D]) (utf8_bytes value)"

definition is_cors_safelisted_field_value :: "rstring \<Rightarrow> bool" where
  "is_cors_safelisted_field_value value =
     list_all (\<lambda>b. (0x30 \<le> b \<and> b \<le> 0x39) \<or> (0x41 \<le> b \<and> b \<le> 0x5A) \<or> (0x61 \<le> b \<and> b \<le> 0x7A)
       \<or> b \<in> set [0x20, 0x2A, 0x2C, 0x2D, 0x2E, 0x3B, 0x3D]) (utf8_bytes value)"

definition is_cors_safelisted_request_header :: "rstring \<Rightarrow> rstring \<Rightarrow> bool" where
  "is_cors_safelisted_request_header key value =
     (if 128 < length (utf8_bytes value) then False
      else
        let k = map ascii_low key
        in if k = chars ''accept'' then \<not> contains_cors_unsafe_request_header_byte value
           else if k = chars ''accept-language'' \<or> k = chars ''content-language'' then is_cors_safelisted_field_value value
           else if k = chars ''content-type'' then
             (if contains_cors_unsafe_request_header_byte value then False
              else map ascii_low (trim (first_part 59 value))
                \<in> set [chars ''application/x-www-form-urlencoded'', chars ''multipart/form-data'', chars ''text/plain'', []])
           else False)"

section \<open>Normalizing a value in place\<close>

definition is_blank :: "byte \<Rightarrow> bool" where
  "is_blank b \<longleftrightarrow> b = 0x20 \<or> b = 0x09"

function skip_blanks :: "byte list \<Rightarrow> nat \<Rightarrow> nat" where
  "skip_blanks input r = (if r < length input \<and> is_blank (input ! r) then skip_blanks input (Suc r) else r)"
  by auto
termination by (relation "measure (\<lambda>(input, r). length input - r)") auto

text \<open>Before an ordinary byte the pending blank is written, unless nothing has been written yet.\<close>

definition put_pending :: "byte option \<Rightarrow> byte list \<Rightarrow> nat \<Rightarrow> (string, byte list \<times> nat) res" where
  "put_pending p input w =
     (case p of
        None \<Rightarrow> Ok (input, w)
      | Some ws \<Rightarrow> if w > 0 then rmap (\<lambda>input. (input, w + 1)) (or_panic (vec_set input w ws)) else Ok (input, w))"

lemma put_pending_length: "put_pending p input w = Ok (input', w') \<Longrightarrow> length input' = length input"
  by (auto simp: put_pending_def vec_set_def split: option.splits if_splits)

function norm_loop :: "byte list \<Rightarrow> nat \<Rightarrow> nat \<Rightarrow> byte option \<Rightarrow> (string, byte list \<times> nat) res" where
  "norm_loop input r w p =
     (if r < length input then
        (if input ! r = 0x0D \<and> r + 2 < length input \<and> input ! (r + 1) = 0x0A \<and> is_blank (input ! (r + 2))
         then norm_loop input (r + 3) w (Some (input ! (r + 2)))
         else if input ! r = 0x0D \<or> input ! r = 0x0A then norm_loop input (r + 1) w p
         else if is_blank (input ! r) then norm_loop input (r + 1) w (Some (input ! r))
         else
           (case put_pending p input w of
              Ok (input', w') \<Rightarrow>
                (case vec_set input' w' (input ! r) of
                   Some input'' \<Rightarrow> norm_loop input'' (r + 1) (w' + 1) None
                 | None \<Rightarrow> Panic)
            | Err e \<Rightarrow> Err e
            | Panic \<Rightarrow> Panic))
      else Ok (input, w))"
  by auto
termination
  by (relation "measure (\<lambda>(input, r, w, p). length input - r)")
    (auto dest!: put_pending_length simp: vec_set_def split: if_splits)

primrec trim_len :: "byte list \<Rightarrow> nat \<Rightarrow> nat" where
  "trim_len input 0 = 0"
| "trim_len input (Suc w) = (if is_blank (input ! w) then trim_len input w else Suc w)"

definition from_utf8 :: "byte list \<Rightarrow> (string, rstring) res" where
  "from_utf8 bs = (case utf8_check bs of (s, _, None) \<Rightarrow> Ok s | _ \<Rightarrow> Err ''invalid utf-8 sequence'')"

definition normalize_header_value_inplace :: "rstring \<Rightarrow> (string, rstring) res" where
  "normalize_header_value_inplace text =
     (let input = utf8_bytes text
      in rbind (norm_loop input (skip_blanks input 0) 0 None) (\<lambda>(input, w). from_utf8 (take (trim_len input w) input)))"

section \<open>The list of headers\<close>

datatype headers_guard = No_Guard | Request | RequestNoCors | Response | Immutable

record headers =
  header_list :: "(rstring \<times> rstring) list"
  guard :: headers_guard

text \<open>A JavaScript value given for a header: numbers as they are printed, other values as the engine converts them.\<close>

datatype hvalue = H_Null | H_Undefined | H_Bool bool | H_Number rstring | H_String rstring | H_Other "(string, rstring) res"

fun coerce_to_string :: "hvalue \<Rightarrow> (string, rstring) res" where
  "coerce_to_string H_Null = Ok (chars ''null'')"
| "coerce_to_string H_Undefined = Ok (chars ''undefined'')"
| "coerce_to_string (H_Bool b) = Ok (chars (if b then ''true'' else ''false''))"
| "coerce_to_string (H_Number s) = Ok s"
| "coerce_to_string (H_String s) = Ok s"
| "coerce_to_string (H_Other r) = r"

definition SET_COOKIE :: rstring where
  "SET_COOKIE = chars ''set-cookie''"

definition COOKIE :: rstring where
  "COOKIE = chars ''cookie''"

definition separator :: "rstring \<Rightarrow> rstring" where
  "separator key = chars (if key = COOKIE then ''; '' else '', '')"

fun update_first :: "rstring \<Rightarrow> (rstring \<Rightarrow> rstring) \<Rightarrow> (rstring \<times> rstring) list \<Rightarrow> (rstring \<times> rstring) list" where
  "update_first key f [] = []"
| "update_first key f ((k, v) # hs) = (if k = key then (k, f v) # hs else (k, v) # update_first key f hs)"

text \<open>Adding a checked value; \<open>append\<close> and the constructor from an array share it.\<close>

definition combine :: "rstring \<Rightarrow> rstring \<Rightarrow> (rstring \<times> rstring) list \<Rightarrow> (rstring \<times> rstring) list" where
  "combine key value hs =
     (if key = SET_COOKIE then hs @ [(key, value)]
      else if key \<in> fst ` set hs then update_first key (\<lambda>v. v @ separator key @ value) hs
      else hs @ [(key, value)])"

type_synonym lowercase = "rstring \<Rightarrow> rstring"

definition check_name :: "lowercase \<Rightarrow> rstring \<Rightarrow> (string, rstring) res" where
  "check_name lower key = (let key = lower key in if is_http_header_name key then Ok key else Err ''Invalid key'')"

definition header_append :: "lowercase \<Rightarrow> rstring \<Rightarrow> hvalue \<Rightarrow> headers \<Rightarrow> (string, headers) res" where
  "header_append lower key value h =
     rbind (check_name lower key) (\<lambda>key.
     rbind (coerce_to_string value) (\<lambda>value.
     rbind (normalize_header_value_inplace value) (\<lambda>value.
       let val = trim (first_part 44 value); no_cors = (guard h = RequestNoCors)
       in if no_cors \<and> (\<not> is_cors_safelisted_request_header key val \<or> key \<in> fst ` set (header_list h)) then Ok h
          else
            let value = (if no_cors then val else value)
            in if \<not> is_http_header_value value then Err ''Invalid value of key''
               else Ok (h\<lparr>header_list := combine key value (header_list h)\<rparr>))))"

definition join_comma :: "rstring list \<Rightarrow> rstring" where
  "join_comma vs = (case vs of [] \<Rightarrow> [] | v # vs \<Rightarrow> v @ concat (map (\<lambda>w. chars '', '' @ w) vs))"

definition header_get :: "lowercase \<Rightarrow> rstring \<Rightarrow> headers \<Rightarrow> (string, rstring option) res" where
  "header_get lower key h =
     rbind (check_name lower key) (\<lambda>key.
       if key = SET_COOKIE then
         let result = map snd (filter (\<lambda>(k, v). k = key) (header_list h))
         in Ok (if result = [] then None else Some (join_comma result))
       else Ok (map_of (header_list h) key))"

definition get_set_cookie :: "headers \<Rightarrow> rstring list" where
  "get_set_cookie h = map snd (filter (\<lambda>(k, v). k = SET_COOKIE) (header_list h))"

definition header_has :: "lowercase \<Rightarrow> rstring \<Rightarrow> headers \<Rightarrow> (string, bool) res" where
  "header_has lower key h = rmap (\<lambda>key. key \<in> fst ` set (header_list h)) (check_name lower key)"

definition header_set :: "lowercase \<Rightarrow> rstring \<Rightarrow> hvalue \<Rightarrow> headers \<Rightarrow> (string, headers) res" where
  "header_set lower key value h =
     rbind (check_name lower key) (\<lambda>key.
     rbind (coerce_to_string value) (\<lambda>value.
     rbind (normalize_header_value_inplace value) (\<lambda>value.
       let val = trim (first_part 44 value); no_cors = (guard h = RequestNoCors)
       in if no_cors \<and> \<not> is_cors_safelisted_request_header key val then Ok h
          else
            let value = (if no_cors then val else value); hs = header_list h
            in if \<not> is_http_header_value value then Err ''Invalid value of key''
               else Ok (h\<lparr>header_list :=
                 (if key = SET_COOKIE then filter (\<lambda>(k, v). k \<noteq> key) hs @ [(key, value)]
                  else if key \<in> fst ` set hs then update_first key (\<lambda>_. value) hs
                  else hs @ [(key, value)])\<rparr>))))"

definition header_delete :: "lowercase \<Rightarrow> rstring \<Rightarrow> headers \<Rightarrow> (string, headers) res" where
  "header_delete lower key h =
     rmap (\<lambda>key. h\<lparr>header_list := filter (\<lambda>(k, v). k \<noteq> key) (header_list h)\<rparr>) (check_name lower key)"

definition header_keys :: "headers \<Rightarrow> rstring list" where
  "header_keys h = map fst (header_list h)"

definition header_values :: "headers \<Rightarrow> rstring list" where
  "header_values h = map snd (header_list h)"

section \<open>Making headers\<close>

definition from_http_headers :: "(rstring \<times> byte list) list \<Rightarrow> headers_guard \<Rightarrow> headers" where
  "from_http_headers header_map g = \<lparr>header_list = map (\<lambda>(n, v). (n, utf8_lossy v)) header_map, guard = g\<rparr>"

text \<open>
  The fields of an object in the order of their names. An error of the normalization is ignored and leaves the value
  empty, since it was taken out of its variable.
\<close>

definition from_map :: "lowercase \<Rightarrow> (rstring \<times> rstring) list \<Rightarrow> headers_guard \<Rightarrow> headers" where
  "from_map lower m g =
     \<lparr>header_list = map (\<lambda>(k, v). (lower k, case normalize_header_value_inplace v of Ok v' \<Rightarrow> v' | _ \<Rightarrow> []))
        (filter (\<lambda>(k, v). is_http_header_name k) m), guard = g\<rparr>"

text \<open>The entries of an array: those that are arrays, as their values.\<close>

fun array_entries :: "lowercase \<Rightarrow> hvalue list option list \<Rightarrow> (rstring \<times> rstring) list \<Rightarrow> (string, (rstring \<times> rstring) list) res" where
  "array_entries lower [] hs = Ok hs"
| "array_entries lower (None # es) hs = array_entries lower es hs"
| "array_entries lower (Some vs # es) hs =
     (if odd (length vs) then Err ''Header arrays are not paired''
      else case vs of
          H_String raw_key # raw_value # _ \<Rightarrow>
            rbind (check_name lower raw_key) (\<lambda>key.
            rbind (coerce_to_string raw_value) (\<lambda>value.
              if \<not> is_http_header_value value then Err ''Invalid value of key''
              else array_entries lower es (combine key value hs)))
        | _ \<Rightarrow> Err ''Error converting from js'')"

fun str_le :: "rstring \<Rightarrow> rstring \<Rightarrow> bool" where
  "str_le [] t = True"
| "str_le (a # s) [] = False"
| "str_le (a # s) (b # t) = (a < b \<or> (a = b \<and> str_le s t))"

text \<open>The stable sort by name: an entry goes before the later ones that are not smaller.\<close>

fun sort_in :: "rstring \<times> rstring \<Rightarrow> (rstring \<times> rstring) list \<Rightarrow> (rstring \<times> rstring) list" where
  "sort_in e [] = [e]"
| "sort_in e (f # fs) = (if str_le (fst e) (fst f) then e # f # fs else f # sort_in e fs)"

definition sort_headers :: "(rstring \<times> rstring) list \<Rightarrow> (rstring \<times> rstring) list" where
  "sort_headers hs = foldr sort_in hs []"

definition from_array :: "lowercase \<Rightarrow> hvalue list option list \<Rightarrow> headers_guard \<Rightarrow> (string, headers) res" where
  "from_array lower es g = rmap (\<lambda>hs. \<lparr>header_list = sort_headers hs, guard = g\<rparr>) (array_entries lower es [])"

end
