(* ===== verification/Headers_Laws.thy ===== *)
theory Headers_Laws
  imports Http_Headers
begin

text \<open>
  Laws of \<open>Http_Headers\<close>: the loop that normalizes a value in place does what a reading of the text in one pass does, and
  the list of headers stays well-formed.
\<close>

declare skip_blanks.simps [simp del] norm_loop.simps [simp del]

section \<open>Normalizing\<close>

text \<open>The text in one pass: line ends are left out, and blanks are kept back until something follows them.\<close>

fun one_pass :: "('a \<Rightarrow> bool) \<Rightarrow> ('a \<Rightarrow> bool) \<Rightarrow> bool \<Rightarrow> 'a option \<Rightarrow> 'a list \<Rightarrow> 'a list" where
  "one_pass eol blank started p [] = []"
| "one_pass eol blank started p (c # cs) =
     (if eol c then one_pass eol blank started p cs
      else if blank c then one_pass eol blank started (Some c) cs
      else (case p of Some ws \<Rightarrow> if started then [ws] else [] | None \<Rightarrow> []) @ c # one_pass eol blank True None cs)"

definition is_eol :: "byte \<Rightarrow> bool" where
  "is_eol b \<longleftrightarrow> b = 0x0D \<or> b = 0x0A"

lemma eol_not_blank: "is_eol b \<Longrightarrow> \<not> is_blank b"
  by (auto simp: is_eol_def is_blank_def)

text \<open>The branches of the loop, as equations.\<close>

definition at_fold :: "byte list \<Rightarrow> nat \<Rightarrow> bool" where
  "at_fold input r \<longleftrightarrow> input ! r = 0x0D \<and> r + 2 < length input \<and> input ! (r + 1) = 0x0A \<and> is_blank (input ! (r + 2))"

lemma norm_loop_steps:
  "length input \<le> r \<Longrightarrow> norm_loop input r w p = Ok (input, w)"
  "at_fold input r \<Longrightarrow> norm_loop input r w p = norm_loop input (r + 3) w (Some (input ! (r + 2)))"
  "r < length input \<Longrightarrow> \<not> at_fold input r \<Longrightarrow> is_eol (input ! r) \<Longrightarrow> norm_loop input r w p = norm_loop input (r + 1) w p"
  "r < length input \<Longrightarrow> \<not> is_eol (input ! r) \<Longrightarrow> is_blank (input ! r) \<Longrightarrow> norm_loop input r w p = norm_loop input (r + 1) w (Some (input ! r))"
  "r < length input \<Longrightarrow> \<not> is_eol (input ! r) \<Longrightarrow> \<not> is_blank (input ! r) \<Longrightarrow> put_pending p input w = Ok (in1, w1) \<Longrightarrow>
     vec_set in1 w1 (input ! r) = Some in2 \<Longrightarrow> norm_loop input r w p = norm_loop in2 (r + 1) (w1 + 1) None"
  by (subst norm_loop.simps, auto simp: at_fold_def is_eol_def)+

lemma one_pass_fold:
  assumes "at_fold input r"
  shows "one_pass is_eol is_blank st p (drop r input) = one_pass is_eol is_blank st (Some (input ! (r + 2))) (drop (r + 3) input)"
proof -
  have "drop r input = 0x0D # 0x0A # input ! (r + 2) # drop (r + 3) input"
    using assms Cons_nth_drop_Suc [of r input] Cons_nth_drop_Suc [of "Suc r" input] Cons_nth_drop_Suc [of "Suc (Suc r)" input]
    by (simp add: numeral_3_eq_3 at_fold_def)
  moreover have "is_eol 0x0D" "is_eol 0x0A" by (simp_all add: is_eol_def)
  moreover have "\<not> is_eol (input ! (r + 2))" "is_blank (input ! (r + 2))"
    using assms eol_not_blank [of "input ! (r + 2)"] by (auto simp: at_fold_def)
  ultimately show ?thesis by simp
qed

text \<open>What one ordinary byte writes.\<close>

lemma put_byte:
  assumes "w + (if p = None then 0 else 1) \<le> r" "r < length input"
  shows "\<exists>in1 w1. put_pending p input w = Ok (in1, w1) \<and> vec_set in1 w1 b = Some (in1[w1 := b]) \<and> w1 \<le> r \<and> length in1 = length input
    \<and> take (w1 + 1) (in1[w1 := b]) = take w input @ (case p of Some ws \<Rightarrow> if 0 < w then [ws] else [] | None \<Rightarrow> []) @ [b]
    \<and> drop (r + 1) (in1[w1 := b]) = drop (r + 1) input"
proof (cases "p = None \<or> w = 0")
  case True
  then show ?thesis using assms
    by (intro exI [of _ input] exI [of _ w]) (auto simp: put_pending_def vec_set_def take_Suc_conv_app_nth split: option.split if_splits)
next
  case False
  then obtain ws where ws: "p = Some ws" "0 < w" by auto
  with assms show ?thesis
    by (intro exI [of _ "input[w := ws]"] exI [of _ "w + 1"]) (auto simp: put_pending_def vec_set_def take_Suc_conv_app_nth)
qed

lemma norm_loop_one_pass:
  assumes "w + (if p = None then 0 else 1) \<le> r" "r \<le> length input"
  shows "\<exists>input' w'. norm_loop input r w p = Ok (input', w') \<and> w' \<le> length input'
    \<and> take w' input' = take w input @ one_pass is_eol is_blank (0 < w) p (drop r input)"
  using assms
proof (induction "length input - r" arbitrary: input r w p rule: less_induct)
  case less
  show ?case
  proof (cases "r < length input")
    case False
    then have "length input \<le> r" by simp
    moreover from this less.prems have "w \<le> length input" by (simp split: if_splits)
    ultimately show ?thesis using norm_loop_steps(1) [of input r w p] by simp
  next
    case r: True
    note dr = Cons_nth_drop_Suc [OF r, symmetric]
    consider (fold) "at_fold input r" | (eol) "\<not> at_fold input r" "is_eol (input ! r)"
      | (blank) "\<not> is_eol (input ! r)" "is_blank (input ! r)" | (other) "\<not> is_eol (input ! r)" "\<not> is_blank (input ! r)"
      by blast
    then show ?thesis
    proof cases
      case fold
      then have "r + 3 \<le> length input" by (simp add: at_fold_def)
      with less.hyps [of input "r + 3" w "Some (input ! (r + 2))"] less.prems r show ?thesis
        unfolding norm_loop_steps(2) [OF fold] one_pass_fold [OF fold] by (simp split: if_splits)
    next
      case eol
      with less.hyps [of input "r + 1" w p] less.prems r show ?thesis
        unfolding norm_loop_steps(3) [OF r eol] dr by simp
    next
      case blank
      with less.hyps [of input "r + 1" w "Some (input ! r)"] less.prems r show ?thesis
        unfolding norm_loop_steps(4) [OF r blank] dr by (simp split: if_splits)
    next
      case other
      from put_byte [OF less.prems(1) r, of "input ! r"] obtain in1 w1 where
        pb: "put_pending p input w = Ok (in1, w1)" "vec_set in1 w1 (input ! r) = Some (in1[w1 := input ! r])" "w1 \<le> r" "length in1 = length input"
          "take (w1 + 1) (in1[w1 := input ! r]) = take w input @ (case p of Some ws \<Rightarrow> if 0 < w then [ws] else [] | None \<Rightarrow> []) @ [input ! r]"
          "drop (r + 1) (in1[w1 := input ! r]) = drop (r + 1) input" by blast
      have "length (in1[w1 := input ! r]) - (r + 1) < length input - r" "w1 + 1 + (if None = (None :: byte option) then 0 else 1) \<le> r + 1"
        "r + 1 \<le> length (in1[w1 := input ! r])" using pb r by simp_all
      from less.hyps [OF this] show ?thesis
        unfolding norm_loop_steps(5) [OF r other pb(1,2)] pb(5,6) using other by (simp add: dr)
    qed
  qed
qed

lemma skip_blanks_drop: "r \<le> length input \<Longrightarrow> skip_blanks input r \<le> length input \<and> drop (skip_blanks input r) input = dropWhile is_blank (drop r input)"
proof (induction input r rule: skip_blanks.induct)
  case (1 input r)
  show ?case
  proof (cases "r < length input \<and> is_blank (input ! r)")
    case True
    then have "skip_blanks input r = skip_blanks input (Suc r)" by (subst skip_blanks.simps) simp
    with 1 True show ?thesis by (simp add: Cons_nth_drop_Suc [symmetric])
  next
    case False
    then have "skip_blanks input r = r" by (subst skip_blanks.simps) auto
    with 1(2) False show ?thesis by (cases "r < length input") (simp_all add: Cons_nth_drop_Suc [symmetric])
  qed
qed

text \<open>Nothing is left to trim at the end.\<close>

lemma one_pass_end: "one_pass eol blank st p cs = [] \<or> \<not> blank (last (one_pass eol blank st p cs))"
proof (induction cs arbitrary: st p)
  case (Cons c cs)
  from Cons [of True None] Cons [of st p] Cons [of st "Some c"] show ?case by (auto split: option.split)
qed simp

lemma trim_len_end: "w \<le> length input \<Longrightarrow> take w input = [] \<or> \<not> is_blank (last (take w input)) \<Longrightarrow> trim_len input w = w"
  by (cases w) (auto simp: take_Suc_conv_app_nth)

lemma one_pass_dropWhile: "one_pass eol blank False p (dropWhile blank cs) = one_pass eol blank False q cs"
  if "\<And>c. eol c \<Longrightarrow> \<not> blank c"
proof -
  have any: "one_pass eol blank False p cs = one_pass eol blank False q cs" for p q cs
    by (induction cs arbitrary: p q) (auto split: option.split)
  show ?thesis by (induction cs) (use that in \<open>auto split: option.split intro: any simp del: one_pass.simps(1)\<close>)
qed

section \<open>Normalizing text\<close>

definition eol_char :: "nat \<Rightarrow> bool" where
  "eol_char c \<longleftrightarrow> c = 13 \<or> c = 10"

definition blank_char :: "nat \<Rightarrow> bool" where
  "blank_char c \<longleftrightarrow> c = 32 \<or> c = 9"

lemma encode_ascii: "c < 128 \<Longrightarrow> utf8_encode c = [word_of_nat c]"
  by (simp add: utf8_encode_def)

lemma ascii_classes:
  assumes "c < 128"
  shows "is_eol (word_of_nat c) \<longleftrightarrow> eol_char c" "is_blank (word_of_nat c) \<longleftrightarrow> blank_char c"
proof -
  have eq: "(word_of_nat c :: byte) = word_of_nat d \<longleftrightarrow> c = d" if "d < 128" for d
    using assms that by (simp add: word_unat_eq_iff unat_byte_of_nat)
  show "is_eol (word_of_nat c) \<longleftrightarrow> eol_char c" "is_blank (word_of_nat c) \<longleftrightarrow> blank_char c"
    using eq [of 13] eq [of 10] eq [of 32] eq [of 9] by (auto simp: is_eol_def is_blank_def eol_char_def blank_char_def)
qed

lemma unat_high: "128 \<le> n \<Longrightarrow> n < 256 \<Longrightarrow> 128 \<le> unat (word_of_nat n :: byte)"
  by (simp add: unat_byte_of_nat)

lemma encode_high: "is_scalar c \<Longrightarrow> 128 \<le> c \<Longrightarrow> utf8_encode c \<noteq> [] \<and> list_all (\<lambda>b. 128 \<le> unat b) (utf8_encode c)"
  by (auto simp: utf8_encode_def is_scalar_def simp del: of_nat_add intro!: unat_high)

lemma high_classes: "128 \<le> unat b \<Longrightarrow> \<not> is_eol b \<and> \<not> is_blank b"
  by (auto simp: is_eol_def is_blank_def)

lemma one_pass_ordinary:
  "list_all (\<lambda>b. \<not> eol b \<and> \<not> blank b) bs \<Longrightarrow> one_pass eol blank True None (bs @ cs) = bs @ one_pass eol blank True None cs"
  by (induction bs) auto

lemma one_pass_bytes:
  "list_all is_scalar s \<Longrightarrow> pred_option (\<lambda>c. c < 128) p \<Longrightarrow>
   one_pass is_eol is_blank st (map_option word_of_nat p) (utf8_bytes s) = utf8_bytes (one_pass eol_char blank_char st p s)"
proof (induction s arbitrary: st p)
  case (Cons c s)
  show ?case
  proof (cases "c < 128")
    case True
    with Cons.IH [of p st] Cons.IH [of "Some c" st] Cons.IH [of None True] Cons.prems show ?thesis
      by (cases p) (simp_all add: encode_ascii ascii_classes)
  next
    case False
    with encode_high [of c] Cons.prems obtain b bs where e: "utf8_encode c = b # bs" "list_all (\<lambda>b. \<not> is_eol b \<and> \<not> is_blank b) (b # bs)"
      using high_classes by (cases "utf8_encode c") (auto simp: list_all_iff)
    from False have n: "\<not> eol_char c" "\<not> blank_char c" by (simp_all add: eol_char_def blank_char_def)
    from e n Cons.IH [of None True] Cons.prems one_pass_ordinary [of is_eol is_blank bs] show ?thesis
      by (cases p) (simp_all add: encode_ascii)
  qed
qed simp

text \<open>The reference: the text without its line ends, where a run of blanks is its last blank and none is at an end.\<close>

fun last_blanks :: "rstring \<Rightarrow> rstring" where
  "last_blanks [] = []"
| "last_blanks (c # cs) = (if blank_char c \<and> (cs = [] \<or> blank_char (hd cs)) then last_blanks cs else c # last_blanks cs)"

definition normalized :: "rstring \<Rightarrow> rstring" where
  "normalized s = last_blanks (dropWhile blank_char (filter (\<lambda>c. \<not> eol_char c) s))"

lemma one_pass_filter: "one_pass eol blank st p cs = one_pass eol blank st p (filter (\<lambda>c. \<not> eol c) cs)"
  by (induction cs arbitrary: st p) auto

lemma one_pass_last_blanks:
  "list_all (\<lambda>c. \<not> eol_char c) cs \<Longrightarrow> one_pass eol_char blank_char True None cs = last_blanks cs"
  "list_all (\<lambda>c. \<not> eol_char c) cs \<Longrightarrow> blank_char b \<Longrightarrow> one_pass eol_char blank_char True (Some b) cs = last_blanks (b # cs)"
  by (induction cs arbitrary: b) auto

lemma one_pass_start:
  "list_all (\<lambda>c. \<not> eol_char c) cs \<Longrightarrow> one_pass eol_char blank_char False p cs = last_blanks (dropWhile blank_char cs)"
  by (induction cs arbitrary: p) (auto simp: one_pass_last_blanks split: option.split)

lemma one_pass_normalized: "one_pass eol_char blank_char False None s = normalized s"
  using one_pass_filter [of eol_char blank_char False None s] one_pass_start [of "filter (\<lambda>c. \<not> eol_char c) s" None]
  by (simp add: normalized_def list_all_iff)

lemma one_pass_scalars:
  "list_all is_scalar s \<Longrightarrow> pred_option is_scalar p \<Longrightarrow> list_all is_scalar (one_pass eol blank st p s)"
  by (induction s arbitrary: st p) (auto split: option.split)

lemma normalize_normalized:
  assumes "list_all is_scalar s"
  shows "normalize_header_value_inplace s = Ok (normalized s)"
proof -
  let ?input = "utf8_bytes s"
  let ?r = "skip_blanks ?input 0"
  have sk: "?r \<le> length ?input" "drop ?r ?input = dropWhile is_blank ?input" using skip_blanks_drop [of 0 ?input] by simp_all
  from norm_loop_one_pass [of 0 None ?r ?input] sk obtain input' w' where l: "norm_loop ?input ?r 0 None = Ok (input', w')" "w' \<le> length input'"
    "take w' input' = one_pass is_eol is_blank False None (dropWhile is_blank ?input)" by auto
  have "one_pass is_eol is_blank False None (dropWhile is_blank ?input) = one_pass is_eol is_blank False None ?input"
    by (rule one_pass_dropWhile) (rule eol_not_blank)
  also have "\<dots> = utf8_bytes (normalized s)"
    using one_pass_bytes [OF assms, of None False] by (simp add: one_pass_normalized)
  finally have tk: "take w' input' = utf8_bytes (normalized s)" using l(3) by simp
  have "trim_len input' w' = w'"
    by (rule trim_len_end [OF l(2)]) (use one_pass_end [of is_eol is_blank False None] in \<open>simp add: l(3)\<close>)
  moreover have "list_all is_scalar (normalized s)"
    using one_pass_scalars [OF assms, of None eol_char blank_char False] by (simp add: one_pass_normalized)
  ultimately show ?thesis
    by (simp add: normalize_header_value_inplace_def Let_def l(1) tk from_utf8_def utf8_check_bytes)
qed

text \<open>C38: \<open>normalize_header_value_inplace\<close>, which moves bytes within one buffer, never panics, leaves valid UTF-8, and
  computes the text without line ends in which every run of spaces and tabs is its last character and none is at
  either end; folded lines need no case of their own.\<close>

theorem normalize_in_place:
  assumes "list_all is_scalar s"
  shows "normalize_header_value_inplace s = Ok (last_blanks (dropWhile blank_char (filter (\<lambda>c. \<not> eol_char c) s)))"
  using normalize_normalized [OF assms] by (simp add: normalized_def)

theorem normalize_in_place_witness:
  "normalize_header_value_inplace [32, 0xE9, 32, 13, 10, 9, 0x20AC, 10, 32] = Ok [0xE9, 9, 0x20AC]"
  using normalize_in_place [of "[32, 0xE9, 32, 13, 10, 9, 0x20AC, 10, 32]"]
  by (simp add: is_scalar_def eol_char_def blank_char_def)

section \<open>The list of headers\<close>




lemma update_first_keys [simp]: "map fst (update_first key f hs) = map fst hs"
  by (induction key f hs rule: update_first.induct) auto












section \<open>Sequences of calls\<close>












section \<open>Reading what was written\<close>











section \<open>Where the code goes wrong\<close>

text \<open>Headers made from an object or an array ignore the guard: an unsafe header gets into a request without CORS.\<close>

lemma constructor_ignores_guard:
  "header_list (from_map (map ascii_low) [(chars ''x'', chars ''1'')] RequestNoCors) = [(chars ''x'', chars ''1'')]"
  "from_array (map ascii_low) [Some [H_String (chars ''x''), H_String (chars ''1'')]] RequestNoCors
     = Ok \<lparr>header_list = [(chars ''x'', chars ''1'')], guard = RequestNoCors\<rparr>"
  "\<not> is_cors_safelisted_request_header (chars ''x'') (chars ''1'')"
  by code_simp+

text \<open>Headers made from an object are not checked: names that differ in case are listed twice, and control characters stay.\<close>

lemma from_map_not_ok:
  "header_list (from_map (map ascii_low) [(chars ''A'', chars ''1''), (chars ''a'', [0])] No_Guard) = [(chars ''a'', chars ''1''), (chars ''a'', [0])]"
  "\<not> is_http_header_value [0]"
  by code_simp+

text \<open>Headers guarded as immutable can be changed.\<close>

lemma immutable_changes:
  "header_append (map ascii_low) (chars ''x'') (H_String (chars ''1'')) \<lparr>header_list = [], guard = Immutable\<rparr>
     = Ok \<lparr>header_list = [(chars ''x'', chars ''1'')], guard = Immutable\<rparr>"
  by code_simp

end
