(* ===== verification/Spec2Isabelle.thy ===== *)
theory Spec2Isabelle
  imports Reuse_List Text_Codec String_Decoder Json_Stringify_Laws Clone_Wire_Laws Path_Laws Numbers Writable_Laws Buffer_Laws Timer_Laws Loader_Laws Querystring_Laws Emitter_Laws Event_Iterator Byte_Queue Headers_Laws
begin

text \<open>
  \<^bold>\<open>Verification of the raster runtime.\<close> Raster is a JavaScript runtime written in Rust around the QuickJS engine.
  This development models the parts of it that are algorithms of the runtime itself, as HOL functions on explicit
  state, and proves what makes them correct. All file names are below \<open>src/\<close>; a crate is named without its prefix
  \<open>raster_runtime_\<close>.

  \<^bold>\<open>The parts and how they interact.\<close> A program enters through the module loader: a request is resolved to a file
  (\<open>package/resolver.rs\<close>), the file's module record is made and its code run once (\<open>module/require.rs\<close>). Running code
  sets timers, whose handles keep the event loop alive through its reference count. It holds bytes in Buffers, which
  are views of shared array buffers, and turns them into text with the encodings that TextDecoder, StringDecoder and
  Buffer share. It writes to streams, which pass chunks to a sink one at a time. It hears of events through emitters,
  of bytes from sockets and pipes through a queue, and gives HTTP requests their headers. Values leave the runtime as JSON
  text, or as structured-clone messages between workers.

  \<^bold>\<open>Conventions.\<close> Rust code that returns a \<open>Result\<close> or may panic has the type \<open>res\<close> of \<open>Raster_Prelude\<close>: a value, an
  error, or \<open>Panic\<close>, so freedom from panics is a theorem and no assumption. A byte is an 8-bit word, a Rust string the
  list of its Unicode scalar values. A step that changes state takes and returns a record with the fields of the
  struct. Third-party code is an argument: the hex and base64 crates are a record of functions, the file system with
  the JSON parser is an environment, the engine's heap is a record of functions on addresses, and the listeners of an
  event are a program. What is needed of it is a named hypothesis, which the witness of the theorem discharges for a concrete instance.

  \<^bold>\<open>The theories.\<close>

  \<^item> \<open>Raster_Prelude\<close>: outcomes of Rust code, checked indexing, and the locale \<open>machine\<close> of invariants kept by every
    step of a sequence. \<open>Rust_Text\<close>: the UTF-8 and UTF-16 routines of the Rust standard library.
  \<^item> \<open>Reuse_List\<close> (\<open>libs/utils/reuse_list.rs\<close>): the slot table with its free list. The locale \<open>handle_table\<close> is its
    contract; the table refines a finite map with fresh handles.
  \<^item> \<open>Encoding\<close> (\<open>libs/encoding/lib.rs\<close>): labels, and conversion between bytes and strings, which round-trips.
  \<^item> \<open>Incremental_Decoder\<close>, \<open>Incremental_Laws\<close> (\<open>libs/encoding/incremental.rs\<close>), \<open>Text_Codec\<close>
    (\<open>modules/util/text_decoder.rs\<close>, \<open>text_encoder.rs\<close>) and \<open>String_Decoder\<close> (\<open>modules/string_decoder/string_decoder.rs\<close>):
    decoders that are fed in chunks. The locale \<open>chunked_decoder\<close> says that the answer depends on the concatenation
    only; \<open>payload_decoder\<close> adds byte order marks. UTF-8, Windows-1252 and fatal UTF-16 are interpretations of it.
    \<open>encodeInto\<close> writes the longest prefix that fits.
  \<^item> \<open>Json_Escape\<close> (\<open>libs/json/escape.rs\<close>), \<open>Json_Stringify\<close>, \<open>Json_Stringify_Laws\<close> (\<open>libs/json/stringify.rs\<close>): escaping
    reads back; the output is the text of the document; the function returns on every finite heap without \<open>toJSON\<close>.
  \<^item> \<open>Clone_Wire\<close>, \<open>Clone_Wire_Laws\<close> (\<open>libs/utils/clone_wire.rs\<close>): the message format. The locale \<open>wire_format\<close> pairs a
    writer with its reader; messages round-trip, cut-off ones are rejected, and no bytes make the reader panic.
  \<^item> \<open>Path_Module\<close>, \<open>Path_Laws\<close> (\<open>modules/path/lib.rs\<close>): join, normalize and resolve give canonical paths; relative and
    parse are undone by resolve and format.
  \<^item> \<open>Numbers\<close> (\<open>libs/numbers/lib.rs\<close>): integers in a radix, with the bounds of the digit buffers, and \<open>next_up\<close>.
  \<^item> \<open>Writable_Stream\<close>, \<open>Writable_Laws\<close> (\<open>modules/stream_web/writable/\<close>, \<open>utils/queue.rs\<close>, \<open>utils/promise.rs\<close>): a state
    machine of calls and settlements; the stream does not panic, keeps the order of the chunks, and settles its promises.
  \<^item> \<open>Buffer_Module\<close>, \<open>Buffer_Laws\<close> (\<open>modules/buffer/buffer.rs\<close>, \<open>libs/utils/bytes.rs\<close>): views on a store of array
    buffers, so that sharing and overlap are visible.
  \<^item> \<open>Timers\<close>, \<open>Timer_Laws\<close> (\<open>modules/timers/lib.rs\<close>, \<open>libs/utils/event_loop.rs\<close>): timers run when due and one-shot
    timers once; the reference count is the number of referenced handles.
  \<^item> \<open>Package_Resolver\<close>, \<open>Resolver_Laws\<close> (\<open>raster_runtime_modules/package/resolver.rs\<close>): the search order of files,
    directories and package scopes. \<open>Module_Loader\<close>, \<open>Loader_Laws\<close> (\<open>raster_runtime_modules/module/\<close>,
    \<open>package/loader.rs\<close>): a module runs once, and cyclic requests come to an end.
  \<^item> \<open>Querystring\<close>, \<open>Querystring_Laws\<close> (\<open>modules/querystring/lib.rs\<close>): the JavaScript text the crate evaluates. The scanner
    of \<open>parse\<close> agrees with a reference reader on every string, reads back what \<open>stringify\<close> wrote, and never throws.
  \<^item> \<open>Event_Emitter\<close>, \<open>Emitter_Laws\<close> (\<open>modules/events/lib.rs\<close>): tables of listeners, adding, removing and emitting, with
    listeners that call the emitter again. A \<open>once\<close> listener is called at most once in every execution, quiet listeners
    are called in order, and \<open>off\<close> undoes \<open>on\<close>. \<open>Event_Iterator\<close> (the JavaScript text of \<open>EventEmitter.on\<close> in the same file):
    the queues of events and of waiting calls; promises and events keep their order, and no event is dropped or repeated.
  \<^item> \<open>Byte_Queue\<close> (\<open>libs/utils/bytearray_buffer.rs\<close>): the queue of bytes below the readable streams of sockets and pipes. No
    byte is lost in any order of the steps of its writer and its reader, and a reader that asks for a size gets it.
  \<^item> \<open>Http_Headers\<close>, \<open>Headers_Laws\<close> (\<open>modules/fetch/headers.rs\<close>): the in-place normalization of values agrees with a reference,
    the list stays well-formed and within the CORS safelist under every sequence of calls, and appended values are joined.

  Theories ending in \<open>Laws\<close> hold lemmas and properties about the definitions of the theory they are named after. Their
  last sections show, on concrete inputs, where the code departs from its documentation.

  \<^bold>\<open>Bounds and fuel.\<close> Recursion through the engine's heap or through user modules need not end, so three models take
  fuel. \<open>JSON.stringify\<close> on a heap of \<open>k\<close> objects needs at most \<open>21 + k\<close> nested calls, since an object repeated on the
  path is found once the path is longer than 20. A request needs one more frame than there are modules, since a module
  in progress is answered from the cache. Both bounds are proved. Listeners may call each other for ever, so no amount
  is enough for all of them: an emission that runs out of fuel is cut and keeps the state it has reached, what is proved
  of \<open>once\<close> holds of every such state, and two nested calls suffice for listeners that do nothing. All other definitions are
  total.

  \<^bold>\<open>Not modelled.\<close> Code whose behaviour lies in the operating system or a third-party crate (files, sockets,
  processes, terminals, TLS, compression, cryptography, sqlite, HTTP), bindings of the engine (Node-API, the V8 layer,
  realms, reflection, structured cloning of engine objects), generated tables and tests. Of the modelled parts: the
  Windows branches of paths, fractions in \<open>Number.prototype.toString\<close> (floating-point arithmetic), uninitialised
  buffers, re-entrant calls from a sink's methods, the readable side of streams, limits on the number of
  listeners and the promise helpers of the events module, and the conversion of JavaScript arguments, which is taken as
  done. The byte queue is described for the one thread that runs the tasks of a runtime.
\<close>

end
